(* ===== verification/Prelude.thy ===== *)
theory Prelude
  imports Main "HOL-Library.Word"
begin

text \<open>
  Shared ground of the development: the machine integers of the C sources, the
  transition-system vocabulary (reachable states, invariants, simulations) that every
  multi-threaded program of the suite uses, and the collections the component theories
  extend.

  C types: \<^verbatim>\<open>u_int32_t\<close> (and so \<^verbatim>\<open>futex_t\<close>) is a \<open>32 word\<close>; the local \<^verbatim>\<open>int\<close>
  variables of the sources are \<open>int\<close>, and an \<^verbatim>\<open>int\<close> that lives in shared memory is the
  \<open>32 word\<close> of its two's complement, read back with \<open>sint\<close>.
\<close>

unbundle bit_operations_syntax

section \<open>Machine integers\<close>

type_synonym u32 = "32 word"

type_synonym tid = nat

text \<open>Conversions between \<^verbatim>\<open>int\<close> and \<^verbatim>\<open>u_int32_t\<close>, as gcc performs them (modulo \<open>2 ^ 32\<close>).\<close>

abbreviation u32_of_int :: "int \<Rightarrow> u32" where
  "u32_of_int \<equiv> word_of_int"

abbreviation int_of_u32 :: "u32 \<Rightarrow> int" where
  "int_of_u32 \<equiv> sint"

definition INT_MAX :: int where
  "INT_MAX = 2147483647"

definition INT_MIN :: int where
  "INT_MIN = - 2147483648"

text \<open>The value of a wider integer after conversion to \<^verbatim>\<open>int\<close>.\<close>

definition s32 :: "int \<Rightarrow> int" where
  "s32 x = signed_take_bit 31 x"

text \<open>C division truncates towards zero.\<close>

definition c_div :: "int \<Rightarrow> int \<Rightarrow> int" where
  "c_div a b = sgn a * sgn b * (\<bar>a\<bar> div \<bar>b\<bar>)"

definition c_mod :: "int \<Rightarrow> int \<Rightarrow> int" where
  "c_mod a b = a - b * c_div a b"

section \<open>Collections\<close>

named_theorems status_defs \<open>what a main thread knows of the threads it started\<close>

named_theorems count_defs \<open>what a loop has counted so far\<close>

section \<open>Transition systems\<close>

inductive reach :: "('s \<Rightarrow> bool) \<Rightarrow> ('s \<Rightarrow> 's \<Rightarrow> bool) \<Rightarrow> 's \<Rightarrow> bool"
  for init :: "'s \<Rightarrow> bool" and step :: "'s \<Rightarrow> 's \<Rightarrow> bool" where
  reach_start: "init s \<Longrightarrow> reach init step s"
| reach_more: "reach init step s \<Longrightarrow> step s s' \<Longrightarrow> reach init step s'"

text \<open>What a component has to show for a predicate to hold in every reachable state.\<close>

locale inductive_invariant =
  fixes init :: "'s \<Rightarrow> bool" and step :: "'s \<Rightarrow> 's \<Rightarrow> bool" and inv :: "'s \<Rightarrow> bool"
  assumes inv_start: "init s \<Longrightarrow> inv s"
    and inv_kept: "inv s \<Longrightarrow> step s s' \<Longrightarrow> inv s'"
begin

lemma reach_inv: "reach init step s \<Longrightarrow> inv s"
  by (induction rule: reach.induct) (auto intro: inv_start inv_kept)

end

text \<open>A forward simulation: every concrete step is an abstract step or leaves the
  abstraction alone, so abstractions of reachable states are reachable.\<close>

locale forward_simulation =
  fixes init :: "'s \<Rightarrow> bool" and step :: "'s \<Rightarrow> 's \<Rightarrow> bool"
    and ainit :: "'a \<Rightarrow> bool" and astep :: "'a \<Rightarrow> 'a \<Rightarrow> bool" and abs :: "'s \<Rightarrow> 'a"
  assumes sim_start: "init s \<Longrightarrow> ainit (abs s)"
    and sim_step: "reach init step s \<Longrightarrow> reach ainit astep (abs s) \<Longrightarrow> step s s' \<Longrightarrow>
      astep (abs s) (abs s') \<or> abs s' = abs s"
begin

lemma reach_abs: "reach init step s \<Longrightarrow> reach ainit astep (abs s)"
proof (induction rule: reach.induct)
  case (reach_start s)
  then show ?case by (auto intro: reach.reach_start sim_start)
next
  case (reach_more s s')
  then show ?case by (metis reach.reach_more sim_step)
qed

end

section \<open>Arithmetic shared by the components\<close>

lemma INT_MAX_pos: "0 < INT_MAX"
  by (simp add: INT_MAX_def)

lemma s32_id: "INT_MIN \<le> x \<Longrightarrow> x \<le> INT_MAX \<Longrightarrow> s32 x = x"
  by (simp add: s32_def INT_MIN_def INT_MAX_def signed_take_bit_int_eq_self_iff)

lemma s32_range: "INT_MIN \<le> s32 x \<and> s32 x \<le> INT_MAX"
proof -
  have "- (2 ^ 31) \<le> s32 x" and "s32 x < 2 ^ 31"
    unfolding s32_def
    by (rule signed_take_bit_int_greater_eq_minus_exp, rule signed_take_bit_int_less_exp)
  then show ?thesis by (simp add: INT_MIN_def INT_MAX_def)
qed

lemma sint_u32_of_int: "sint (u32_of_int x) = s32 x"
  by (simp add: s32_def sint_sbintrunc')

lemma c_div_nonneg: "0 \<le> a \<Longrightarrow> 0 \<le> b \<Longrightarrow> c_div a b = a div b"
  by (cases "a = 0"; cases "b = 0") (auto simp: c_div_def)

lemma c_mod_nonneg: "0 \<le> a \<Longrightarrow> 0 \<le> b \<Longrightarrow> c_mod a b = a mod b"
  by (simp add: c_mod_def c_div_nonneg minus_mult_div_eq_mod)

lemma c_div_mod: "c_div a b * b + c_mod a b = a"
  by (simp add: c_mod_def)

lemma c_mod_neg: "a < 0 \<Longrightarrow> 0 < b \<Longrightarrow> c_mod a b = - ((- a) mod b)"
  by (simp add: c_mod_def c_div_def minus_mult_div_eq_mod [symmetric])

text \<open>The remainder is one of the Euclidean division only for a dividend that is not negative, or
  a multiple.\<close>

lemma c_mod_range:
  assumes "0 < b"
  shows "(0 \<le> c_mod a b \<and> c_mod a b < b) \<longleftrightarrow> (0 \<le> a \<or> a mod b = 0)"
proof (cases "0 \<le> a")
  case True
  with assms show ?thesis by (simp add: c_mod_nonneg)
next
  case False
  with assms have c: "c_mod a b = - ((- a) mod b)" by (simp add: c_mod_neg)
  have "0 \<le> (- a) mod b" using assms by simp
  then have "0 \<le> c_mod a b \<and> c_mod a b < b \<longleftrightarrow> (- a) mod b = 0"
    unfolding c using assms by linarith
  also have "\<dots> \<longleftrightarrow> a mod b = 0" by (simp add: mod_eq_0_iff_dvd)
  finally show ?thesis using False by simp
qed

lemma u32_dec_unat: "(w :: u32) \<noteq> 0 \<Longrightarrow> unat (w - 1) = unat w - 1"
  by (simp add: unat_minus_one)

lemma unat_u32_of_nat: "n < 2 ^ 32 \<Longrightarrow> unat (of_nat n :: u32) = n"
  by (simp add: unat_of_nat take_bit_nat_eq_self)

end
