(* ===== verification/C_Library.thy ===== *)
theory C_Library
  imports Prelude
begin

text \<open>
  What the sources use of the C library and of the system headers: \<^verbatim>\<open>atoi\<close>, \<^verbatim>\<open>getopt\<close>,
  \<^verbatim>\<open>basename\<close>, the \<^verbatim>\<open>errno\<close> and \<^verbatim>\<open>linux/futex.h\<close> constants, \<^verbatim>\<open>struct timespec\<close>, and the
  option loop every \<^verbatim>\<open>main\<close> of the suite is built around.

  \<^verbatim>\<open>getopt\<close> follows glibc: options may be clustered, an option argument is the rest of its
  element or the next element, operands are skipped (the sources are compiled with
  \<^verbatim>\<open>_GNU_SOURCE\<close>), and \<^verbatim>\<open>--\<close> ends the options.  An unknown option and a missing argument
  both give \<^verbatim>\<open>'?'\<close>.
\<close>

section \<open>System constants\<close>

definition EPERM :: int where "EPERM = 1"
definition ENOENT :: int where "ENOENT = 2"
definition EINTR :: int where "EINTR = 4"
definition EAGAIN :: int where "EAGAIN = 11"
definition EWOULDBLOCK :: int where "EWOULDBLOCK = EAGAIN"
definition EINVAL :: int where "EINVAL = 22"
definition EDEADLK :: int where "EDEADLK = 35"
definition ENOSYS :: int where "ENOSYS = 38"
definition ETIMEDOUT :: int where "ETIMEDOUT = 110"

lemmas errno_defs = EPERM_def ENOENT_def EINTR_def EAGAIN_def EWOULDBLOCK_def EINVAL_def
  EDEADLK_def ENOSYS_def ETIMEDOUT_def

record timespec =
  tv_sec :: int
  tv_nsec :: int

section \<open>Numbers and text\<close>

definition digit_of :: "char \<Rightarrow> int option" where
  "digit_of c = (let n = of_char c :: int in if 48 \<le> n \<and> n \<le> 57 then Some (n - 48) else None)"

fun digits_value :: "int \<Rightarrow> string \<Rightarrow> int" where
  "digits_value acc [] = acc"
| "digits_value acc (c # cs) =
     (case digit_of c of None \<Rightarrow> acc | Some d \<Rightarrow> digits_value (10 * acc + d) cs)"

definition is_space :: "char \<Rightarrow> bool" where
  "is_space c = (let n = of_char c :: int in n = 32 \<or> (9 \<le> n \<and> n \<le> 13))"

definition strtol10 :: "string \<Rightarrow> int" where
  "strtol10 s =
     (let v = (case dropWhile is_space s of
                 [] \<Rightarrow> 0
               | c # cs \<Rightarrow> if c = CHR ''-'' then - digits_value 0 cs
                          else if c = CHR ''+'' then digits_value 0 cs
                          else digits_value 0 (c # cs))
      in max (- (2 ^ 63)) (min (2 ^ 63 - 1) v))"

text \<open>glibc's \<^verbatim>\<open>atoi\<close>: the \<^verbatim>\<open>long\<close> of \<^verbatim>\<open>strtol\<close>, converted to \<^verbatim>\<open>int\<close>.\<close>

definition atoi :: "string \<Rightarrow> int" where
  "atoi s = s32 (strtol10 s)"

fun nat_digits :: "nat \<Rightarrow> string" where
  "nat_digits n =
     (if n < 10 then [char_of (48 + n)] else nat_digits (n div 10) @ [char_of (48 + n mod 10)])"

declare nat_digits.simps [simp del]

text \<open>The text \<^verbatim>\<open>printf\<close> gives for \<^verbatim>\<open>%d\<close> and \<^verbatim>\<open>%ld\<close>.\<close>

definition show_int :: "int \<Rightarrow> string" where
  "show_int i = (if i < 0 then CHR ''-'' # nat_digits (nat (- i)) else nat_digits (nat i))"

definition basename :: "string \<Rightarrow> string" where
  "basename s = rev (takeWhile (\<lambda>c. c \<noteq> CHR ''/'') (rev s))"

definition newline :: string where
  "newline = [CHR 0x0A]"

definition tab :: string where
  "tab = [CHR 0x09]"

section \<open>getopt\<close>

datatype optev = Opt char "string option" | Bad

text \<open>The argument of an option as a string.\<close>

definition optarg_text :: "string option \<Rightarrow> string" where
  "optarg_text optarg = (case optarg of Some v \<Rightarrow> v | None \<Rightarrow> [])"

lemma optarg_text_Some [simp]: "optarg_text (Some v) = v"
  by (simp add: optarg_text_def)

text \<open>How an option string declares a character: absent, a flag, or with an argument.\<close>

fun opt_kind :: "string \<Rightarrow> char \<Rightarrow> bool option" where
  "opt_kind [] c = None"
| "opt_kind (d # ds) c =
     (if d = c \<and> c \<noteq> CHR '':'' then Some (case ds of e # _ \<Rightarrow> e = CHR '':'' | [] \<Rightarrow> False)
      else opt_kind ds c)"

text \<open>One element after its dash: the flags of the cluster, and whether its last option
  still needs an argument.\<close>

fun cluster :: "string \<Rightarrow> string \<Rightarrow> optev list \<times> char option" where
  "cluster os [] = ([], None)"
| "cluster os (c # cs) =
     (case opt_kind os c of
        None \<Rightarrow> (let (es, need) = cluster os cs in (Bad # es, need))
      | Some False \<Rightarrow> (let (es, need) = cluster os cs in (Opt c None # es, need))
      | Some True \<Rightarrow> (case cs of [] \<Rightarrow> ([], Some c) | _ \<Rightarrow> ([Opt c (Some cs)], None)))"

fun getopt_events :: "string \<Rightarrow> string list \<Rightarrow> optev list" where
  "getopt_events os [] = []"
| "getopt_events os (a # as) =
     (if a = ''--'' then []
      else if length a < 2 \<or> hd a \<noteq> CHR ''-'' then getopt_events os as
      else (case cluster os (tl a) of
              (es, None) \<Rightarrow> es @ getopt_events os as
            | (es, Some c) \<Rightarrow>
                (case as of [] \<Rightarrow> es @ [Bad]
                 | v # as' \<Rightarrow> es @ Opt c (Some v) # getopt_events os as')))"

text \<open>
  \<^verbatim>\<open>while ((c = getopt(argc, argv, os)) != -1) switch (c) { ... }\<close>: the switch is the
  argument \<open>sw\<close>, which gives the new settings, or the status of an \<^verbatim>\<open>exit\<close> call with the text
  printed before it.
\<close>

type_synonym leave = "int \<times> string"

fun option_loop :: "(optev \<Rightarrow> 'c \<Rightarrow> leave + 'c) \<Rightarrow> optev list \<Rightarrow> 'c \<Rightarrow> leave + 'c" where
  "option_loop sw [] cfg = Inr cfg"
| "option_loop sw (e # es) cfg =
     (case sw e cfg of Inl st \<Rightarrow> Inl st | Inr cfg' \<Rightarrow> option_loop sw es cfg')"

definition run_getopt :: "string \<Rightarrow> (optev \<Rightarrow> 'c \<Rightarrow> leave + 'c) \<Rightarrow> string list \<Rightarrow> 'c \<Rightarrow> leave + 'c" where
  "run_getopt os sw args cfg = option_loop sw (getopt_events os args) cfg"

end
