(* ===== verification/Atomic.thy ===== *)
theory Atomic
  imports Prelude
begin

text \<open>
  \<^verbatim>\<open>include/atomic.h\<close> and the atomic operations of \<^verbatim>\<open>include/futextest.h\<close>: thin wrappers around
  gcc's \<^verbatim>\<open>__sync\<close> builtins on a shared \<^verbatim>\<open>int\<close> and on a shared \<^verbatim>\<open>u_int32_t\<close>.

  Memory is a function from locations to words.  An operation takes the memory and the
  address and gives the value the C function returns together with the new memory; the
  builtins are atomic, so an operation is one step of a thread.  The \<^verbatim>\<open>val\<close> field of an
  \<^verbatim>\<open>atomic_t\<close> is the only field of the struct, so its location is the location of the
  struct; its word is the two's complement of the \<^verbatim>\<open>int\<close>, and the wrappers return that
  \<^verbatim>\<open>int\<close>.

  The interface \<open>atomic_cell\<close> is the contract the two families share; both are
  interpreted below.
\<close>

type_synonym 'a memory = "'a \<Rightarrow> u32"

section \<open>gcc's builtins\<close>

definition sync_val_compare_and_swap ::
    "'a memory \<Rightarrow> 'a \<Rightarrow> u32 \<Rightarrow> u32 \<Rightarrow> u32 \<times> 'a memory" where
  "sync_val_compare_and_swap m p old new = (m p, if m p = old then m(p := new) else m)"

definition sync_add_and_fetch :: "'a memory \<Rightarrow> 'a \<Rightarrow> u32 \<Rightarrow> u32 \<times> 'a memory" where
  "sync_add_and_fetch m p n = (m p + n, m(p := m p + n))"

definition sync_sub_and_fetch :: "'a memory \<Rightarrow> 'a \<Rightarrow> u32 \<Rightarrow> u32 \<times> 'a memory" where
  "sync_sub_and_fetch m p n = (m p - n, m(p := m p - n))"

section \<open>futextest.h\<close>

definition futex_cmpxchg :: "'a memory \<Rightarrow> 'a \<Rightarrow> u32 \<Rightarrow> u32 \<Rightarrow> u32 \<times> 'a memory" where
  "futex_cmpxchg m uaddr oldval newval = sync_val_compare_and_swap m uaddr oldval newval"

definition futex_dec :: "'a memory \<Rightarrow> 'a \<Rightarrow> u32 \<times> 'a memory" where
  "futex_dec m uaddr = sync_sub_and_fetch m uaddr 1"

definition futex_inc :: "'a memory \<Rightarrow> 'a \<Rightarrow> u32 \<times> 'a memory" where
  "futex_inc m uaddr = sync_add_and_fetch m uaddr 1"

definition futex_set :: "'a memory \<Rightarrow> 'a \<Rightarrow> u32 \<Rightarrow> u32 \<times> 'a memory" where
  "futex_set m uaddr newval = (newval, m(uaddr := newval))"

section \<open>atomic.h\<close>

definition atomic_val :: "'a memory \<Rightarrow> 'a \<Rightarrow> int" where
  "atomic_val m addr = int_of_u32 (m addr)"

definition atomic_cmpxchg :: "'a memory \<Rightarrow> 'a \<Rightarrow> int \<Rightarrow> int \<Rightarrow> int \<times> 'a memory" where
  "atomic_cmpxchg m addr oldval newval =
     map_prod int_of_u32 id
       (sync_val_compare_and_swap m addr (u32_of_int oldval) (u32_of_int newval))"

definition atomic_inc :: "'a memory \<Rightarrow> 'a \<Rightarrow> int \<times> 'a memory" where
  "atomic_inc m addr = map_prod int_of_u32 id (sync_add_and_fetch m addr 1)"

definition atomic_dec :: "'a memory \<Rightarrow> 'a \<Rightarrow> int \<times> 'a memory" where
  "atomic_dec m addr = map_prod int_of_u32 id (sync_sub_and_fetch m addr 1)"

definition atomic_set :: "'a memory \<Rightarrow> 'a \<Rightarrow> int \<Rightarrow> int \<times> 'a memory" where
  "atomic_set m addr newval = (newval, m(addr := u32_of_int newval))"

section \<open>The contract of an atomic cell\<close>

text \<open>
  \<open>get\<close> reads the cell as the C type of the family does; \<open>ok\<close> holds of the values that
  type has.
\<close>

locale atomic_cell =
  fixes get :: "'a memory \<Rightarrow> 'a \<Rightarrow> 'v"
    and cmpxchg :: "'a memory \<Rightarrow> 'a \<Rightarrow> 'v \<Rightarrow> 'v \<Rightarrow> 'v \<times> 'a memory"
    and inc :: "'a memory \<Rightarrow> 'a \<Rightarrow> 'v \<times> 'a memory"
    and dec :: "'a memory \<Rightarrow> 'a \<Rightarrow> 'v \<times> 'a memory"
    and set :: "'a memory \<Rightarrow> 'a \<Rightarrow> 'v \<Rightarrow> 'v \<times> 'a memory"
    and ok :: "'v \<Rightarrow> bool"
  assumes get_ok: "ok (get m p)"
    and get_cong: "m p = m' p \<Longrightarrow> get m p = get m' p"
    and get_eqD: "get m p = get m' p \<Longrightarrow> m p = m' p"
    and cmpxchg_returns: "fst (cmpxchg m p old new) = get m p"
    and cmpxchg_hit: "ok old \<Longrightarrow> ok new \<Longrightarrow> get m p = old \<Longrightarrow> get (snd (cmpxchg m p old new)) p = new"
    and cmpxchg_miss: "ok old \<Longrightarrow> get m p \<noteq> old \<Longrightarrow> snd (cmpxchg m p old new) = m"
    and inc_returns: "fst (inc m p) = get (snd (inc m p)) p"
    and dec_returns: "fst (dec m p) = get (snd (dec m p)) p"
    and dec_inc: "get (snd (dec (snd (inc m p)) p)) p = get m p"
    and inc_dec: "get (snd (inc (snd (dec m p)) p)) p = get m p"
    and set_returns: "fst (set m p v) = v"
    and set_get: "ok v \<Longrightarrow> get (snd (set m p v)) p = v"
    and frame: "q \<noteq> p \<Longrightarrow> snd (cmpxchg m p old new) q = m q \<and> snd (inc m p) q = m q \<and>
      snd (dec m p) q = m q \<and> snd (set m p v) q = m q"
begin

text \<open>A compare-and-exchange took place exactly when it returns the expected value, and
  trying it again can only succeed if somebody restored that value.\<close>

lemma cmpxchg_success_iff:
  assumes "ok old" and "ok new" and "old \<noteq> new"
  shows "fst (cmpxchg m p old new) = old \<longleftrightarrow> snd (cmpxchg m p old new) p \<noteq> m p"
proof -
  have "fst (cmpxchg m p old new) = old \<Longrightarrow> snd (cmpxchg m p old new) p \<noteq> m p"
    using cmpxchg_hit [OF assms(1,2), of m p] assms(3) get_cong [of "snd (cmpxchg m p old new)" p m]
    by (auto simp: cmpxchg_returns)
  moreover have "fst (cmpxchg m p old new) \<noteq> old \<Longrightarrow> snd (cmpxchg m p old new) p = m p"
    using cmpxchg_miss [OF assms(1), of m p new] by (simp add: cmpxchg_returns)
  ultimately show ?thesis by blast
qed

lemma inc_dec_roundtrip: "snd (dec (snd (inc m p)) p) = m \<and> snd (inc (snd (dec m p)) p) = m"
proof -
  have "snd (dec (snd (inc m p)) p) q = m q" for q
    by (cases "q = p") (auto simp: frame dec_inc intro: get_eqD)
  moreover have "snd (inc (snd (dec m p)) p) q = m q" for q
    by (cases "q = p") (auto simp: frame inc_dec intro: get_eqD)
  ultimately show ?thesis by blast
qed

end

lemmas sync_defs = sync_val_compare_and_swap_def sync_add_and_fetch_def sync_sub_and_fetch_def

lemmas futex_atomic_defs = futex_cmpxchg_def futex_dec_def futex_inc_def futex_set_def

lemmas atomic_defs = atomic_val_def atomic_cmpxchg_def atomic_inc_def atomic_dec_def atomic_set_def

interpretation futex_cell: atomic_cell "\<lambda>m p. m p" futex_cmpxchg futex_inc futex_dec futex_set "\<lambda>_. True"
  by unfold_locales (auto simp: futex_atomic_defs sync_defs)

text \<open>An \<^verbatim>\<open>int\<close> in range is the \<^verbatim>\<open>int\<close> of its word.\<close>

lemma int_u32_int: "INT_MIN \<le> v \<Longrightarrow> v \<le> INT_MAX \<Longrightarrow> int_of_u32 (u32_of_int v) = v"
  by (simp add: sint_u32_of_int s32_id)

lemma u32_of_int_of_u32: "u32_of_int (int_of_u32 w) = w"
  by simp

lemma int_of_u32_inj: "int_of_u32 v = int_of_u32 w \<Longrightarrow> v = w"
  by (metis u32_of_int_of_u32)

lemma int_of_u32_range: "INT_MIN \<le> int_of_u32 w \<and> int_of_u32 w \<le> INT_MAX"
  using s32_range [of "int_of_u32 w"] sint_u32_of_int [of "int_of_u32 w"] by simp

interpretation atomic_t: atomic_cell atomic_val atomic_cmpxchg atomic_inc atomic_dec atomic_set
  "\<lambda>v. INT_MIN \<le> v \<and> v \<le> INT_MAX"
  by unfold_locales
    (auto simp: atomic_defs sync_defs int_u32_int int_of_u32_range dest: int_of_u32_inj)

section \<open>Properties\<close>

text \<open>A compare-and-exchange tells the caller whether it took place.  \<^verbatim>\<open>futex_cmpxchg\<close> returns the
  expected value exactly when it has changed the word, and then the word is the new value.\<close>

theorem futex_cmpxchg_success:
  assumes "oldval \<noteq> newval"
  shows "(fst (futex_cmpxchg m p oldval newval) = oldval \<longleftrightarrow> snd (futex_cmpxchg m p oldval newval) p \<noteq> m p) \<and>
    (fst (futex_cmpxchg m p oldval newval) = oldval \<longrightarrow> snd (futex_cmpxchg m p oldval newval) = m(p := newval))"
  using futex_cell.cmpxchg_success_iff [OF _ _ assms, of m p] by (simp add: futex_atomic_defs sync_defs)

theorem futex_cmpxchg_success_witness:
  "fst (futex_cmpxchg (\<lambda>_. 0) (0 :: nat) 0 1) = 0 \<and> snd (futex_cmpxchg (\<lambda>_. 0) (0 :: nat) 0 1) 0 = 1"
  using futex_cmpxchg_success [of 0 1 "\<lambda>_. 0" "0 :: nat"] by (simp add: futex_atomic_defs sync_defs)

text \<open>The counters of \<^verbatim>\<open>atomic.h\<close> count modulo \<open>2 ^ 32\<close>.  \<^verbatim>\<open>atomic_inc\<close> and \<^verbatim>\<open>atomic_dec\<close> return the
  new value, the old one plus or minus 1 wrapped to an \<^verbatim>\<open>int\<close>, touch no other location, and
  undo each other.\<close>

theorem atomic_counting:
  "fst (atomic_inc m p) = s32 (atomic_val m p + 1) \<and> fst (atomic_dec m p) = s32 (atomic_val m p - 1) \<and>
   atomic_val (snd (atomic_inc m p)) p = fst (atomic_inc m p) \<and>
   snd (atomic_dec (snd (atomic_inc m p)) p) = m \<and> snd (atomic_inc (snd (atomic_dec m p)) p) = m"
proof -
  have "int_of_u32 (w + 1) = s32 (int_of_u32 w + 1)" "int_of_u32 (w - 1) = s32 (int_of_u32 w - 1)" for w :: u32
    using sint_u32_of_int [of "int_of_u32 w + 1"] sint_u32_of_int [of "int_of_u32 w - 1"] by simp_all
  with atomic_t.inc_dec_roundtrip [of m p] show ?thesis
    by (simp add: atomic_defs sync_defs)
qed

end
