(* ===== verification/Futextest.thy ===== *)
theory Futextest
  imports C_Library Atomic
begin

text \<open>
  \<^verbatim>\<open>include/futextest.h\<close>: the \<^verbatim>\<open>futex\<close> macro and the wrappers that lay out the arguments of
  the system call.  A wrapper gives the \<open>futex_call\<close> it hands to the kernel; what the kernel
  does with it is a parameter of the programs that make the call (theory \<open>Machine\<close>).

  \<open>decode\<close> reads a call by the argument conventions of the futex(2) manual page, so that
  what a wrapper means and what a kernel is told can be compared.  The values of the op
  codes the header takes from \<^verbatim>\<open>linux/futex.h\<close> are those of the Linux ABI.
\<close>

section \<open>Op codes and flags\<close>

definition FUTEX_INITIALIZER :: u32 where "FUTEX_INITIALIZER = 0"

definition FUTEX_WAIT :: u32 where "FUTEX_WAIT = 0"
definition FUTEX_WAKE :: u32 where "FUTEX_WAKE = 1"
definition FUTEX_REQUEUE :: u32 where "FUTEX_REQUEUE = 3"
definition FUTEX_CMP_REQUEUE :: u32 where "FUTEX_CMP_REQUEUE = 4"
definition FUTEX_WAKE_OP :: u32 where "FUTEX_WAKE_OP = 5"
definition FUTEX_LOCK_PI :: u32 where "FUTEX_LOCK_PI = 6"
definition FUTEX_UNLOCK_PI :: u32 where "FUTEX_UNLOCK_PI = 7"
definition FUTEX_PRIVATE_FLAG :: u32 where "FUTEX_PRIVATE_FLAG = 128"

definition FUTEX_WAIT_BITSET :: u32 where "FUTEX_WAIT_BITSET = 9"
definition FUTEX_WAKE_BITSET :: u32 where "FUTEX_WAKE_BITSET = 10"
definition FUTEX_WAIT_REQUEUE_PI :: u32 where "FUTEX_WAIT_REQUEUE_PI = 11"
definition FUTEX_CMP_REQUEUE_PI :: u32 where "FUTEX_CMP_REQUEUE_PI = 12"

definition FUTEX_WAIT_REQUEUE_PI_PRIVATE :: u32 where
  "FUTEX_WAIT_REQUEUE_PI_PRIVATE = (FUTEX_WAIT_REQUEUE_PI OR FUTEX_PRIVATE_FLAG)"

definition FUTEX_CMP_REQUEUE_PI_PRIVATE :: u32 where
  "FUTEX_CMP_REQUEUE_PI_PRIVATE = (FUTEX_CMP_REQUEUE_PI OR FUTEX_PRIVATE_FLAG)"

lemmas opcode_defs = FUTEX_WAIT_def FUTEX_WAKE_def FUTEX_REQUEUE_def FUTEX_CMP_REQUEUE_def
  FUTEX_WAKE_OP_def FUTEX_LOCK_PI_def FUTEX_UNLOCK_PI_def FUTEX_PRIVATE_FLAG_def
  FUTEX_WAIT_BITSET_def FUTEX_WAKE_BITSET_def FUTEX_WAIT_REQUEUE_PI_def
  FUTEX_CMP_REQUEUE_PI_def FUTEX_WAIT_REQUEUE_PI_PRIVATE_def FUTEX_CMP_REQUEUE_PI_PRIVATE_def

section \<open>The system call and its wrappers\<close>

text \<open>The fourth argument is a pointer to a timespec, NULL, or a count that overloads it.\<close>

datatype timeout_arg = No_timeout | Timeout timespec | Count int

text \<open>A timeout has to be a proper timespec; others are refused by the kernel with \<^verbatim>\<open>EINVAL\<close>.\<close>

fun timeout_valid :: "timeout_arg \<Rightarrow> bool" where
  "timeout_valid (Timeout ts) \<longleftrightarrow> 0 \<le> tv_sec ts \<and> 0 \<le> tv_nsec ts \<and> tv_nsec ts < 10 ^ 9"
| "timeout_valid _ \<longleftrightarrow> True"

lemma no_timeout_valid: "timeout_valid No_timeout"
  by simp

record 'a futex_call =
  fc_uaddr :: 'a
  fc_op :: u32
  fc_val :: u32
  fc_timeout :: timeout_arg
  fc_uaddr2 :: "'a option"
  fc_val3 :: u32

definition futex ::
    "'a \<Rightarrow> u32 \<Rightarrow> u32 \<Rightarrow> timeout_arg \<Rightarrow> 'a option \<Rightarrow> u32 \<Rightarrow> u32 \<Rightarrow> 'a futex_call" where
  "futex uaddr op val timeout uaddr2 val3 opflags =
     \<lparr>fc_uaddr = uaddr, fc_op = op OR opflags, fc_val = val, fc_timeout = timeout,
      fc_uaddr2 = uaddr2, fc_val3 = val3\<rparr>"

definition timespec_arg :: "timespec option \<Rightarrow> timeout_arg" where
  "timespec_arg t = (case t of None \<Rightarrow> No_timeout | Some ts \<Rightarrow> Timeout ts)"

definition futex_wait :: "'a \<Rightarrow> u32 \<Rightarrow> timespec option \<Rightarrow> u32 \<Rightarrow> 'a futex_call" where
  "futex_wait uaddr val timeout opflags =
     futex uaddr FUTEX_WAIT val (timespec_arg timeout) None 0 opflags"

definition futex_wake :: "'a \<Rightarrow> int \<Rightarrow> u32 \<Rightarrow> 'a futex_call" where
  "futex_wake uaddr nr_wake opflags =
     futex uaddr FUTEX_WAKE (u32_of_int nr_wake) No_timeout None 0 opflags"

definition futex_wait_bitset ::
    "'a \<Rightarrow> u32 \<Rightarrow> timespec option \<Rightarrow> u32 \<Rightarrow> u32 \<Rightarrow> 'a futex_call" where
  "futex_wait_bitset uaddr val timeout bitset opflags =
     futex uaddr FUTEX_WAIT_BITSET val (timespec_arg timeout) None bitset opflags"

definition futex_wake_bitset :: "'a \<Rightarrow> int \<Rightarrow> u32 \<Rightarrow> u32 \<Rightarrow> 'a futex_call" where
  "futex_wake_bitset uaddr nr_wake bitset opflags =
     futex uaddr FUTEX_WAKE_BITSET (u32_of_int nr_wake) No_timeout None bitset opflags"

definition futex_lock_pi :: "'a \<Rightarrow> timespec option \<Rightarrow> int \<Rightarrow> u32 \<Rightarrow> 'a futex_call" where
  "futex_lock_pi uaddr timeout detect opflags =
     futex uaddr FUTEX_LOCK_PI (u32_of_int detect) (timespec_arg timeout) None 0 opflags"

definition futex_unlock_pi :: "'a \<Rightarrow> u32 \<Rightarrow> 'a futex_call" where
  "futex_unlock_pi uaddr opflags = futex uaddr FUTEX_UNLOCK_PI 0 No_timeout None 0 opflags"

definition futex_wake_op :: "'a \<Rightarrow> 'a \<Rightarrow> int \<Rightarrow> int \<Rightarrow> int \<Rightarrow> u32 \<Rightarrow> 'a futex_call" where
  "futex_wake_op uaddr uaddr2 nr_wake nr_wake2 wake_op opflags =
     futex uaddr FUTEX_WAKE_OP (u32_of_int nr_wake) (Count nr_wake2) (Some uaddr2)
       (u32_of_int wake_op) opflags"

definition futex_requeue :: "'a \<Rightarrow> 'a \<Rightarrow> int \<Rightarrow> int \<Rightarrow> u32 \<Rightarrow> 'a futex_call" where
  "futex_requeue uaddr uaddr2 nr_wake nr_requeue opflags =
     futex uaddr FUTEX_REQUEUE (u32_of_int nr_wake) (Count nr_requeue) (Some uaddr2) 0 opflags"

definition futex_cmp_requeue :: "'a \<Rightarrow> u32 \<Rightarrow> 'a \<Rightarrow> int \<Rightarrow> int \<Rightarrow> u32 \<Rightarrow> 'a futex_call" where
  "futex_cmp_requeue uaddr val uaddr2 nr_wake nr_requeue opflags =
     futex uaddr FUTEX_CMP_REQUEUE (u32_of_int nr_wake) (Count nr_requeue) (Some uaddr2) val
       opflags"

definition futex_wait_requeue_pi ::
    "'a \<Rightarrow> u32 \<Rightarrow> 'a \<Rightarrow> timespec option \<Rightarrow> u32 \<Rightarrow> 'a futex_call" where
  "futex_wait_requeue_pi uaddr val uaddr2 timeout opflags =
     futex uaddr FUTEX_WAIT_REQUEUE_PI val (timespec_arg timeout) (Some uaddr2) 0 opflags"

definition futex_cmp_requeue_pi ::
    "'a \<Rightarrow> u32 \<Rightarrow> 'a \<Rightarrow> int \<Rightarrow> int \<Rightarrow> u32 \<Rightarrow> 'a futex_call" where
  "futex_cmp_requeue_pi uaddr val uaddr2 nr_wake nr_requeue opflags =
     futex uaddr FUTEX_CMP_REQUEUE_PI (u32_of_int nr_wake) (Count nr_requeue) (Some uaddr2) val
       opflags"

section \<open>The calls as futex(2) describes them\<close>

datatype 'a futex_op =
    Wait 'a u32 timeout_arg
  | Wake 'a int
  | Wait_bitset 'a u32 timeout_arg u32
  | Wake_bitset 'a int u32
  | Lock_pi 'a timeout_arg
  | Unlock_pi 'a
  | Wake_op 'a "'a option" int timeout_arg int
  | Requeue 'a "'a option" int timeout_arg
  | Cmp_requeue 'a "'a option" int timeout_arg u32
  | Wait_requeue_pi 'a u32 timeout_arg "'a option"
  | Cmp_requeue_pi 'a "'a option" int timeout_arg u32

text \<open>The command is the op word without the private flag.\<close>

definition futex_cmd :: "u32 \<Rightarrow> u32" where
  "futex_cmd op = op AND NOT FUTEX_PRIVATE_FLAG"

definition decode :: "'a futex_call \<Rightarrow> 'a futex_op option" where
  "decode c =
     (let cmd = futex_cmd (fc_op c); a = fc_uaddr c; b = fc_uaddr2 c; v = fc_val c;
          n = int_of_u32 v; t = fc_timeout c; v3 = fc_val3 c
      in if cmd = FUTEX_WAIT then Some (Wait a v t)
         else if cmd = FUTEX_WAKE then Some (Wake a n)
         else if cmd = FUTEX_WAIT_BITSET then Some (Wait_bitset a v t v3)
         else if cmd = FUTEX_WAKE_BITSET then Some (Wake_bitset a n v3)
         else if cmd = FUTEX_LOCK_PI then Some (Lock_pi a t)
         else if cmd = FUTEX_UNLOCK_PI then Some (Unlock_pi a)
         else if cmd = FUTEX_WAKE_OP then Some (Wake_op a b n t (int_of_u32 v3))
         else if cmd = FUTEX_REQUEUE then Some (Requeue a b n t)
         else if cmd = FUTEX_CMP_REQUEUE then Some (Cmp_requeue a b n t v3)
         else if cmd = FUTEX_WAIT_REQUEUE_PI then Some (Wait_requeue_pi a v t b)
         else if cmd = FUTEX_CMP_REQUEUE_PI then Some (Cmp_requeue_pi a b n t v3)
         else None)"

text \<open>The flags the suite passes: none, or \<^verbatim>\<open>FUTEX_PRIVATE_FLAG\<close>.\<close>

definition opflags_ok :: "u32 \<Rightarrow> bool" where
  "opflags_ok f \<longleftrightarrow> f = 0 \<or> f = FUTEX_PRIVATE_FLAG"

lemmas wrapper_defs = futex_wait_def futex_wake_def futex_wait_bitset_def futex_wake_bitset_def
  futex_lock_pi_def futex_unlock_pi_def futex_wake_op_def futex_requeue_def
  futex_cmp_requeue_def futex_wait_requeue_pi_def futex_cmp_requeue_pi_def

lemmas decode_defs = decode_def futex_def futex_cmd_def opcode_defs Let_def

section \<open>Wrappers and their meaning\<close>

text \<open>The op word of every wrapper decodes to its own command, with or without the flag.\<close>

lemma opflags_cases: "opflags_ok f \<Longrightarrow> (f = 0 \<Longrightarrow> P) \<Longrightarrow> (f = 128 \<Longrightarrow> P) \<Longrightarrow> P"
  by (auto simp: opflags_ok_def FUTEX_PRIVATE_FLAG_def)

lemma decode_futex_wait [simp]:
  "opflags_ok f \<Longrightarrow> decode (futex_wait a v t f) = Some (Wait a v (timespec_arg t))"
  by (erule opflags_cases) (simp_all add: futex_wait_def decode_defs)

lemma decode_futex_wake [simp]:
  "opflags_ok f \<Longrightarrow> decode (futex_wake a n f) = Some (Wake a (s32 n))"
  by (erule opflags_cases) (simp_all add: futex_wake_def decode_defs sint_u32_of_int)

lemma decode_futex_pi [simp]:
  assumes "opflags_ok f"
  shows "decode (futex_lock_pi a t d f) = Some (Lock_pi a (timespec_arg t))"
    and "decode (futex_unlock_pi a f) = Some (Unlock_pi a)"
    and "decode (futex_wait_requeue_pi a v b t f) = Some (Wait_requeue_pi a v (timespec_arg t) (Some b))"
    and "decode (futex_cmp_requeue_pi a v b n r f) = Some (Cmp_requeue_pi a (Some b) (s32 n) (Count r) v)"
  by (rule opflags_cases [OF assms]; simp add: wrapper_defs decode_defs sint_u32_of_int)+

lemma opflags_private [simp]: "opflags_ok FUTEX_PRIVATE_FLAG"
  and opflags_none [simp]: "opflags_ok 0"
  by (simp_all add: opflags_ok_def)

lemma s32_small [simp]: "s32 1 = 1" "s32 0 = 0" "s32 INT_MAX = INT_MAX"
  by (simp_all add: s32_id INT_MIN_def INT_MAX_def)

text \<open>C33: every wrapper says what it means.  With or without \<^verbatim>\<open>FUTEX_PRIVATE_FLAG\<close>, the call a wrapper
  lays out is read back, by the argument conventions of futex(2), as the operation the wrapper is
  named after with the arguments the caller gave; counts go through 32 bits.\<close>

theorem wrappers_decode:
  assumes "opflags_ok f"
  shows "decode (futex_wait a v t f) = Some (Wait a v (timespec_arg t)) \<and>
    decode (futex_wake a n f) = Some (Wake a (s32 n)) \<and>
    decode (futex_wait_bitset a v t bs f) = Some (Wait_bitset a v (timespec_arg t) bs) \<and>
    decode (futex_wake_bitset a n bs f) = Some (Wake_bitset a (s32 n) bs) \<and>
    decode (futex_lock_pi a t d f) = Some (Lock_pi a (timespec_arg t)) \<and>
    decode (futex_unlock_pi a f) = Some (Unlock_pi a) \<and>
    decode (futex_wake_op a b n n2 w f) = Some (Wake_op a (Some b) (s32 n) (Count n2) (s32 w)) \<and>
    decode (futex_requeue a b n r f) = Some (Requeue a (Some b) (s32 n) (Count r)) \<and>
    decode (futex_cmp_requeue a v b n r f) = Some (Cmp_requeue a (Some b) (s32 n) (Count r) v) \<and>
    decode (futex_wait_requeue_pi a v b t f) = Some (Wait_requeue_pi a v (timespec_arg t) (Some b)) \<and>
    decode (futex_cmp_requeue_pi a v b n r f) = Some (Cmp_requeue_pi a (Some b) (s32 n) (Count r) v)"
  by (intro conjI; rule opflags_cases [OF assms]; simp add: wrapper_defs decode_defs sint_u32_of_int)

theorem wrappers_decode_witness:
  "decode (futex_cmp_requeue_pi (0 :: nat) 5 1 1 INT_MAX FUTEX_PRIVATE_FLAG) =
     Some (Cmp_requeue_pi 0 (Some 1) 1 (Count INT_MAX) 5)"
  using wrappers_decode [OF opflags_private, where a = "0 :: nat" and v = 5 and b = 1 and n = 1 and r = INT_MAX] by simp

end
