(* ===== verification/Machine.thy ===== *)
theory Machine
  imports Futextest
begin

text \<open>
  How the threads of a program run: one shared memory, one program counter per thread,
  and a kernel.

  A thread function of the sources is a \<open>program\<close>: \<open>fetch\<close> gives the shared-memory access
  or library call a control point performs, \<open>cont\<close> the next control point from the value
  it returned.  Everything between two such calls is local to the thread, so interleaving
  whole instructions loses no behaviour; accesses are sequentially consistent (the sources
  use volatile words and gcc's full-barrier builtins).

  \<open>Exit\<close> ends a thread and \<open>Halt\<close> the process (\<^verbatim>\<open>exit\<close>, or the return of \<^verbatim>\<open>main\<close>).

  The kernel and libpthread are not part of the sources.  They are the parameter \<open>K\<close>, a
  record of functions over a state of its own: \<open>kcall\<close> performs a futex call (\<open>None\<close>: the
  caller blocks), \<open>kresume\<close> says whether a blocked call returns now, \<open>kcreate\<close> gives the
  result of \<^verbatim>\<open>pthread_create\<close>, \<open>ksignal\<close> notes a signal sent by \<^verbatim>\<open>pthread_kill\<close> (what it does to a
  blocked call shows when that call resumes), \<open>ktick\<close> lets time pass, and \<open>kwaiting\<close> tells on which futex a
  thread is queued.  \<open>futex_contract\<close> collects what futex(2) documents of \<^verbatim>\<open>FUTEX_WAIT\<close> and
  \<^verbatim>\<open>FUTEX_WAKE\<close>; the theorems name it as a hypothesis.

  \<open>astep\<close> is the same machine with the kernel replaced by the documented behaviour: a
  queue map and nondeterministic results.  The interpretation \<open>machine_sim\<close> proves that a
  machine whose kernel keeps the contract is simulated by it, so invariants are proved
  once, on \<open>astep\<close>, for every such kernel.
\<close>

section \<open>Programs\<close>

datatype ('a, 'l) instr =
    Load 'a
  | Store 'a u32
  | Cmpxchg 'a u32 u32
  | Dec 'a
  | Inc 'a
  | Nop
  | Syscall "'a futex_call"
  | Create tid 'l
  | Join tid
  | Kill tid
  | Exit
  | Halt

datatype resp = Val u32 | Ret int int

text \<open>The value an access gave, and the result of a call.\<close>

primrec resp_val :: "resp \<Rightarrow> u32" where
  "resp_val (Val v) = v"
| "resp_val (Ret r e) = u32_of_int r"

primrec resp_ret :: "resp \<Rightarrow> int" where
  "resp_ret (Val v) = int_of_u32 v"
| "resp_ret (Ret r e) = r"

text \<open>\<^verbatim>\<open>errno\<close> as the caller finds it after the call.\<close>

primrec resp_errno :: "resp \<Rightarrow> int" where
  "resp_errno (Val v) = 0"
| "resp_errno (Ret r e) = e"

record ('a, 'l) program =
  fetch :: "'l \<Rightarrow> ('a, 'l) instr"
  cont :: "'l \<Rightarrow> resp \<Rightarrow> 'l"

datatype 'l tstatus = Unborn | Running 'l | Blocked 'l | Exited

text \<open>The instructions that only touch memory.\<close>

fun exec_mem :: "('a, 'l) instr \<Rightarrow> 'a memory \<Rightarrow> (resp \<times> 'a memory) option" where
  "exec_mem (Load a) m = Some (Val (m a), m)"
| "exec_mem (Store a v) m = Some (Val v, m(a := v))"
| "exec_mem (Cmpxchg a old new) m = Some (map_prod Val id (futex_cmpxchg m a old new))"
| "exec_mem (Dec a) m = Some (map_prod Val id (futex_dec m a))"
| "exec_mem (Inc a) m = Some (map_prod Val id (futex_inc m a))"
| "exec_mem Nop m = Some (Val 0, m)"
| "exec_mem _ m = None"

section \<open>The machine over a kernel\<close>

record ('a, 'k) kernel =
  kcall :: "tid \<Rightarrow> 'a futex_call \<Rightarrow> 'a memory \<Rightarrow> 'k \<Rightarrow> (int \<times> int) option \<times> 'a memory \<times> 'k"
  kresume :: "tid \<Rightarrow> 'a futex_call \<Rightarrow> 'a memory \<Rightarrow> 'k \<Rightarrow> ((int \<times> int) \<times> 'a memory \<times> 'k) option"
  kcreate :: "tid \<Rightarrow> 'k \<Rightarrow> int \<times> 'k"
  ksignal :: "tid \<Rightarrow> 'k \<Rightarrow> 'k"
  ktick :: "'k \<Rightarrow> 'k"
  kwaiting :: "'k \<Rightarrow> tid \<Rightarrow> 'a option"

record ('a, 'l, 'k) mstate =
  mem :: "'a memory"
  thr :: "tid \<Rightarrow> 'l tstatus"
  ks :: 'k

definition goto :: "tid \<Rightarrow> 'l tstatus \<Rightarrow> 'a memory \<Rightarrow> 'k \<Rightarrow> ('a, 'l, 'k) mstate \<Rightarrow> ('a, 'l, 'k) mstate"
  where "goto t st m k s = s\<lparr>mem := m, thr := (thr s)(t := st), ks := k\<rparr>"

text \<open>One step of thread \<open>t\<close>, if it can make one.\<close>

definition tstep ::
    "('a, 'k) kernel \<Rightarrow> ('a, 'l) program \<Rightarrow> tid \<Rightarrow> ('a, 'l, 'k) mstate \<Rightarrow> ('a, 'l, 'k) mstate option"
  where
  "tstep K P t s =
     (case thr s t of
        Running l \<Rightarrow>
          (case fetch P l of
             Syscall c \<Rightarrow>
               (case kcall K t c (mem s) (ks s) of
                  (Some (r, e), m, k) \<Rightarrow> Some (goto t (Running (cont P l (Ret r e))) m k s)
                | (None, m, k) \<Rightarrow> Some (goto t (Blocked l) m k s))
           | Create j l0 \<Rightarrow>
               (if thr s j = Unborn
                then (case kcreate K j (ks s) of
                        (r, k) \<Rightarrow>
                          Some (goto t (Running (cont P l (Ret r 0))) (mem s) k
                            (if r = 0 then goto j (Running l0) (mem s) k s else s)))
                else None)
           | Join j \<Rightarrow>
               (if thr s j = Exited
                then Some (goto t (Running (cont P l (Ret 0 0))) (mem s) (ks s) s) else None)
           | Kill j \<Rightarrow> Some (goto t (Running (cont P l (Ret 0 0))) (mem s) (ksignal K j (ks s)) s)
           | Exit \<Rightarrow> Some (goto t Exited (mem s) (ks s) s)
           | Halt \<Rightarrow> Some (s\<lparr>thr := (\<lambda>_. Exited)\<rparr>)
           | i \<Rightarrow> (case exec_mem i (mem s) of
                    Some (r, m) \<Rightarrow> Some (goto t (Running (cont P l r)) m (ks s) s)
                  | None \<Rightarrow> None))
      | Blocked l \<Rightarrow>
          (case fetch P l of
             Syscall c \<Rightarrow>
               (case kresume K t c (mem s) (ks s) of
                  Some ((r, e), m, k) \<Rightarrow> Some (goto t (Running (cont P l (Ret r e))) m k s)
                | None \<Rightarrow> None)
           | _ \<Rightarrow> None)
      | _ \<Rightarrow> None)"

inductive mstep ::
    "('a, 'k) kernel \<Rightarrow> ('a, 'l) program \<Rightarrow> ('a, 'l, 'k) mstate \<Rightarrow> ('a, 'l, 'k) mstate \<Rightarrow> bool"
  for K P where
  mstep_thread: "tstep K P t s = Some s' \<Longrightarrow> mstep K P s s'"
| mstep_tick: "mstep K P s (s\<lparr>ks := ktick K (ks s)\<rparr>)"

text \<open>A schedule: which thread moves, step by step.\<close>

fun run_schedule ::
    "('a, 'k) kernel \<Rightarrow> ('a, 'l) program \<Rightarrow> tid list \<Rightarrow> ('a, 'l, 'k) mstate \<Rightarrow>
     ('a, 'l, 'k) mstate option" where
  "run_schedule K P [] s = Some s"
| "run_schedule K P (t # ts) s =
     (case tstep K P t s of None \<Rightarrow> None | Some s' \<Rightarrow> run_schedule K P ts s')"

section \<open>What futex(2) promises of FUTEX_WAIT and FUTEX_WAKE\<close>

text \<open>
  \<^verbatim>\<open>FUTEX_WAIT\<close> compares atomically: on a mismatch it fails with \<^verbatim>\<open>EAGAIN\<close>, otherwise it
  queues the caller (or returns early, for instance on a signal).  An improper timeout is refused
  first.
\<close>

definition wait_contract :: "('a, 'k) kernel \<Rightarrow> bool" where
  "wait_contract K \<longleftrightarrow>
     (\<forall>t c m k a v tmo. decode c = Some (Wait a v tmo) \<longrightarrow>
       (case kcall K t c m k of (r, m', k') \<Rightarrow>
          m' = m \<and>
          (if m a \<noteq> v
           then (if timeout_valid tmo then r = Some (- 1, EWOULDBLOCK) else r \<noteq> None) \<and>
                kwaiting K k' = kwaiting K k
           else (r = None \<and> kwaiting K k' = (kwaiting K k)(t \<mapsto> a)) \<or>
                (r \<noteq> None \<and> kwaiting K k' = kwaiting K k))))"

text \<open>\<^verbatim>\<open>FUTEX_WAKE\<close> wakes at most \<open>n\<close> of the waiters, and returns how many it woke.\<close>

definition wake_contract :: "('a, 'k) kernel \<Rightarrow> bool" where
  "wake_contract K \<longleftrightarrow>
     (\<forall>t c m k a n. decode c = Some (Wake a n) \<longrightarrow> 0 < n \<longrightarrow>
       (\<exists>W k'. kcall K t c m k = (Some (int (card W), 0), m, k') \<and>
          finite W \<and> W \<subseteq> {u. kwaiting K k u = Some a} \<and>
          int (card W) \<le> n \<and> (W = {u. kwaiting K k u = Some a} \<or> int (card W) = n) \<and>
          kwaiting K k' = (\<lambda>u. if u \<in> W then None else kwaiting K k u)))"

text \<open>A blocked waiter returns once it is off the queue; it may also return earlier, by a
  signal, a timeout or spuriously, and is off the queue then.\<close>

definition resume_contract :: "('a, 'k) kernel \<Rightarrow> bool" where
  "resume_contract K \<longleftrightarrow>
     (\<forall>t c m k a v tmo. decode c = Some (Wait a v tmo) \<longrightarrow>
       (case kresume K t c m k of
          None \<Rightarrow> kwaiting K k t \<noteq> None
        | Some (_, m', k') \<Rightarrow> m' = m \<and> kwaiting K k' = (kwaiting K k)(t := None)))"

text \<open>Thread creation and the passing of time queue nobody.\<close>

definition idle_contract :: "('a, 'k) kernel \<Rightarrow> bool" where
  "idle_contract K \<longleftrightarrow>
     (\<forall>j k. kwaiting K (snd (kcreate K j k)) = kwaiting K k) \<and>
     (\<forall>k. kwaiting K (ktick K k) \<subseteq>\<^sub>m kwaiting K k)"

definition futex_contract :: "('a, 'k) kernel \<Rightarrow> bool" where
  "futex_contract K \<longleftrightarrow>
     wait_contract K \<and> wake_contract K \<and> resume_contract K \<and> idle_contract K"

text \<open>Programs that make no other futex call, send no signal and do not end the process.\<close>

definition wait_wake_only :: "('a, 'l) program \<Rightarrow> bool" where
  "wait_wake_only P \<longleftrightarrow>
     (\<forall>l c. fetch P l = Syscall c \<longrightarrow>
        (\<exists>a v tmo. decode c = Some (Wait a v tmo)) \<or> (\<exists>a n. decode c = Some (Wake a n) \<and> 0 < n)) \<and>
     (\<forall>l. fetch P l \<noteq> Halt) \<and> (\<forall>l j. fetch P l \<noteq> Kill j)"

section \<open>The machine over the documented behaviour\<close>

record ('a, 'l) astate =
  amem :: "'a memory"
  athr :: "tid \<Rightarrow> 'l tstatus"
  aq :: "tid \<Rightarrow> 'a option"

definition agoto :: "tid \<Rightarrow> 'l tstatus \<Rightarrow> ('a, 'l) astate \<Rightarrow> ('a, 'l) astate" where
  "agoto t st s = s\<lparr>athr := (athr s)(t := st)\<rparr>"

inductive astep :: "('a, 'l) program \<Rightarrow> ('a, 'l) astate \<Rightarrow> ('a, 'l) astate \<Rightarrow> bool"
  for P where
  a_mem: "athr s t = Running l \<Longrightarrow> exec_mem (fetch P l) (amem s) = Some (r, m) \<Longrightarrow>
    astep P s (agoto t (Running (cont P l r)) (s\<lparr>amem := m\<rparr>))"
| a_wait_return: "athr s t = Running l \<Longrightarrow> fetch P l = Syscall c \<Longrightarrow>
    decode c = Some (Wait a v tmo) \<Longrightarrow>
    astep P s (agoto t (Running (cont P l (Ret r e))) s)"
| a_wait_block: "athr s t = Running l \<Longrightarrow> fetch P l = Syscall c \<Longrightarrow>
    decode c = Some (Wait a v tmo) \<Longrightarrow> amem s a = v \<Longrightarrow>
    astep P s (agoto t (Blocked l) (s\<lparr>aq := (aq s)(t \<mapsto> a)\<rparr>))"
| a_wake: "athr s t = Running l \<Longrightarrow> fetch P l = Syscall c \<Longrightarrow>
    decode c = Some (Wake a n) \<Longrightarrow> finite W \<Longrightarrow> W \<subseteq> {u. aq s u = Some a} \<Longrightarrow>
    int (card W) \<le> n \<Longrightarrow> W = {u. aq s u = Some a} \<or> int (card W) = n \<Longrightarrow>
    astep P s (agoto t (Running (cont P l (Ret (int (card W)) 0)))
      (s\<lparr>aq := (\<lambda>u. if u \<in> W then None else aq s u)\<rparr>))"
| a_resume: "athr s t = Blocked l \<Longrightarrow> fetch P l = Syscall c \<Longrightarrow>
    decode c = Some (Wait a v tmo) \<Longrightarrow>
    astep P s (agoto t (Running (cont P l (Ret r e))) (s\<lparr>aq := (aq s)(t := None)\<rparr>))"
| a_create: "athr s t = Running l \<Longrightarrow> fetch P l = Create j l0 \<Longrightarrow> athr s j = Unborn \<Longrightarrow>
    astep P s (agoto t (Running (cont P l (Ret 0 0))) (agoto j (Running l0) s))"
| a_create_fail: "athr s t = Running l \<Longrightarrow> fetch P l = Create j l0 \<Longrightarrow> athr s j = Unborn \<Longrightarrow>
    r \<noteq> 0 \<Longrightarrow>
    astep P s (agoto t (Running (cont P l (Ret r 0))) s)"
| a_join: "athr s t = Running l \<Longrightarrow> fetch P l = Join j \<Longrightarrow> athr s j = Exited \<Longrightarrow>
    astep P s (agoto t (Running (cont P l (Ret 0 0))) s)"
| a_exit: "athr s t = Running l \<Longrightarrow> fetch P l = Exit \<Longrightarrow>
    astep P s (agoto t Exited s)"
| a_tick: "q \<subseteq>\<^sub>m aq s \<Longrightarrow> astep P s (s\<lparr>aq := q\<rparr>)"

definition abs_state :: "('a, 'k) kernel \<Rightarrow> ('a, 'l, 'k) mstate \<Rightarrow> ('a, 'l) astate" where
  "abs_state K s = \<lparr>amem = mem s, athr = thr s, aq = kwaiting K (ks s)\<rparr>"

text \<open>A run starts with one thread, the main thread, numbered 0.\<close>

definition start_threads :: "'l \<Rightarrow> tid \<Rightarrow> 'l tstatus" where
  "start_threads l0 = (\<lambda>_. Unborn)(0 := Running l0)"

definition minit :: "('a, 'k) kernel \<Rightarrow> ('a, 'l) program \<Rightarrow> 'l \<Rightarrow> ('a, 'l, 'k) mstate \<Rightarrow> bool" where
  "minit K P l0 s \<longleftrightarrow> futex_contract K \<and> wait_wake_only P \<and>
     thr s = start_threads l0 \<and> kwaiting K (ks s) = (\<lambda>_. None)"

definition ainit :: "'l \<Rightarrow> ('a, 'l) astate \<Rightarrow> bool" where
  "ainit l0 s \<longleftrightarrow> athr s = start_threads l0 \<and> aq s = (\<lambda>_. None)"

text \<open>A thread that cannot move: not started, finished, queued in the kernel, joining a
  thread that still runs, or starting a thread under a number that is taken.\<close>

definition stuck :: "('a, 'l) program \<Rightarrow> ('a, 'l) astate \<Rightarrow> tid \<Rightarrow> bool" where
  "stuck P s t \<longleftrightarrow>
     (case athr s t of
        Running l \<Rightarrow>
          (case fetch P l of
             Join j \<Rightarrow> athr s j \<noteq> Exited
           | Create j _ \<Rightarrow> athr s j \<noteq> Unborn
           | _ \<Rightarrow> False)
      | Blocked _ \<Rightarrow> aq s t \<noteq> None
      | _ \<Rightarrow> True)"

section \<open>Refinement\<close>

lemma agoto_simps [simp]:
  "athr (agoto t st s) = (athr s)(t := st)" "amem (agoto t st s) = amem s" "aq (agoto t st s) = aq s"
  by (simp_all add: agoto_def)

lemma abs_state_simps [simp]:
  "athr (abs_state K s) = thr s" "amem (abs_state K s) = mem s" "aq (abs_state K s) = kwaiting K (ks s)"
  by (simp_all add: abs_state_def)

lemma abs_goto: "abs_state K (goto t st m k s) =
    agoto t st ((abs_state K s)\<lparr>amem := m, aq := kwaiting K k\<rparr>)"
  by (simp add: abs_state_def goto_def agoto_def)

lemma wait_contractD:
  assumes "wait_contract K" "decode c = Some (Wait a v tmo)" "kcall K t c m k = (r, m', k')"
  shows "m' = m \<and> (r = None \<and> m a = v \<and> kwaiting K k' = (kwaiting K k)(t \<mapsto> a) \<or>
    (\<exists>n e. r = Some (n, e)) \<and> kwaiting K k' = kwaiting K k)"
  using assms(1) [unfolded wait_contract_def, rule_format, OF assms(2), where t = t and m = m and k = k] assms(3)
  by (cases r) (auto split: if_splits)

lemma wake_contractD:
  assumes "wake_contract K" "decode c = Some (Wake a n)" "0 < n" "kcall K t c m k = (r, m', k')"
  shows "m' = m \<and> (\<exists>W. r = Some (int (card W), 0) \<and> finite W \<and>
    W \<subseteq> {u. kwaiting K k u = Some a} \<and> int (card W) \<le> n \<and>
    (W = {u. kwaiting K k u = Some a} \<or> int (card W) = n) \<and>
    kwaiting K k' = (\<lambda>u. if u \<in> W then None else kwaiting K k u))"
proof -
  obtain W k'' where "kcall K t c m k = (Some (int (card W), 0), m, k'')"
    and "finite W \<and> W \<subseteq> {u. kwaiting K k u = Some a} \<and> int (card W) \<le> n \<and>
      (W = {u. kwaiting K k u = Some a} \<or> int (card W) = n) \<and>
      kwaiting K k'' = (\<lambda>u. if u \<in> W then None else kwaiting K k u)"
    using assms(1) [unfolded wake_contract_def, rule_format, OF assms(2,3), where t = t and m = m and k = k] by blast
  with assms(4) show ?thesis by auto
qed

lemma resume_contractD:
  assumes "resume_contract K" "decode c = Some (Wait a v tmo)"
  shows "kresume K t c m k = Some (r, m', k') \<Longrightarrow>
      m' = m \<and> kwaiting K k' = (kwaiting K k)(t := None)"
    and "kwaiting K k t = None \<Longrightarrow> kresume K t c m k \<noteq> None"
  using assms(1) [unfolded resume_contract_def, rule_format, OF assms(2), where t = t and m = m and k = k]
  by (auto split: option.splits)

lemma tick_contractD: "idle_contract K \<Longrightarrow> kwaiting K (ktick K k) \<subseteq>\<^sub>m kwaiting K k"
  and create_contractD: "idle_contract K \<Longrightarrow> kcreate K j k = (r, k') \<Longrightarrow> kwaiting K k' = kwaiting K k"
  by (simp add: idle_contract_def) (metis idle_contract_def snd_conv)

text \<open>A step of a thread is a step of the documented machine.\<close>

lemma abs_state_same [simp]:
  "(abs_state K s)\<lparr>amem := mem s, aq := q\<rparr> = (abs_state K s)\<lparr>aq := q\<rparr>"
  "(abs_state K s)\<lparr>amem := m, aq := kwaiting K (ks s)\<rparr> = (abs_state K s)\<lparr>amem := m\<rparr>"
  "(abs_state K s)\<lparr>amem := mem s\<rparr> = abs_state K s"
  "(abs_state K s)\<lparr>aq := kwaiting K (ks s)\<rparr> = abs_state K s"
  "(agoto j st (abs_state K s))\<lparr>amem := mem s, aq := kwaiting K (ks s)\<rparr> = agoto j st (abs_state K s)"
  by (simp_all add: abs_state_def agoto_def)

lemma tstep_astep_syscall:
  assumes K: "futex_contract K" and P: "wait_wake_only P"
    and l: "thr s t = Running l" "fetch P l = Syscall c"
    and call: "kcall K t c (mem s) (ks s) = (r, m, k)"
  shows "astep P (abs_state K s)
    (agoto t (case r of None \<Rightarrow> Blocked l | Some (n, e) \<Rightarrow> Running (cont P l (Ret n e)))
      ((abs_state K s)\<lparr>amem := m, aq := kwaiting K k\<rparr>))"
proof -
  from P l(2) consider (wait) a v tmo where "decode c = Some (Wait a v tmo)"
    | (wake) a n where "decode c = Some (Wake a n)" "0 < n"
    unfolding wait_wake_only_def by blast
  then show ?thesis
  proof cases
    case wait
    from K have "wait_contract K" by (simp add: futex_contract_def)
    from wait_contractD [OF this wait call] l wait show ?thesis
      using a_wait_return [of "abs_state K s" t l P c a v tmo]
        a_wait_block [of "abs_state K s" t l P c a v tmo]
      by auto
  next
    case wake
    from K have "wake_contract K" by (simp add: futex_contract_def)
    from wake_contractD [OF this wake call] obtain W where
      "m = mem s" "r = Some (int (card W), 0)" "finite W"
      "W \<subseteq> {u. aq (abs_state K s) u = Some a}" "int (card W) \<le> n"
      "W = {u. aq (abs_state K s) u = Some a} \<or> int (card W) = n"
      "kwaiting K k = (\<lambda>u. if u \<in> W then None else aq (abs_state K s) u)"
      unfolding abs_state_simps by blast
    with l wake show ?thesis
      using a_wake [of "abs_state K s" t l P c a n W] by simp
  qed
qed

lemma tstep_astep_blocked:
  assumes K: "futex_contract K" and P: "wait_wake_only P"
    and l: "thr s t = Blocked l" and c: "fetch P l = Syscall c" "decode c = Some (Wait a v tmo)"
    and res: "kresume K t c (mem s) (ks s) = Some ((n, e), m, k)"
  shows "astep P (abs_state K s)
    (agoto t (Running (cont P l (Ret n e))) ((abs_state K s)\<lparr>amem := m, aq := kwaiting K k\<rparr>))"
proof -
  from K have "resume_contract K" by (simp add: futex_contract_def)
  from resume_contractD(1) [OF this c(2) res] l c show ?thesis
    using a_resume [of "abs_state K s" t l P c a v tmo n e] by simp
qed

text \<open>Only waiters block, and a queued thread is blocked in a wait on that futex.\<close>

definition waits_at :: "('a, 'l) program \<Rightarrow> 'l \<Rightarrow> 'a \<Rightarrow> bool" where
  "waits_at P l a \<longleftrightarrow> (\<exists>c v tmo. fetch P l = Syscall c \<and> decode c = Some (Wait a v tmo))"

definition queued_ok :: "('a, 'l) program \<Rightarrow> 'l tstatus \<Rightarrow> 'a option \<Rightarrow> bool" where
  "queued_ok P st q \<longleftrightarrow>
     (case st of
        Blocked l \<Rightarrow> (\<exists>a. waits_at P l a) \<and> (\<forall>a. q = Some a \<longrightarrow> waits_at P l a)
      | _ \<Rightarrow> q = None)"

definition queue_inv :: "('a, 'l) program \<Rightarrow> ('a, 'l) astate \<Rightarrow> bool" where
  "queue_inv P s \<longleftrightarrow> (\<forall>t. queued_ok P (athr s t) (aq s t))"

lemma queued_ok_simps [simp]:
  "queued_ok P (Running l) q = (q = None)" "queued_ok P Unborn q = (q = None)"
  "queued_ok P Exited q = (q = None)"
  by (simp_all add: queued_ok_def)

lemma queued_ok_None: "queued_ok P st q \<Longrightarrow> queued_ok P st None"
  by (auto simp: queued_ok_def split: tstatus.splits)

lemma queue_invD: "queue_inv P s \<Longrightarrow> queued_ok P (athr s t) (aq s t)"
  by (simp add: queue_inv_def)

lemma queue_inv_agoto:
  assumes "queue_inv P s" and "queued_ok P st (q t)" and "\<And>u. u \<noteq> t \<Longrightarrow> q u = aq s u \<or> q u = None"
  shows "queue_inv P (agoto t st (s\<lparr>aq := q\<rparr>))"
  unfolding queue_inv_def
proof
  fix u
  show "queued_ok P (athr (agoto t st (s\<lparr>aq := q\<rparr>)) u) (aq (agoto t st (s\<lparr>aq := q\<rparr>)) u)"
    using assms(2) assms(3) [of u] queue_invD [OF assms(1), of u]
    by (cases "u = t") (auto intro: queued_ok_None)
qed

lemma queue_inv_running:
  "queue_inv P s \<Longrightarrow> athr s t = Running l \<Longrightarrow> aq s t = None"
  using queue_invD [of P s t] by simp

lemma queue_inv_kept: "astep P s s' \<Longrightarrow> queue_inv P s \<Longrightarrow> queue_inv P s'"
proof (induction rule: astep.induct)
  case (a_tick q s)
  have "q t = None \<or> q t = aq s t" for t
    using a_tick.hyps by (auto simp: map_le_def dom_def)
  then show ?case
    using a_tick.prems by (simp add: queue_inv_def) (metis queued_ok_None)
next
  case (a_wait_block s t l c a v tmo)
  then show ?case
    by (intro queue_inv_agoto) (auto simp: queued_ok_def waits_at_def)
next
  case (a_wake s t l c a n W)
  then show ?case
    using queue_invD [of P s t] by (intro queue_inv_agoto) auto
next
  case (a_resume s t l c a v tmo r e)
  then show ?case by (intro queue_inv_agoto) auto
next
  case (a_create s t l j l0)
  then show ?case
    using queue_invD [of P s t] queue_invD [of P s j] by (simp add: queue_inv_def)
qed (frule (1) queue_inv_running, simp add: queue_inv_def)+

lemma queue_inv_blocked:
  "queue_inv P s \<Longrightarrow> athr s t = Blocked l \<Longrightarrow>
     \<exists>c a v tmo. fetch P l = Syscall c \<and> decode c = Some (Wait a v tmo)"
  using queue_invD [of P s t] unfolding queued_ok_def waits_at_def by auto

lemma queue_inv_queued:
  "queue_inv P s \<Longrightarrow> aq s t = Some a \<Longrightarrow> \<exists>l. athr s t = Blocked l \<and> waits_at P l a"
  using queue_invD [of P s t] by (cases "athr s t") (auto simp: queued_ok_def)

interpretation queue: inductive_invariant "ainit l0" "astep P" "queue_inv P" for l0 P
  by unfold_locales
    (simp add: ainit_def queue_inv_def start_threads_def, rule queue_inv_kept)

lemma mstep_contract: "reach (minit K P l0) (mstep K P) s \<Longrightarrow> futex_contract K \<and> wait_wake_only P"
  by (induction rule: reach.induct) (auto simp: minit_def)

lemma tstep_astep:
  assumes K: "futex_contract K" "wait_wake_only P" and q: "queue_inv P (abs_state K s)"
    and step: "tstep K P t s = Some s'"
  shows "astep P (abs_state K s) (abs_state K s')"
proof (cases "thr s t")
  case (Blocked l)
  with q obtain c a v tmo where c: "fetch P l = Syscall c" "decode c = Some (Wait a v tmo)"
    using queue_inv_blocked [of P "abs_state K s" t l] by auto
  with Blocked step obtain n e m k where "kresume K t c (mem s) (ks s) = Some ((n, e), m, k)"
    and "s' = goto t (Running (cont P l (Ret n e))) m k s"
    by (auto simp: tstep_def split: option.splits)
  then show ?thesis
    using tstep_astep_blocked [OF K Blocked c] by (simp add: abs_goto)
next
  case (Running l)
  show ?thesis
  proof (cases "fetch P l")
    case (Syscall c)
    obtain r m k where call: "kcall K t c (mem s) (ks s) = (r, m, k)" by (metis prod_cases3)
    with Running Syscall step have "s' = goto t (case r of None \<Rightarrow> Blocked l
        | Some (n, e) \<Rightarrow> Running (cont P l (Ret n e))) m k s"
      by (auto simp: tstep_def split: option.splits)
    then show ?thesis
      using tstep_astep_syscall [OF K Running Syscall call] by (simp add: abs_goto)
  next
    case (Create j l0)
    obtain r k where r: "kcreate K j (ks s) = (r, k)" by (metis prod.exhaust)
    with K(1) have q: "kwaiting K k = kwaiting K (ks s)"
      by (auto simp: futex_contract_def dest: create_contractD)
    from Running Create step r q show ?thesis
      using a_create [of "abs_state K s" t l P j l0] a_create_fail [of "abs_state K s" t l P j l0 r]
      by (auto simp: tstep_def abs_goto split: if_splits)
  next
    case (Join j)
    with Running step show ?thesis
      using a_join [of "abs_state K s" t l P j] by (auto simp: tstep_def abs_goto split: if_splits)
  next
    case Exit
    with Running step show ?thesis
      using a_exit [of "abs_state K s" t l P] by (auto simp: tstep_def abs_goto)
  next
    case (Kill j)
    with K(2) show ?thesis by (simp add: wait_wake_only_def)
  next
    case Halt
    with K(2) show ?thesis by (simp add: wait_wake_only_def)
  qed (insert Running step a_mem [of "abs_state K s" t l P],
      auto simp: tstep_def abs_goto futex_atomic_defs sync_defs split: option.splits)
qed (use step in \<open>simp_all add: tstep_def\<close>)

interpretation machine_sim: forward_simulation "minit K P l0" "mstep K P" "ainit l0" "astep P"
  "abs_state K" for K P l0
proof (unfold_locales, goal_cases)
  case (1 s)
  then show ?case by (simp add: minit_def ainit_def)
next
  case (2 s s')
  have K: "futex_contract K" "wait_wake_only P" "queue_inv P (abs_state K s)"
    using mstep_contract [OF 2(1)] queue.reach_inv [OF 2(2)] by auto
  from 2(3) show ?case
  proof cases
    case (mstep_thread t)
    then show ?thesis by (blast intro: tstep_astep K)
  next
    case mstep_tick
    with K(1) show ?thesis
      using a_tick [of "kwaiting K (ks s')" "abs_state K s" P]
      by (auto simp: futex_contract_def abs_state_def tick_contractD)
  qed
qed

text \<open>Conversely a thread that is not stuck can move, whatever the kernel.\<close>

lemma not_stuck_tstep:
  assumes "futex_contract K" and "queue_inv P (abs_state K s)" and "\<not> stuck P (abs_state K s) t"
  shows "\<exists>s'. tstep K P t s = Some s'"
proof (cases "thr s t")
  case (Blocked l)
  with assms obtain c a v tmo where c: "fetch P l = Syscall c" "decode c = Some (Wait a v tmo)"
    and "kwaiting K (ks s) t = None"
    using queue_inv_blocked [of P "abs_state K s" t l] by (auto simp: stuck_def)
  with assms(1) have "kresume K t c (mem s) (ks s) \<noteq> None"
    by (intro resume_contractD(2)) (auto simp: futex_contract_def)
  with Blocked c show ?thesis by (auto simp: tstep_def)
next
  case (Running l)
  show ?thesis
  proof (cases "fetch P l")
    case (Syscall c)
    with Running show ?thesis by (auto simp: tstep_def split: prod.split option.split)
  next
    case (Create j l0)
    with Running assms(3) show ?thesis
      by (auto simp: tstep_def stuck_def split: prod.split)
  qed (use Running assms(3) in \<open>auto simp: tstep_def stuck_def split: prod.split\<close>)
qed (use assms(3) in \<open>simp_all add: stuck_def\<close>)

text \<open>The facts an invariant proof on the documented machine starts from.\<close>

lemma reach_queue_inv: "reach (minit K P l0) (mstep K P) s \<Longrightarrow> queue_inv P (abs_state K s)"
  by (rule queue.reach_inv [OF machine_sim.reach_abs])

end
