(* ===== verification/Logging.thy ===== *)
theory Logging
  imports C_Library
begin

text \<open>
  \<^verbatim>\<open>include/logging.h\<close>: the result strings with and without colour escapes, the verbosity
  setting, \<^verbatim>\<open>log_color\<close>, \<^verbatim>\<open>log_verbosity\<close>, \<^verbatim>\<open>print_result\<close> and the \<^verbatim>\<open>info\<close>, \<^verbatim>\<open>error\<close> and
  \<^verbatim>\<open>fail\<close> macros.  The global variables are the fields of \<open>log_state\<close>; a function that
  prints gives the text it writes, and a macro gives the (possibly empty) list of messages
  it writes to stderr.  \<^verbatim>\<open>strerror\<close> is a parameter.

  The interface \<open>option_switch\<close> states what the \<^verbatim>\<open>switch\<close> statement of every \<^verbatim>\<open>main\<close> of the
  suite has in common; the programs' theories interpret it.  \<open>usage\<close> gives the text of the
  program's help message from its settings.
\<close>

section \<open>Result strings\<close>

abbreviation ESC :: string where
  "ESC \<equiv> [CHR 0x1B, CHR ''['']"

definition BRIGHT_GREEN :: string where
  "BRIGHT_GREEN = ESC @ ''1;32m''"

definition BRIGHT_YELLOW :: string where
  "BRIGHT_YELLOW = ESC @ ''1;33m''"

definition BRIGHT_RED :: string where
  "BRIGHT_RED = ESC @ ''1;31m''"

definition RESET_COLOR :: string where
  "RESET_COLOR = ESC @ ''0m''"

definition PASS_COLOR :: string where
  "PASS_COLOR = BRIGHT_GREEN @ '' PASS'' @ RESET_COLOR"

definition ERROR_COLOR :: string where
  "ERROR_COLOR = BRIGHT_YELLOW @ ''ERROR'' @ RESET_COLOR"

definition FAIL_COLOR :: string where
  "FAIL_COLOR = BRIGHT_RED @ '' FAIL'' @ RESET_COLOR"

definition INFO_NORMAL :: string where
  "INFO_NORMAL = '' INFO''"

definition PASS_NORMAL :: string where
  "PASS_NORMAL = '' PASS''"

definition ERROR_NORMAL :: string where
  "ERROR_NORMAL = ''ERROR''"

definition FAIL_NORMAL :: string where
  "FAIL_NORMAL = '' FAIL''"

section \<open>Settings\<close>

definition VQUIET :: int where "VQUIET = 0"
definition VCRITICAL :: int where "VCRITICAL = 1"
definition VINFO :: int where "VINFO = 2"
definition VMAX :: int where "VMAX = VINFO"

definition RET_PASS :: int where "RET_PASS = 0"
definition RET_ERROR :: int where "RET_ERROR = - 1"
definition RET_FAIL :: int where "RET_FAIL = - 2"

lemmas ret_defs = RET_PASS_def RET_ERROR_def RET_FAIL_def

lemmas verbosity_defs = VQUIET_def VCRITICAL_def VINFO_def VMAX_def

record log_state =
  INFO :: string
  PASS :: string
  ERROR :: string
  FAIL :: string
  verbose :: int

definition log_init :: log_state where
  "log_init = \<lparr>INFO = INFO_NORMAL, PASS = PASS_NORMAL, ERROR = ERROR_NORMAL,
     FAIL = FAIL_NORMAL, verbose = VCRITICAL\<rparr>"

definition log_color :: "int \<Rightarrow> log_state \<Rightarrow> log_state" where
  "log_color use_color st =
     (if use_color \<noteq> 0
      then st\<lparr>PASS := PASS_COLOR, ERROR := ERROR_COLOR, FAIL := FAIL_COLOR\<rparr>
      else st\<lparr>PASS := PASS_NORMAL, ERROR := ERROR_NORMAL, FAIL := FAIL_NORMAL\<rparr>)"

definition log_verbosity :: "int \<Rightarrow> log_state \<Rightarrow> log_state" where
  "log_verbosity level st =
     st\<lparr>verbose := (if level > VMAX then VMAX else if level < 0 then 0 else level)\<rparr>"

section \<open>Output\<close>

definition result_string :: "log_state \<Rightarrow> int \<Rightarrow> string" where
  "result_string st ret =
     (if ret = RET_PASS then PASS st
      else if ret = RET_ERROR then ERROR st
      else if ret = RET_FAIL then FAIL st
      else ''Unknown return code'')"

definition print_result :: "log_state \<Rightarrow> int \<Rightarrow> string" where
  "print_result st ret = ''Result: '' @ result_string st ret @ newline"

definition info_msg :: "log_state \<Rightarrow> string \<Rightarrow> string list" where
  "info_msg st message =
     (if verbose st \<ge> VINFO then [tab @ INFO st @ '': '' @ message] else [])"

definition error_msg :: "(int \<Rightarrow> string) \<Rightarrow> log_state \<Rightarrow> string \<Rightarrow> int \<Rightarrow> string list" where
  "error_msg strerror st message err =
     (if verbose st \<ge> VCRITICAL
      then (if err \<noteq> 0 then [tab @ ERROR st @ '': '' @ strerror err @ '': '' @ message]
            else [tab @ ERROR st @ '': '' @ message])
      else [])"

definition fail_msg :: "log_state \<Rightarrow> string \<Rightarrow> string list" where
  "fail_msg st message =
     (if verbose st \<ge> VCRITICAL then [tab @ FAIL st @ '': '' @ message] else [])"

text \<open>What a terminal shows of a line: the text without its colour escapes
  \<^verbatim>\<open>ESC [ ... m\<close>.\<close>

fun strip_color :: "bool \<Rightarrow> string \<Rightarrow> string" where
  "strip_color inside [] = []"
| "strip_color True (c # cs) = strip_color (c \<noteq> CHR ''m'') cs"
| "strip_color False (c # cs) =
     (if c = CHR 0x1B then strip_color True cs else c # strip_color False cs)"

text \<open>The settings a command line can produce: defaults, then any \<^verbatim>\<open>-c\<close> and \<^verbatim>\<open>-v\<close>.\<close>

inductive log_setting :: "log_state \<Rightarrow> bool" where
  setting_default: "log_setting log_init"
| setting_color: "log_setting st \<Longrightarrow> log_setting (log_color b st)"
| setting_verbosity: "log_setting st \<Longrightarrow> log_setting (log_verbosity l st)"

section \<open>Help messages\<close>

text \<open>The lines the \<^verbatim>\<open>usage\<close> functions of the programs share.\<close>

definition usage_line :: "string \<Rightarrow> string \<Rightarrow> string" where
  "usage_line opt what = opt @ tab @ what @ newline"

definition usage_prog :: "string \<Rightarrow> string" where
  "usage_prog prog = ''Usage: '' @ prog @ newline"

definition usage_color :: string where
  "usage_color = usage_line ''  -c'' ''Use color''"

definition usage_help :: string where
  "usage_help = usage_line ''  -h'' ''Display this help message''"

definition usage_verbosity :: string where
  "usage_verbosity = usage_line ''  -v L'' (''Verbosity level: '' @ show_int VQUIET @ ''=QUIET '' @
     show_int VCRITICAL @ ''=CRITICAL '' @ show_int VINFO @ ''=INFO'')"

section \<open>The switch of the option loops\<close>

text \<open>
  Every \<^verbatim>\<open>main\<close> handles \<^verbatim>\<open>-c\<close>, \<^verbatim>\<open>-h\<close> and \<^verbatim>\<open>-v\<close> the same way and leaves with status 1 on any
  option it does not know.  \<open>lg\<close> reads the logging settings out of a program's options.
\<close>

locale option_switch =
  fixes sw :: "optev \<Rightarrow> 'c \<Rightarrow> leave + 'c" and lg :: "'c \<Rightarrow> log_state" and usage :: "'c \<Rightarrow> string"
  assumes sw_color: "\<exists>cfg'. sw (Opt (CHR ''c'') None) cfg = Inr cfg' \<and> lg cfg' = log_color 1 (lg cfg)"
    and sw_verbosity: "\<exists>cfg'. sw (Opt (CHR ''v'') (Some v)) cfg = Inr cfg' \<and>
      lg cfg' = log_verbosity (atoi v) (lg cfg)"
    and sw_help: "sw (Opt (CHR ''h'') None) cfg = Inl (0, usage cfg)"
    and sw_bad: "sw Bad cfg = Inl (1, usage cfg)"
    and sw_status: "sw e cfg = Inl x \<Longrightarrow> x = (0, usage cfg) \<or> x = (1, usage cfg)"
    and sw_log: "sw e cfg = Inr cfg' \<Longrightarrow>
      lg cfg' = lg cfg \<or> (\<exists>b. lg cfg' = log_color b (lg cfg)) \<or>
      (\<exists>l. lg cfg' = log_verbosity l (lg cfg))"
begin

lemma loop_log_setting:
  "option_loop sw es cfg = Inr cfg' \<Longrightarrow> log_setting (lg cfg) \<Longrightarrow> log_setting (lg cfg')"
proof (induction es arbitrary: cfg)
  case Nil
  then show ?case by simp
next
  case (Cons e es)
  then obtain cfg1 where 1: "sw e cfg = Inr cfg1" and 2: "option_loop sw es cfg1 = Inr cfg'"
    by (auto split: sum.splits)
  have "log_setting (lg cfg1)"
    using sw_log [OF 1] Cons.prems(2)
    by (metis setting_color setting_verbosity)
  with 2 show ?case by (rule Cons.IH)
qed

lemma loop_status: "option_loop sw es cfg = Inl x \<Longrightarrow> fst x \<in> {0, 1} \<and> (\<exists>cfg'. snd x = usage cfg')"
  by (induction es arbitrary: cfg) (auto split: sum.splits dest!: sw_status)

lemma loop_bad: "option_loop sw es cfg = Inr cfg' \<Longrightarrow> Bad \<notin> set es"
proof (induction es arbitrary: cfg)
  case (Cons e es)
  then show ?case by (cases "sw e cfg") (auto simp: sw_bad)
qed simp

lemma loop_help: "option_loop sw es cfg = Inr cfg' \<Longrightarrow> Opt (CHR ''h'') None \<notin> set es"
proof (induction es arbitrary: cfg)
  case (Cons e es)
  then show ?case by (cases "sw e cfg") (auto simp: sw_help)
qed simp

end

text \<open>The switch of the programs whose options are \<^verbatim>\<open>-c\<close>, \<^verbatim>\<open>-h\<close> and \<^verbatim>\<open>-v\<close> only; \<open>helptext\<close> is the text
  of their \<^verbatim>\<open>usage\<close>.\<close>

fun log_switch :: "string \<Rightarrow> optev \<Rightarrow> log_state \<Rightarrow> leave + log_state" where
  "log_switch helptext (Opt c optarg) st =
     (if c = CHR ''c'' then Inr (log_color 1 st)
      else if c = CHR ''h'' then Inl (0, helptext)
      else if c = CHR ''v'' then Inr (log_verbosity (atoi (optarg_text optarg)) st)
      else Inl (1, helptext))"
| "log_switch helptext Bad st = Inl (1, helptext)"

text \<open>The \<^verbatim>\<open>main\<close> functions with these options: the option loop with the help text \<open>usage\<close>, the line naming the test, the body
  \<open>P\<close> of the test, and the line \<^verbatim>\<open>print_result\<close> writes for the value \<^verbatim>\<open>main\<close> then returns.\<close>

definition test_main ::
    "(string \<Rightarrow> string) \<Rightarrow> string \<Rightarrow> 'p \<Rightarrow> string list \<Rightarrow> leave + (string \<times> 'p \<times> (int \<Rightarrow> string))" where
  "test_main usage title P argv =
     (let prog = basename (hd argv)
      in case run_getopt ''chv:'' (log_switch (usage prog)) (tl argv) log_init of
           Inl x \<Rightarrow> Inl x
         | Inr st \<Rightarrow> Inr (prog @ '': '' @ title @ newline, P, print_result st))"

interpretation log_options: option_switch "log_switch helptext" "\<lambda>st. st" "\<lambda>_. helptext" for helptext
proof (unfold_locales, goal_cases)
  case (5 e cfg x)
  then show ?case by (cases "(helptext, e, cfg)" rule: log_switch.cases) (auto split: if_splits)
next
  case (6 e cfg cfg')
  then show ?case by (cases "(helptext, e, cfg)" rule: log_switch.cases) (auto split: if_splits)
qed simp_all

section \<open>Properties\<close>

lemma log_verbosity_range: "log_setting st \<Longrightarrow> VQUIET \<le> verbose st \<and> verbose st \<le> VMAX"
  by (induction rule: log_setting.induct)
    (auto simp: log_init_def log_color_def log_verbosity_def verbosity_defs)

lemma log_setting_strings:
  "log_setting st \<Longrightarrow>
     (PASS st = PASS_NORMAL \<and> ERROR st = ERROR_NORMAL \<and> FAIL st = FAIL_NORMAL) \<or>
     (PASS st = PASS_COLOR \<and> ERROR st = ERROR_COLOR \<and> FAIL st = FAIL_COLOR)"
  by (induction rule: log_setting.induct) (auto simp: log_init_def log_color_def log_verbosity_def)

lemmas color_defs = PASS_COLOR_def ERROR_COLOR_def FAIL_COLOR_def PASS_NORMAL_def
  ERROR_NORMAL_def FAIL_NORMAL_def INFO_NORMAL_def BRIGHT_GREEN_def BRIGHT_YELLOW_def
  BRIGHT_RED_def RESET_COLOR_def

lemmas output_defs = print_result_def result_string_def info_msg_def error_msg_def fail_msg_def

lemma strip_color_plain: "CHR 0x1B \<notin> set xs \<Longrightarrow> strip_color False (xs @ ys) = xs @ strip_color False ys"
  by (induction xs) auto

lemma result_string_strip:
  "log_setting st \<Longrightarrow> strip_color False (result_string st ret @ newline) = result_string log_init ret @ newline"
  using log_setting_strings [of st]
  by (auto simp: result_string_def log_init_def color_defs newline_def ret_defs)

text \<open>A test program with these options exits with 0 or 1 and prints its help, or runs its body and
  says the result in the standard words, coloured or not.\<close>

lemma test_main_cases:
  "(case test_main usage title P argv of
      Inl x \<Rightarrow> x \<in> {(0, usage (basename (hd argv))), (1, usage (basename (hd argv)))}
    | Inr (banner, Q, out) \<Rightarrow>
        banner = basename (hd argv) @ '': '' @ title @ newline \<and> Q = P \<and>
        (\<forall>ret. strip_color False (out ret) = print_result log_init ret) \<and>
        Bad \<notin> set (getopt_events ''chv:'' (tl argv)) \<and>
        Opt (CHR ''h'') None \<notin> set (getopt_events ''chv:'' (tl argv)))"
proof (cases "run_getopt ''chv:'' (log_switch (usage (basename (hd argv)))) (tl argv) log_init")
  case (Inl x)
  with log_options.loop_status [of _ "getopt_events ''chv:'' (tl argv)" log_init x] show ?thesis
    by (cases x) (auto simp: test_main_def run_getopt_def)
next
  case (Inr st)
  then have loop: "option_loop (log_switch (usage (basename (hd argv)))) (getopt_events ''chv:'' (tl argv)) log_init = Inr st"
    by (simp add: run_getopt_def)
  have "strip_color False (print_result st ret) = print_result log_init ret" for ret
    unfolding print_result_def
    by (subst strip_color_plain)
      (simp_all add: result_string_strip [OF log_options.loop_log_setting [OF loop setting_default]])
  with Inr log_options.loop_bad [OF loop] log_options.loop_help [OF loop] show ?thesis
    by (simp add: test_main_def)
qed

text \<open>Colours do not change the text.  With any settings a command line can produce, the result
  line a terminal shows is the one printed without colours.\<close>

theorem result_line_colour:
  assumes "log_setting st"
  shows "strip_color False (print_result st ret) = print_result log_init ret"
  unfolding print_result_def
  by (subst strip_color_plain) (simp_all add: result_string_strip [OF assms])

theorem result_line_colour_witness:
  "strip_color False (print_result (log_color 1 log_init) RET_FAIL) = print_result log_init RET_FAIL"
  by (rule result_line_colour) (intro log_setting.intros)

text \<open>The result line tells the three results apart, and from any other value, with or without
  colours.\<close>

theorem result_line_injective:
  assumes "log_setting st" "print_result st ret = print_result st ret'"
    and "ret \<in> {RET_PASS, RET_ERROR, RET_FAIL}"
  shows "ret = ret'"
proof -
  have "result_string log_init ret = result_string log_init ret'"
    using result_string_strip [OF assms(1), of ret] result_string_strip [OF assms(1), of ret'] assms(2)
    by (simp add: print_result_def)
  with assms(3) show ?thesis
    by (auto simp: result_string_def log_init_def color_defs ret_defs split: if_splits)
qed

theorem result_line_injective_witness:
  "RET_ERROR = (- 1 :: int) \<and> print_result log_init (- 1) = print_result log_init RET_ERROR"
  using result_line_injective [OF setting_default, of RET_ERROR "- 1"] by (simp add: ret_defs)

text \<open>What the verbosity level switches.  After \<^verbatim>\<open>log_verbosity(level)\<close>, with any \<^verbatim>\<open>int\<close>, \<^verbatim>\<open>info\<close>
  prints exactly for levels from 2 on, and \<^verbatim>\<open>error\<close> and \<^verbatim>\<open>fail\<close> exactly for levels from 1 on.\<close>

theorem verbosity_switches:
  "(info_msg (log_verbosity level st) msg \<noteq> [] \<longleftrightarrow> 2 \<le> level) \<and>
   (error_msg strerror (log_verbosity level st) msg err \<noteq> [] \<longleftrightarrow> 1 \<le> level) \<and>
   (fail_msg (log_verbosity level st) msg \<noteq> [] \<longleftrightarrow> 1 \<le> level)"
  by (simp add: output_defs log_verbosity_def verbosity_defs)

end
