(* ===== verification/Harness.thy ===== *)
theory Harness
  imports Machine Logging
begin

text \<open>
  \<^verbatim>\<open>performance/harness.h\<close>: the thread barrier (\<^verbatim>\<open>barrier_init\<close>, \<^verbatim>\<open>barrier_sync\<close>,
  \<^verbatim>\<open>barrier_wait\<close>, \<^verbatim>\<open>barrier_unblock\<close>), the worker \<^verbatim>\<open>locktest_thread\<close> and \<^verbatim>\<open>locktest\<close> itself,
  as programs of the machine.

  A control point is named after the statement it is about to execute; the code between
  two shared accesses is in the \<open>cont\<close> functions.  \<^verbatim>\<open>struct locktest_shared\<close> is the set of
  locations \<open>loc\<close>.  The function pointer \<^verbatim>\<open>locktest_function\<close> is the argument \<open>R\<close>, a routine
  that works on the shared futex only (interface \<open>locktest_routine\<close>).  Thread \<^verbatim>\<open>thread[i]\<close>
  is thread number \<open>i + 1\<close>; \<^verbatim>\<open>times\<close> and the arithmetic of the measurement do not touch
  shared state, and the calls of \<^verbatim>\<open>times\<close> are the control points \<open>Times Before\<close> and
  \<open>Times After\<close>.
\<close>

section \<open>Shared data\<close>

datatype bfield = Threads | Unblock

datatype barrier = Before | After

datatype loc = Bar barrier bfield | Loops | Futex

text \<open>\<^verbatim>\<open>shared->barrier_before\<close> and \<^verbatim>\<open>shared->barrier_after\<close> are \<open>Bar Before\<close> and \<open>Bar After\<close>.\<close>

section \<open>The barrier\<close>

text \<open>Called by main thread to initialize barrier.\<close>

datatype init_pc = Init_threads | Init_unblock

fun barrier_init_fetch :: "(bfield \<Rightarrow> 'a) \<Rightarrow> int \<Rightarrow> init_pc \<Rightarrow> ('a, 'l) instr" where
  "barrier_init_fetch barrier threads Init_threads = Store (barrier Threads) (u32_of_int threads)"
| "barrier_init_fetch barrier threads Init_unblock = Store (barrier Unblock) 0"

fun barrier_init_cont :: "init_pc \<Rightarrow> init_pc option" where
  "barrier_init_cont Init_threads = Some Init_unblock"
| "barrier_init_cont Init_unblock = None"

text \<open>Called by worker threads to synchronize with main thread.\<close>

datatype sync_pc = Sync_dec | Sync_check | Sync_wake | Sync_test | Sync_wait | Sync_ret

fun barrier_sync_fetch :: "(bfield \<Rightarrow> 'a) \<Rightarrow> sync_pc \<Rightarrow> ('a, 'l) instr" where
  "barrier_sync_fetch barrier Sync_dec = Dec (barrier Threads)"
| "barrier_sync_fetch barrier Sync_check = Load (barrier Threads)"
| "barrier_sync_fetch barrier Sync_wake =
     Syscall (futex_wake (barrier Threads) 1 FUTEX_PRIVATE_FLAG)"
| "barrier_sync_fetch barrier Sync_test = Load (barrier Unblock)"
| "barrier_sync_fetch barrier Sync_wait =
     Syscall (futex_wait (barrier Unblock) 0 None FUTEX_PRIVATE_FLAG)"
| "barrier_sync_fetch barrier Sync_ret = Load (barrier Unblock)"

fun barrier_sync_cont :: "sync_pc \<Rightarrow> resp \<Rightarrow> sync_pc + int" where
  "barrier_sync_cont Sync_dec r = Inl Sync_check"
| "barrier_sync_cont Sync_check r = Inl (if resp_val r = 0 then Sync_wake else Sync_test)"
| "barrier_sync_cont Sync_wake r = Inl Sync_test"
| "barrier_sync_cont Sync_test r = Inl (if resp_val r = 0 then Sync_wait else Sync_ret)"
| "barrier_sync_cont Sync_wait r = Inl Sync_test"
| "barrier_sync_cont Sync_ret r = Inr (int_of_u32 (resp_val r))"

text \<open>Called by main thread to wait for all workers to reach sync point.\<close>

datatype bwait_pc = Bwait_test | Bwait_block u32

fun barrier_wait_fetch :: "(bfield \<Rightarrow> 'a) \<Rightarrow> bwait_pc \<Rightarrow> ('a, 'l) instr" where
  "barrier_wait_fetch barrier Bwait_test = Load (barrier Threads)"
| "barrier_wait_fetch barrier (Bwait_block threads) =
     Syscall (futex_wait (barrier Threads) threads None FUTEX_PRIVATE_FLAG)"

fun barrier_wait_cont :: "bwait_pc \<Rightarrow> resp \<Rightarrow> bwait_pc option" where
  "barrier_wait_cont Bwait_test r =
     (if int_of_u32 (resp_val r) > 0 then Some (Bwait_block (resp_val r)) else None)"
| "barrier_wait_cont (Bwait_block threads) r = Some Bwait_test"

text \<open>Called by main thread to unblock worker threads from their sync point.\<close>

datatype unblock_pc = Unblock_store | Unblock_wake

fun barrier_unblock_fetch :: "(bfield \<Rightarrow> 'a) \<Rightarrow> int \<Rightarrow> unblock_pc \<Rightarrow> ('a, 'l) instr" where
  "barrier_unblock_fetch barrier value Unblock_store = Store (barrier Unblock) (u32_of_int value)"
| "barrier_unblock_fetch barrier value Unblock_wake =
     Syscall (futex_wake (barrier Unblock) INT_MAX FUTEX_PRIVATE_FLAG)"

fun barrier_unblock_cont :: "unblock_pc \<Rightarrow> unblock_pc option" where
  "barrier_unblock_cont Unblock_store = Some Unblock_wake"
| "barrier_unblock_cont Unblock_wake = None"

section \<open>Workers and main thread\<close>

datatype 'f worker_pc =
    Sync barrier sync_pc
  | Test_loops
  | Test 'f
  | Thread_return

datatype main_pc =
    Init barrier init_pc
  | Init_loops
  | Init_futex
  | Creating nat
  | Abort_unblock unblock_pc nat
  | Abort_join nat nat
  | Waiting barrier bwait_pc
  | Times barrier
  | Unblocking barrier unblock_pc
  | Joining nat
  | Main_return int

datatype 'f local = Main main_pc | Worker "'f worker_pc"

text \<open>A function \<^verbatim>\<open>void f(futex_t *ptr, int loops)\<close> as \<^verbatim>\<open>locktest\<close> receives it; \<open>None\<close> is its
  return.\<close>

record 'f routine =
  r_start :: "int \<Rightarrow> 'f option"
  r_fetch :: "loc \<Rightarrow> 'f \<Rightarrow> (loc, 'f local) instr"
  r_cont :: "'f \<Rightarrow> resp \<Rightarrow> 'f option"

text \<open>After \<^verbatim>\<open>locktest_function\<close> the worker synchronizes on \<^verbatim>\<open>barrier_after\<close>.\<close>

definition enter_after :: "'f option \<Rightarrow> 'f worker_pc" where
  "enter_after f = (case f of None \<Rightarrow> Sync After Sync_dec | Some f' \<Rightarrow> Test f')"

fun locktest_thread_fetch :: "'f routine \<Rightarrow> 'f worker_pc \<Rightarrow> (loc, 'f local) instr" where
  "locktest_thread_fetch R (Sync b p) = barrier_sync_fetch (Bar b) p"
| "locktest_thread_fetch R Test_loops = Load Loops"
| "locktest_thread_fetch R (Test f) = r_fetch R Futex f"
| "locktest_thread_fetch R Thread_return = Exit"

fun locktest_thread_cont :: "'f routine \<Rightarrow> 'f worker_pc \<Rightarrow> resp \<Rightarrow> 'f worker_pc" where
  "locktest_thread_cont R (Sync b p) r =
     (case barrier_sync_cont p r of
        Inl p' \<Rightarrow> Sync b p'
      | Inr v \<Rightarrow> if b = Before \<and> v > 0 then Test_loops else Thread_return)"
| "locktest_thread_cont R Test_loops r = enter_after (r_start R (int_of_u32 (resp_val r)))"
| "locktest_thread_cont R (Test f) r = enter_after (r_cont R f r)"
| "locktest_thread_cont R Thread_return r = Thread_return"

text \<open>
  \<^verbatim>\<open>locktest\<close>.  \<open>Creating i\<close> starts \<^verbatim>\<open>thread[i]\<close>; \<open>Abort_join k i\<close> joins \<^verbatim>\<open>thread[i]\<close> after the
  creation of \<^verbatim>\<open>thread[k]\<close> failed; \<open>Joining i\<close> joins \<^verbatim>\<open>thread[i]\<close>.
\<close>

fun locktest_fetch :: "int \<Rightarrow> int \<Rightarrow> main_pc \<Rightarrow> (loc, 'f local) instr" where
  "locktest_fetch iterations threads (Init b p) = barrier_init_fetch (Bar b) threads p"
| "locktest_fetch iterations threads Init_loops =
     Store Loops (u32_of_int (c_div iterations threads))"
| "locktest_fetch iterations threads Init_futex = Store Futex 0"
| "locktest_fetch iterations threads (Creating i) = Create (Suc i) (Worker (Sync Before Sync_dec))"
| "locktest_fetch iterations threads (Abort_unblock p k) =
     barrier_unblock_fetch (Bar Before) (- 1) p"
| "locktest_fetch iterations threads (Abort_join k i) = Join (Suc i)"
| "locktest_fetch iterations threads (Waiting b p) = barrier_wait_fetch (Bar b) p"
| "locktest_fetch iterations threads (Times b) = Nop"
| "locktest_fetch iterations threads (Unblocking b p) = barrier_unblock_fetch (Bar b) 1 p"
| "locktest_fetch iterations threads (Joining i) = Join (Suc i)"
| "locktest_fetch iterations threads (Main_return ret) = Exit"

definition abort_join :: "nat \<Rightarrow> nat \<Rightarrow> main_pc" where
  "abort_join k i = (case i of 0 \<Rightarrow> Main_return RET_ERROR | Suc j \<Rightarrow> Abort_join k j)"

fun locktest_cont :: "int \<Rightarrow> main_pc \<Rightarrow> resp \<Rightarrow> main_pc" where
  "locktest_cont threads (Init b p) r =
     (case barrier_init_cont p of
        Some p' \<Rightarrow> Init b p'
      | None \<Rightarrow> if b = Before then Init After Init_threads else Init_loops)"
| "locktest_cont threads Init_loops r = Init_futex"
| "locktest_cont threads Init_futex r =
     (if 0 < threads then Creating 0 else Waiting Before Bwait_test)"
| "locktest_cont threads (Creating i) r =
     (if resp_ret r \<noteq> 0 then Abort_unblock Unblock_store i
      else if int (Suc i) < threads then Creating (Suc i) else Waiting Before Bwait_test)"
| "locktest_cont threads (Abort_unblock p k) r =
     (case barrier_unblock_cont p of Some p' \<Rightarrow> Abort_unblock p' k | None \<Rightarrow> abort_join k k)"
| "locktest_cont threads (Abort_join k i) r = abort_join k i"
| "locktest_cont threads (Waiting b p) r =
     (case barrier_wait_cont p r of Some p' \<Rightarrow> Waiting b p' | None \<Rightarrow> Times b)"
| "locktest_cont threads (Times b) r = Unblocking b Unblock_store"
| "locktest_cont threads (Unblocking b p) r =
     (case barrier_unblock_cont p of
        Some p' \<Rightarrow> Unblocking b p'
      | None \<Rightarrow> if b = Before then Waiting After Bwait_test
               else if 0 < threads then Joining 0 else Main_return RET_PASS)"
| "locktest_cont threads (Joining i) r =
     (if int (Suc i) < threads then Joining (Suc i) else Main_return RET_PASS)"
| "locktest_cont threads (Main_return ret) r = Main_return ret"

fun locktest_program_fetch :: "'f routine \<Rightarrow> int \<Rightarrow> int \<Rightarrow> 'f local \<Rightarrow> (loc, 'f local) instr" where
  "locktest_program_fetch R iterations threads (Main p) = locktest_fetch iterations threads p"
| "locktest_program_fetch R iterations threads (Worker w) = locktest_thread_fetch R w"

fun locktest_program_cont :: "'f routine \<Rightarrow> int \<Rightarrow> 'f local \<Rightarrow> resp \<Rightarrow> 'f local" where
  "locktest_program_cont R threads (Main p) r = Main (locktest_cont threads p r)"
| "locktest_program_cont R threads (Worker w) r = Worker (locktest_thread_cont R w r)"

definition locktest :: "'f routine \<Rightarrow> int \<Rightarrow> int \<Rightarrow> (loc, 'f local) program" where
  "locktest R iterations threads =
     \<lparr>fetch = locktest_program_fetch R iterations threads,
      cont = locktest_program_cont R threads\<rparr>"

text \<open>
  \<^verbatim>\<open>locktest\<close> divides by \<^verbatim>\<open>threads\<close> and declares an array of that many elements first, so the
  call is defined for a positive number of threads only.
\<close>

definition locktest_defined :: "int \<Rightarrow> int \<Rightarrow> bool" where
  "locktest_defined iterations threads \<longleftrightarrow> 0 < threads \<and> threads \<le> INT_MAX \<and>
     INT_MIN \<le> iterations \<and> iterations \<le> INT_MAX"

abbreviation locktest_entry :: "'f local" where
  "locktest_entry \<equiv> Main (Init Before Init_threads)"

section \<open>The interface of the measured function\<close>

text \<open>An instruction that touches one location only and creates, joins or ends no thread.\<close>

definition instr_on :: "'a \<Rightarrow> ('a, 'l) instr \<Rightarrow> bool" where
  "instr_on p i \<longleftrightarrow>
     (case i of
        Load a \<Rightarrow> a = p | Store a _ \<Rightarrow> a = p | Cmpxchg a _ _ \<Rightarrow> a = p | Dec a \<Rightarrow> a = p
      | Inc a \<Rightarrow> a = p | Nop \<Rightarrow> True
      | Syscall c \<Rightarrow> (\<exists>v tmo. decode c = Some (Wait p v tmo)) \<or> (\<exists>n. decode c = Some (Wake p n) \<and> 0 < n)
      | _ \<Rightarrow> False)"

lemma exec_mem_on:
  "instr_on p i \<Longrightarrow> exec_mem i m = Some (r, m') \<Longrightarrow> q \<noteq> p \<Longrightarrow> m' q = m q"
  by (cases i) (auto simp: instr_on_def futex_atomic_defs sync_defs split: if_splits)

lemma locktest_simps [simp]:
  "fetch (locktest R it n) = locktest_program_fetch R it n"
  "cont (locktest R it n) = locktest_program_cont R n"
  by (simp_all add: locktest_def)

end
