(* ===== verification/Harness_Steps.thy ===== *)
theory Harness_Steps
  imports Harness
begin

text \<open>
  The step relation of a harness run, written out control point by control point
  (\<open>hstep\<close>), and the proof that the documented machine running \<^verbatim>\<open>locktest\<close> makes no other
  steps (\<open>astep_hstep\<close>).  The invariant proofs then argue by cases on \<open>hstep\<close>.  The lemmas
  hold for every function the harness can measure: they are proved in the interface
  \<open>locktest_routine\<close>.
\<close>

section \<open>The steps of the harness, control point by control point\<close>

abbreviation run_main :: "main_pc \<Rightarrow> 'f local tstatus" where
  "run_main p \<equiv> Running (Main p)"

abbreviation run_worker :: "'f worker_pc \<Rightarrow> 'f local tstatus" where
  "run_worker w \<equiv> Running (Worker w)"

inductive hstep :: "'f routine \<Rightarrow> int \<Rightarrow> int \<Rightarrow> (loc, 'f local) astate \<Rightarrow> (loc, 'f local) astate \<Rightarrow> bool"
  for R it n where
  h_init_threads: "athr s 0 = run_main (Init b Init_threads) \<Longrightarrow>
    hstep R it n s (agoto 0 (run_main (Init b Init_unblock))
      (s\<lparr>amem := (amem s)(Bar b Threads := u32_of_int n)\<rparr>))"
| h_init_unblock: "athr s 0 = run_main (Init b Init_unblock) \<Longrightarrow>
    p' = (if b = Before then Init After Init_threads else Init_loops) \<Longrightarrow>
    hstep R it n s (agoto 0 (run_main p')
      (s\<lparr>amem := (amem s)(Bar b Unblock := 0)\<rparr>))"
| h_init_loops: "athr s 0 = run_main Init_loops \<Longrightarrow>
    hstep R it n s (agoto 0 (run_main Init_futex)
      (s\<lparr>amem := (amem s)(Loops := u32_of_int (c_div it n))\<rparr>))"
| h_init_futex: "athr s 0 = run_main Init_futex \<Longrightarrow>
    hstep R it n s (agoto 0 (run_main (Creating 0)) (s\<lparr>amem := (amem s)(Futex := 0)\<rparr>))"
| h_create: "athr s 0 = run_main (Creating i) \<Longrightarrow> athr s (Suc i) = Unborn \<Longrightarrow>
    p' = (if int (Suc i) < n then Creating (Suc i) else Waiting Before Bwait_test) \<Longrightarrow>
    hstep R it n s (agoto 0 (run_main p')
      (agoto (Suc i) (run_worker (Sync Before Sync_dec)) s))"
| h_create_fail: "athr s 0 = run_main (Creating i) \<Longrightarrow> athr s (Suc i) = Unborn \<Longrightarrow>
    hstep R it n s (agoto 0 (run_main (Abort_unblock Unblock_store i)) s)"
| h_abort_store: "athr s 0 = run_main (Abort_unblock Unblock_store k) \<Longrightarrow>
    hstep R it n s (agoto 0 (run_main (Abort_unblock Unblock_wake k))
      (s\<lparr>amem := (amem s)(Bar Before Unblock := - 1)\<rparr>))"
| h_abort_wake: "athr s 0 = run_main (Abort_unblock Unblock_wake k) \<Longrightarrow> finite W \<Longrightarrow>
    W \<subseteq> {u. aq s u = Some (Bar Before Unblock)} \<Longrightarrow>
    W = {u. aq s u = Some (Bar Before Unblock)} \<or> int (card W) = INT_MAX \<Longrightarrow>
    hstep R it n s (agoto 0 (run_main (abort_join k k))
      (s\<lparr>aq := (\<lambda>u. if u \<in> W then None else aq s u)\<rparr>))"
| h_abort_join: "athr s 0 = run_main (Abort_join k i) \<Longrightarrow> athr s (Suc i) = Exited \<Longrightarrow>
    hstep R it n s (agoto 0 (run_main (abort_join k i)) s)"
| h_wait_test: "athr s 0 = run_main (Waiting b Bwait_test) \<Longrightarrow>
    p' = (if int_of_u32 (amem s (Bar b Threads)) > 0
      then Waiting b (Bwait_block (amem s (Bar b Threads))) else Times b) \<Longrightarrow>
    hstep R it n s (agoto 0 (run_main p') s)"
| h_wait_return: "athr s 0 = run_main (Waiting b (Bwait_block v)) \<Longrightarrow>
    hstep R it n s (agoto 0 (run_main (Waiting b Bwait_test)) s)"
| h_wait_block: "athr s 0 = run_main (Waiting b (Bwait_block v)) \<Longrightarrow> amem s (Bar b Threads) = v \<Longrightarrow>
    hstep R it n s (agoto 0 (Blocked (Main (Waiting b (Bwait_block v))))
      (s\<lparr>aq := (aq s)(0 \<mapsto> Bar b Threads)\<rparr>))"
| h_wait_resume: "athr s 0 = Blocked (Main (Waiting b (Bwait_block v))) \<Longrightarrow>
    hstep R it n s (agoto 0 (run_main (Waiting b Bwait_test)) (s\<lparr>aq := (aq s)(0 := None)\<rparr>))"
| h_times: "athr s 0 = run_main (Times b) \<Longrightarrow>
    hstep R it n s (agoto 0 (run_main (Unblocking b Unblock_store)) s)"
| h_unblock_store: "athr s 0 = run_main (Unblocking b Unblock_store) \<Longrightarrow>
    hstep R it n s (agoto 0 (run_main (Unblocking b Unblock_wake))
      (s\<lparr>amem := (amem s)(Bar b Unblock := 1)\<rparr>))"
| h_unblock_wake: "athr s 0 = run_main (Unblocking b Unblock_wake) \<Longrightarrow> finite W \<Longrightarrow>
    W \<subseteq> {u. aq s u = Some (Bar b Unblock)} \<Longrightarrow>
    W = {u. aq s u = Some (Bar b Unblock)} \<or> int (card W) = INT_MAX \<Longrightarrow>
    p' = (if b = Before then Waiting After Bwait_test else Joining 0) \<Longrightarrow>
    hstep R it n s (agoto 0 (run_main p')
      (s\<lparr>aq := (\<lambda>u. if u \<in> W then None else aq s u)\<rparr>))"
| h_join: "athr s 0 = run_main (Joining i) \<Longrightarrow> athr s (Suc i) = Exited \<Longrightarrow>
    p' = (if int (Suc i) < n then Joining (Suc i) else Main_return RET_PASS) \<Longrightarrow>
    hstep R it n s (agoto 0 (run_main p') s)"
| h_main_exit: "athr s 0 = run_main (Main_return ret) \<Longrightarrow>
    hstep R it n s (agoto 0 Exited s)"
| h_dec: "0 < t \<Longrightarrow> athr s t = run_worker (Sync b Sync_dec) \<Longrightarrow>
    hstep R it n s (agoto t (run_worker (Sync b Sync_check))
      (s\<lparr>amem := (amem s)(Bar b Threads := amem s (Bar b Threads) - 1)\<rparr>))"
| h_check: "0 < t \<Longrightarrow> athr s t = run_worker (Sync b Sync_check) \<Longrightarrow>
    p' = (if amem s (Bar b Threads) = 0 then Sync_wake else Sync_test) \<Longrightarrow>
    hstep R it n s (agoto t (run_worker (Sync b p')) s)"
| h_wake: "0 < t \<Longrightarrow> athr s t = run_worker (Sync b Sync_wake) \<Longrightarrow>
    W \<subseteq> {u. aq s u = Some (Bar b Threads)} \<Longrightarrow> finite W \<Longrightarrow>
    W = {u. aq s u = Some (Bar b Threads)} \<or> card W = 1 \<Longrightarrow>
    hstep R it n s (agoto t (run_worker (Sync b Sync_test))
      (s\<lparr>aq := (\<lambda>u. if u \<in> W then None else aq s u)\<rparr>))"
| h_test: "0 < t \<Longrightarrow> athr s t = run_worker (Sync b Sync_test) \<Longrightarrow>
    p' = (if amem s (Bar b Unblock) = 0 then Sync_wait else Sync_ret) \<Longrightarrow>
    hstep R it n s (agoto t (run_worker (Sync b p')) s)"
| h_sync_return: "0 < t \<Longrightarrow> athr s t = run_worker (Sync b Sync_wait) \<Longrightarrow>
    hstep R it n s (agoto t (run_worker (Sync b Sync_test)) s)"
| h_sync_block: "0 < t \<Longrightarrow> athr s t = run_worker (Sync b Sync_wait) \<Longrightarrow>
    amem s (Bar b Unblock) = 0 \<Longrightarrow>
    hstep R it n s (agoto t (Blocked (Worker (Sync b Sync_wait)))
      (s\<lparr>aq := (aq s)(t \<mapsto> Bar b Unblock)\<rparr>))"
| h_sync_resume: "0 < t \<Longrightarrow> athr s t = Blocked (Worker (Sync b Sync_wait)) \<Longrightarrow>
    hstep R it n s (agoto t (run_worker (Sync b Sync_test)) (s\<lparr>aq := (aq s)(t := None)\<rparr>))"
| h_ret: "0 < t \<Longrightarrow> athr s t = run_worker (Sync b Sync_ret) \<Longrightarrow>
    w' = (if b = Before \<and> 0 < int_of_u32 (amem s (Bar b Unblock)) then Test_loops else Thread_return) \<Longrightarrow>
    hstep R it n s (agoto t (run_worker w') s)"
| h_loops: "0 < t \<Longrightarrow> athr s t = run_worker Test_loops \<Longrightarrow>
    hstep R it n s (agoto t (run_worker (enter_after (r_start R (int_of_u32 (amem s Loops))))) s)"
| h_routine: "0 < t \<Longrightarrow> athr s t = run_worker (Test f) \<Longrightarrow>
    exec_mem (r_fetch R Futex f) (amem s) = Some (r, m) \<Longrightarrow> (\<And>a. a \<noteq> Futex \<Longrightarrow> m a = amem s a) \<Longrightarrow>
    hstep R it n s (agoto t (run_worker (enter_after (r_cont R f r))) (s\<lparr>amem := m\<rparr>))"
| h_routine_return: "0 < t \<Longrightarrow> athr s t = run_worker (Test f) \<Longrightarrow>
    r_fetch R Futex f = Syscall c \<Longrightarrow> decode c = Some (Wait Futex v tmo) \<Longrightarrow>
    hstep R it n s (agoto t (run_worker (enter_after (r_cont R f (Ret r e)))) s)"
| h_routine_block: "0 < t \<Longrightarrow> athr s t = run_worker (Test f) \<Longrightarrow>
    r_fetch R Futex f = Syscall c \<Longrightarrow> decode c = Some (Wait Futex v tmo) \<Longrightarrow> amem s Futex = v \<Longrightarrow>
    hstep R it n s (agoto t (Blocked (Worker (Test f))) (s\<lparr>aq := (aq s)(t \<mapsto> Futex)\<rparr>))"
| h_routine_wake: "0 < t \<Longrightarrow> athr s t = run_worker (Test f) \<Longrightarrow>
    r_fetch R Futex f = Syscall c \<Longrightarrow> decode c = Some (Wake Futex k) \<Longrightarrow> 0 < k \<Longrightarrow> finite W \<Longrightarrow>
    W \<subseteq> {u. aq s u = Some Futex} \<Longrightarrow> int (card W) \<le> k \<Longrightarrow>
    W = {u. aq s u = Some Futex} \<or> int (card W) = k \<Longrightarrow>
    hstep R it n s (agoto t (run_worker (enter_after (r_cont R f (Ret (int (card W)) 0))))
      (s\<lparr>aq := (\<lambda>u. if u \<in> W then None else aq s u)\<rparr>))"
| h_routine_resume: "0 < t \<Longrightarrow> athr s t = Blocked (Worker (Test f)) \<Longrightarrow>
    r_fetch R Futex f = Syscall c \<Longrightarrow> decode c = Some (Wait Futex v tmo) \<Longrightarrow>
    hstep R it n s (agoto t (run_worker (enter_after (r_cont R f (Ret r e))))
      (s\<lparr>aq := (aq s)(t := None)\<rparr>))"
| h_exit: "0 < t \<Longrightarrow> athr s t = run_worker Thread_return \<Longrightarrow> hstep R it n s (agoto t Exited s)"
| h_tick: "q \<subseteq>\<^sub>m aq s \<Longrightarrow> hstep R it n s (s\<lparr>aq := q\<rparr>)"

text \<open>Thread 0 runs \<^verbatim>\<open>locktest\<close>, every other thread runs \<^verbatim>\<open>locktest_thread\<close>.\<close>

definition typed_status :: "tid \<Rightarrow> 'f local tstatus \<Rightarrow> bool" where
  "typed_status t st \<longleftrightarrow>
     (case st of
        Running l \<Rightarrow> (if t = 0 then \<exists>p. l = Main p else \<exists>w. l = Worker w)
      | Blocked l \<Rightarrow> (if t = 0 then \<exists>p. l = Main p else \<exists>w. l = Worker w)
      | _ \<Rightarrow> True)"

lemma typed_running: "typed_status t (Running l) \<Longrightarrow>
    (t = 0 \<and> (\<exists>p. l = Main p)) \<or> (0 < t \<and> (\<exists>w. l = Worker w))"
  and typed_blocked: "typed_status t (Blocked l) \<Longrightarrow>
    (t = 0 \<and> (\<exists>p. l = Main p)) \<or> (0 < t \<and> (\<exists>w. l = Worker w))"
  by (auto simp: typed_status_def split: if_splits)

lemma main_pc_cases:
  obtains b where "p = Init b Init_threads" | b where "p = Init b Init_unblock"
  | "p = Init_loops" | "p = Init_futex" | i where "p = Creating i"
  | k where "p = Abort_unblock Unblock_store k" | k where "p = Abort_unblock Unblock_wake k"
  | k i where "p = Abort_join k i" | b where "p = Waiting b Bwait_test"
  | b v where "p = Waiting b (Bwait_block v)" | b where "p = Times b"
  | b where "p = Unblocking b Unblock_store" | b where "p = Unblocking b Unblock_wake"
  | i where "p = Joining i" | r where "p = Main_return r"
  by (cases p) (metis init_pc.exhaust, metis+, metis unblock_pc.exhaust, metis,
      metis bwait_pc.exhaust, metis, metis unblock_pc.exhaust, metis+)

lemma worker_pc_cases:
  obtains b where "w = Sync b Sync_dec" | b where "w = Sync b Sync_check"
  | b where "w = Sync b Sync_wake" | b where "w = Sync b Sync_test"
  | b where "w = Sync b Sync_wait" | b where "w = Sync b Sync_ret"
  | "w = Test_loops" | f where "w = Test f" | "w = Thread_return"
  by (cases w) (metis sync_pc.exhaust, metis+)

text \<open>The measured function as a client of the shared futex.\<close>

locale locktest_routine =
  fixes R :: "'f routine"
  assumes routine_on: "instr_on p (r_fetch R p f)"
begin

lemma hstep_mem:
  assumes "athr s t = Running l" "typed_status t (Running l)" "0 < n"
    and "exec_mem (fetch (locktest R it n) l) (amem s) = Some (r, m)"
  shows "hstep R it n s (agoto t (Running (cont (locktest R it n) l r)) (s\<lparr>amem := m\<rparr>))"
  using typed_running [OF assms(2)]
proof (elim disjE conjE exE)
  fix p assume p: "t = 0" "l = Main p"
  show ?thesis
  proof (cases p rule: main_pc_cases)
    case (9 b)
    with p assms show ?thesis using h_wait_test [OF _ refl, of s b R it n] by auto
  qed (insert p assms, auto intro: hstep.intros)
next
  fix w assume w: "0 < t" "l = Worker w"
  show ?thesis
  proof (cases w rule: worker_pc_cases)
    case (2 b)
    with w assms show ?thesis using h_check [OF _ _ refl, of t s b R it n] by auto
  next
    case (4 b)
    with w assms show ?thesis using h_test [OF _ _ refl, of t s b R it n] by auto
  next
    case (6 b)
    with w assms show ?thesis using h_ret [OF _ _ refl, of t s b R it n] by auto
  next
    case (8 f)
    with w assms show ?thesis
      using exec_mem_on [OF routine_on, of Futex f "amem s" r m] by (auto intro: h_routine)
  qed (insert w assms, auto simp: futex_atomic_defs sync_defs intro: hstep.intros)
qed

lemma hstep_syscall_main:
  assumes "athr s 0 = run_main p" "0 < n" "fetch (locktest R it n) (Main p) = Syscall c"
  shows "decode c = Some (Wait a v tmo) \<Longrightarrow>
      hstep R it n s (agoto 0 (Running (cont (locktest R it n) (Main p) (Ret r e))) s)"
    and "decode c = Some (Wait a v tmo) \<Longrightarrow> amem s a = v \<Longrightarrow>
      hstep R it n s (agoto 0 (Blocked (Main p)) (s\<lparr>aq := (aq s)(0 \<mapsto> a)\<rparr>))"
    and "decode c = Some (Wake a k) \<Longrightarrow> finite W \<Longrightarrow> W \<subseteq> {u. aq s u = Some a} \<Longrightarrow>
      W = {u. aq s u = Some a} \<or> int (card W) = k \<Longrightarrow>
      hstep R it n s (agoto 0 (Running (cont (locktest R it n) (Main p) (Ret (int (card W)) 0)))
        (s\<lparr>aq := (\<lambda>u. if u \<in> W then None else aq s u)\<rparr>))"
  using assms by (cases p rule: main_pc_cases; auto intro: hstep.intros)+

lemma routine_syscall:
  "r_fetch R Futex f = Syscall c \<Longrightarrow>
    (decode c = Some (Wait a v tmo) \<longrightarrow> a = Futex) \<and> (decode c = Some (Wake a k) \<longrightarrow> a = Futex \<and> 0 < k)"
  using routine_on [of Futex f] by (auto simp: instr_on_def)

lemma hstep_syscall_worker:
  assumes "athr s t = run_worker w" "0 < t" "fetch (locktest R it n) (Worker w) = Syscall c"
  shows "decode c = Some (Wait a v tmo) \<Longrightarrow>
      hstep R it n s (agoto t (Running (cont (locktest R it n) (Worker w) (Ret r e))) s)"
    and "decode c = Some (Wait a v tmo) \<Longrightarrow> amem s a = v \<Longrightarrow>
      hstep R it n s (agoto t (Blocked (Worker w)) (s\<lparr>aq := (aq s)(t \<mapsto> a)\<rparr>))"
    and "decode c = Some (Wake a k) \<Longrightarrow> finite W \<Longrightarrow> W \<subseteq> {u. aq s u = Some a} \<Longrightarrow> int (card W) \<le> k \<Longrightarrow>
      W = {u. aq s u = Some a} \<or> int (card W) = k \<Longrightarrow>
      hstep R it n s (agoto t (Running (cont (locktest R it n) (Worker w) (Ret (int (card W)) 0)))
        (s\<lparr>aq := (\<lambda>u. if u \<in> W then None else aq s u)\<rparr>))"
proof -
  assume d: "decode c = Some (Wait a v tmo)"
  show "hstep R it n s (agoto t (Running (cont (locktest R it n) (Worker w) (Ret r e))) s)"
    using assms d routine_syscall [of _ c a v tmo]
    by (cases w rule: worker_pc_cases) (auto intro: h_sync_return h_routine_return)
next
  assume d: "decode c = Some (Wait a v tmo)" "amem s a = v"
  show "hstep R it n s (agoto t (Blocked (Worker w)) (s\<lparr>aq := (aq s)(t \<mapsto> a)\<rparr>))"
    using assms d routine_syscall [of _ c a v tmo]
    by (cases w rule: worker_pc_cases) (auto intro: h_sync_block h_routine_block)
next
  assume d: "decode c = Some (Wake a k)" "finite W" "W \<subseteq> {u. aq s u = Some a}" "int (card W) \<le> k"
      "W = {u. aq s u = Some a} \<or> int (card W) = k"
  show "hstep R it n s (agoto t (Running (cont (locktest R it n) (Worker w) (Ret (int (card W)) 0)))
        (s\<lparr>aq := (\<lambda>u. if u \<in> W then None else aq s u)\<rparr>))"
  proof (cases w rule: worker_pc_cases)
    case (3 b)
    with assms d show ?thesis using h_wake [of t s b W R it n] by auto
  next
    case (8 f)
    with assms d routine_syscall [of f c a _ _ k] show ?thesis
      using h_routine_wake [of t s f R c k W it n] by auto
  qed (insert assms d, auto)
qed

lemma hstep_resume:
  assumes "athr s t = Blocked l" "typed_status t (Blocked l)" "fetch (locktest R it n) l = Syscall c"
    and d: "decode c = Some (Wait a v tmo)"
  shows "hstep R it n s (agoto t (Running (cont (locktest R it n) l (Ret r e)))
    (s\<lparr>aq := (aq s)(t := None)\<rparr>))"
  using typed_blocked [OF assms(2)]
proof (elim disjE conjE exE)
  fix p assume "t = 0" "l = Main p"
  with assms show ?thesis
    by (cases p rule: main_pc_cases) (auto intro: h_wait_resume)
next
  fix w assume w: "0 < t" "l = Worker w"
  with assms routine_syscall [of _ c a v tmo] show ?thesis
    by (cases w rule: worker_pc_cases) (auto intro: h_sync_resume h_routine_resume)
qed

lemma routine_not_thread:
  "r_fetch R Futex f \<noteq> Create j l0" "r_fetch R Futex f \<noteq> Join j" "r_fetch R Futex f \<noteq> Exit"
  "r_fetch R Futex f \<noteq> Halt" "r_fetch R Futex f \<noteq> Kill j"
  using routine_on [of Futex f] by (auto simp: instr_on_def)

lemma worker_fetch_thread:
  "fetch (locktest R it n) (Worker w) \<noteq> Create j l0" "fetch (locktest R it n) (Worker w) \<noteq> Join j"
  "fetch (locktest R it n) (Worker w) = Exit \<longleftrightarrow> w = Thread_return"
  by (cases w rule: worker_pc_cases; simp add: routine_not_thread)+

lemma hstep_thread:
  assumes l: "athr s t = Running l" "typed_status t (Running l)"
  shows "fetch (locktest R it n) l = Create j l0 \<Longrightarrow> athr s j = Unborn \<Longrightarrow>
      hstep R it n s (agoto t (Running (cont (locktest R it n) l (Ret 0 0))) (agoto j (Running l0) s))"
    and "fetch (locktest R it n) l = Create j l0 \<Longrightarrow> athr s j = Unborn \<Longrightarrow> r \<noteq> 0 \<Longrightarrow>
      hstep R it n s (agoto t (Running (cont (locktest R it n) l (Ret r 0))) s)"
    and "fetch (locktest R it n) l = Join j \<Longrightarrow> athr s j = Exited \<Longrightarrow>
      hstep R it n s (agoto t (Running (cont (locktest R it n) l (Ret 0 0))) s)"
    and "fetch (locktest R it n) l = Exit \<Longrightarrow> hstep R it n s (agoto t Exited s)"
proof -
  assume c: "fetch (locktest R it n) l = Create j l0" "athr s j = Unborn"
  with typed_running [OF l(2)] worker_fetch_thread obtain p where p: "t = 0" "l = Main p" by metis
  then show "hstep R it n s (agoto t (Running (cont (locktest R it n) l (Ret 0 0))) (agoto j (Running l0) s))"
    using l c h_create [OF _ _ refl, of s _ R it n] by (cases p rule: main_pc_cases) auto
next
  assume c: "fetch (locktest R it n) l = Create j l0" "athr s j = Unborn" "r \<noteq> 0"
  with typed_running [OF l(2)] worker_fetch_thread obtain p where p: "t = 0" "l = Main p" by metis
  then show "hstep R it n s (agoto t (Running (cont (locktest R it n) l (Ret r 0))) s)"
    using l c by (cases p rule: main_pc_cases) (auto intro: h_create_fail)
next
  assume c: "fetch (locktest R it n) l = Join j" "athr s j = Exited"
  with typed_running [OF l(2)] worker_fetch_thread obtain p where p: "t = 0" "l = Main p" by metis
  then show "hstep R it n s (agoto t (Running (cont (locktest R it n) l (Ret 0 0))) s)"
    using l c h_join [OF _ _ refl, of s _ R it n]
    by (cases p rule: main_pc_cases) (auto intro: h_abort_join)
next
  assume c: "fetch (locktest R it n) l = Exit"
  from typed_running [OF l(2)] show "hstep R it n s (agoto t Exited s)"
  proof (elim disjE conjE exE)
    fix p assume p: "t = 0" "l = Main p"
    with l c show ?thesis by (cases p rule: main_pc_cases) (auto intro: h_main_exit)
  next
    fix w assume w: "0 < t" "l = Worker w"
    with l c show ?thesis using worker_fetch_thread(3) [of it n w] by (auto intro: h_exit)
  qed
qed

lemma astep_hstep:
  assumes "astep (locktest R it n) s s'" and "0 < n" and typed: "\<And>t. typed_status t (athr s t)"
  shows "hstep R it n s s'"
  using assms(1)
proof cases
  case (a_mem t l r m)
  with typed [of t] assms(2) hstep_mem [of s t l n it r m] show ?thesis by simp
next
  case (a_wait_return t l c a v tmo r e)
  with typed [of t] typed_running [of t l] assms(2) show ?thesis
    using hstep_syscall_main(1) [of s _ n it c a v tmo r e]
      hstep_syscall_worker(1) [of s t _ it n c a v tmo r e]
    by auto
next
  case (a_wait_block t l c a v tmo)
  with typed [of t] typed_running [of t l] assms(2) show ?thesis
    using hstep_syscall_main(2) [of s _ n it c a v tmo] hstep_syscall_worker(2) [of s t _ it n c a v tmo]
    by auto
next
  case (a_wake t l c a k W)
  with typed [of t] typed_running [of t l] assms(2) show ?thesis
    using hstep_syscall_main(3) [of s _ n it c a k W] hstep_syscall_worker(3) [of s t _ it n c a k W]
    by auto
next
  case (a_resume t l c a v tmo r e)
  with typed [of t] hstep_resume [of s t l it n c a v tmo r e] show ?thesis by simp
next
  case (a_tick q)
  then show ?thesis by (auto intro: h_tick)
next
  case (a_create t l j l0)
  with typed [of t] hstep_thread(1) [of s t l it n j l0] show ?thesis by simp
next
  case (a_create_fail t l j l0 r)
  with typed [of t] hstep_thread(2) [of s t l it n j l0 r] show ?thesis by simp
next
  case (a_join t l j)
  with typed [of t] hstep_thread(3) [of s t l it n j] show ?thesis by simp
next
  case (a_exit t l)
  with typed [of t] hstep_thread(4) [of s t l it n] show ?thesis by simp
qed

end

end
