(* ===== verification/Barrier.thy ===== *)
theory Barrier
  imports Harness_Steps
begin

text \<open>
  The invariant of a harness run, for every function \<^verbatim>\<open>locktest\<close> can measure
  (\<^verbatim>\<open>performance/harness.h\<close>).  Its conjuncts, each kept by every step of \<open>hstep\<close>:

  \<^item> \<open>status_inv\<close>: what each control point knows of the barrier words;
  \<^item> \<open>life_inv\<close>: which threads have been started and joined, by the position of the main thread;
  \<^item> \<open>count_inv\<close>: \<^verbatim>\<open>barrier->threads\<close> plus the workers that have arrived is the number of threads;
  \<^item> \<open>main_wakeup\<close>, \<open>worker_wakeup\<close>: a thread queued in \<^verbatim>\<open>barrier_wait\<close> or \<^verbatim>\<open>barrier_sync\<close> still
    has somebody to wake it.

  \<open>harness_inv\<close> joins them with the queue invariant of the machine; the sublocale \<open>harness\<close>
  makes it an invariant of every run.
\<close>

section \<open>What holds between control points and memory\<close>

text \<open>A worker leaves the harness when it was told to give up, or after both barriers.\<close>

definition released :: "u32 \<Rightarrow> u32 \<Rightarrow> bool" where
  "released ub ua \<longleftrightarrow> ub = - 1 \<or> (ub = 1 \<and> ua \<noteq> 0)"

fun worker_mem :: "u32 \<Rightarrow> u32 \<Rightarrow> 'f worker_pc \<Rightarrow> bool" where
  "worker_mem ub ua (Sync b p) =
     ((p = Sync_ret \<longrightarrow> (if b = Before then ub else ua) \<noteq> 0) \<and> (b = After \<longrightarrow> ub = 1))"
| "worker_mem ub ua Test_loops = (ub = 1)"
| "worker_mem ub ua (Test f) = (ub = 1)"
| "worker_mem ub ua Thread_return = released ub ua"

abbreviation unblocks :: "u32 \<Rightarrow> u32 \<Rightarrow> loc memory \<Rightarrow> bool" where
  "unblocks ub ua m \<equiv> m (Bar Before Unblock) = ub \<and> m (Bar After Unblock) = ua"

fun main_mem :: "int \<Rightarrow> loc memory \<Rightarrow> main_pc \<Rightarrow> bool" where
  "main_mem n m (Init b p) = ((p = Init_unblock \<longrightarrow> m (Bar b Threads) = u32_of_int n) \<and>
     (b = After \<longrightarrow> m (Bar Before Threads) = u32_of_int n \<and> m (Bar Before Unblock) = 0))"
| "main_mem n m Init_loops = (m (Bar Before Threads) = u32_of_int n \<and>
     m (Bar After Threads) = u32_of_int n \<and> unblocks 0 0 m)"
| "main_mem n m Init_futex = (m (Bar Before Threads) = u32_of_int n \<and>
     m (Bar After Threads) = u32_of_int n \<and> unblocks 0 0 m)"
| "main_mem n m (Creating i) = (unblocks 0 0 m \<and> int i < n)"
| "main_mem n m (Abort_unblock p k) =
     (unblocks (if p = Unblock_store then 0 else - 1) 0 m \<and> int k < n)"
| "main_mem n m (Abort_join k i) = (unblocks (- 1) 0 m \<and> int k < n \<and> i < k)"
| "main_mem n m (Waiting b p) = (unblocks (if b = Before then 0 else 1) 0 m \<and>
     (b = After \<longrightarrow> m (Bar Before Threads) = 0) \<and> p \<noteq> Bwait_block 0)"
| "main_mem n m (Times b) = (unblocks (if b = Before then 0 else 1) 0 m \<and>
     m (Bar Before Threads) = 0 \<and> m (Bar b Threads) = 0)"
| "main_mem n m (Unblocking b p) =
     (unblocks (if b = Before \<and> p = Unblock_store then 0 else 1)
        (if b = Before \<or> p = Unblock_store then 0 else 1) m \<and>
      m (Bar Before Threads) = 0 \<and> m (Bar b Threads) = 0)"
| "main_mem n m (Joining i) =
     (unblocks 1 1 m \<and> m (Bar Before Threads) = 0 \<and> m (Bar After Threads) = 0 \<and> int i < n)"
| "main_mem n m (Main_return r) =
     (r = RET_ERROR \<and> unblocks (- 1) 0 m \<or>
      r = RET_PASS \<and> unblocks 1 1 m \<and> m (Bar Before Threads) = 0 \<and> m (Bar After Threads) = 0)"

definition status_mem :: "int \<Rightarrow> loc memory \<Rightarrow> tid \<Rightarrow> 'f local tstatus \<Rightarrow> bool" where
  "status_mem n m t st \<longleftrightarrow>
     (case st of
        Unborn \<Rightarrow> 0 < t
      | Running (Main p) \<Rightarrow> t = 0 \<and> main_mem n m p
      | Blocked (Main p) \<Rightarrow> t = 0 \<and> main_mem n m p \<and> (\<exists>b v. p = Waiting b (Bwait_block v))
      | Running (Worker w) \<Rightarrow> 0 < t \<and> worker_mem (m (Bar Before Unblock)) (m (Bar After Unblock)) w
      | Blocked (Worker w) \<Rightarrow> 0 < t \<and> worker_mem (m (Bar Before Unblock)) (m (Bar After Unblock)) w
      | Exited \<Rightarrow> released (m (Bar Before Unblock)) (m (Bar After Unblock)))"

text \<open>Where the main thread is; a finished main thread counts as returned.\<close>

fun main_at :: "'f local tstatus \<Rightarrow> main_pc" where
  "main_at (Running (Main p)) = p"
| "main_at (Blocked (Main p)) = p"
| "main_at _ = Main_return RET_ERROR"

text \<open>Which threads exist and which have been joined.\<close>

fun thread_life :: "int \<Rightarrow> main_pc \<Rightarrow> tid \<Rightarrow> 'f local tstatus \<Rightarrow> bool" where
  "thread_life n (Init b p) t st = (st = Unborn)"
| "thread_life n Init_loops t st = (st = Unborn)"
| "thread_life n Init_futex t st = (st = Unborn)"
| "thread_life n (Creating i) t st = (st = Unborn \<longleftrightarrow> i < t)"
| "thread_life n (Abort_unblock p k) t st = (st = Unborn \<longleftrightarrow> k < t)"
| "thread_life n (Abort_join k i) t st =
     ((st = Unborn \<longleftrightarrow> k < t) \<and> (Suc i < t \<and> t \<le> k \<longrightarrow> st = Exited))"
| "thread_life n (Joining i) t st =
     ((st = Unborn \<longleftrightarrow> n < int t) \<and> (t \<le> i \<longrightarrow> st = Exited))"
| "thread_life n (Main_return r) t st =
     ((st = Unborn \<or> st = Exited) \<and> (n < int t \<longrightarrow> st = Unborn) \<and>
      (r = RET_PASS \<and> int t \<le> n \<longrightarrow> st = Exited))"
| "thread_life n p t st = (st = Unborn \<longleftrightarrow> n < int t)"

text \<open>Workers that have counted themselves in at a barrier.\<close>

fun past_pc :: "barrier \<Rightarrow> 'f worker_pc \<Rightarrow> bool" where
  "past_pc Before (Sync Before Sync_dec) = False"
| "past_pc Before _ = True"
| "past_pc After (Sync After p) = (p \<noteq> Sync_dec)"
| "past_pc After Thread_return = True"
| "past_pc After _ = False"

fun past :: "barrier \<Rightarrow> 'f local tstatus \<Rightarrow> bool" where
  "past b (Running (Worker w)) = past_pc b w"
| "past b (Blocked (Worker w)) = past_pc b w"
| "past b Exited = True"
| "past b _ = False"

definition arrivals :: "nat \<Rightarrow> (tid \<Rightarrow> bool) \<Rightarrow> nat" where
  "arrivals N f = card {t \<in> {1..N}. f t}"

fun started :: "main_pc \<Rightarrow> bool" where
  "started (Init b p) = False"
| "started Init_loops = False"
| "started Init_futex = False"
| "started _ = True"

definition count_inv :: "int \<Rightarrow> (loc, 'f local) astate \<Rightarrow> bool" where
  "count_inv n s \<longleftrightarrow>
     (started (main_at (athr s 0)) \<longrightarrow>
       (\<forall>b. (b = After \<longrightarrow> amem s (Bar Before Unblock) \<noteq> - 1) \<longrightarrow>
          unat (amem s (Bar b Threads)) + arrivals (nat n) (\<lambda>t. past b (athr s t)) = nat n))"

text \<open>No wake-up is lost: a queued thread waits for something that has not happened, or
  the thread that will wake it is on its way.\<close>

definition will_wake :: "(loc, 'f local) astate \<Rightarrow> barrier \<Rightarrow> tid \<Rightarrow> bool" where
  "will_wake s b t \<longleftrightarrow> 0 < t \<and>
     (athr s t = run_worker (Sync b Sync_check) \<or> athr s t = run_worker (Sync b Sync_wake))"

definition main_wakeup :: "(loc, 'f local) astate \<Rightarrow> bool" where
  "main_wakeup s \<longleftrightarrow>
     (\<forall>b. aq s 0 = Some (Bar b Threads) \<and> amem s (Bar b Threads) = 0 \<longrightarrow> (\<exists>t. will_wake s b t))"

definition will_release :: "'f local tstatus \<Rightarrow> barrier \<Rightarrow> bool" where
  "will_release st b \<longleftrightarrow> st = run_main (Unblocking b Unblock_wake) \<or>
     (b = Before \<and> (\<exists>k. st = run_main (Abort_unblock Unblock_wake k)))"

definition worker_wakeup :: "(loc, 'f local) astate \<Rightarrow> bool" where
  "worker_wakeup s \<longleftrightarrow>
     (\<forall>t b. aq s t = Some (Bar b Unblock) \<longrightarrow>
        amem s (Bar b Unblock) = 0 \<or> will_release (athr s 0) b)"

definition status_inv :: "int \<Rightarrow> (loc, 'f local) astate \<Rightarrow> bool" where
  "status_inv n s \<longleftrightarrow> (\<forall>t. status_mem n (amem s) t (athr s t))"

definition life_inv :: "int \<Rightarrow> (loc, 'f local) astate \<Rightarrow> bool" where
  "life_inv n s \<longleftrightarrow> (\<forall>t>0. thread_life n (main_at (athr s 0)) t (athr s t))"

lemma barrier_neq: "b \<noteq> Before \<longleftrightarrow> b = After" "b \<noteq> After \<longleftrightarrow> b = Before"
  by (cases b; simp)+

section \<open>Counting\<close>

lemma arrivals_le: "arrivals N f \<le> N"
proof -
  have "card {t \<in> {1..N}. f t} \<le> card {1..N}" by (intro card_mono) auto
  then show ?thesis by (simp add: arrivals_def)
qed

lemma arrivals_full:
  assumes "arrivals N f = N" "1 \<le> t" "t \<le> N"
  shows "f t"
proof (rule ccontr)
  assume "\<not> f t"
  then have "{u \<in> {1..N}. f u} \<subseteq> {1..N} - {t}" by blast
  then have "card {u \<in> {1..N}. f u} \<le> card ({1..N} - {t})" by (intro card_mono) simp_all
  also have "\<dots> = N - 1" using assms(2,3) by (simp add: card_Diff_singleton)
  finally show False using assms unfolding arrivals_def by linarith
qed

lemma arrivals_cong: "(\<And>t. 1 \<le> t \<Longrightarrow> t \<le> N \<Longrightarrow> f t = g t) \<Longrightarrow> arrivals N f = arrivals N g"
  unfolding arrivals_def by (rule arg_cong [where f = card]) auto

lemma arrivals_none: "(\<And>t. 1 \<le> t \<Longrightarrow> t \<le> N \<Longrightarrow> \<not> f t) \<Longrightarrow> arrivals N f = 0"
  unfolding arrivals_def by (simp add: card_eq_0_iff)

lemma arrivals_insert:
  assumes "1 \<le> u" "u \<le> N" "\<not> f u" "g u" "\<And>t. t \<noteq> u \<Longrightarrow> g t = f t"
  shows "arrivals N g = Suc (arrivals N f)"
proof -
  have "{t \<in> {1..N}. g t} = insert u {t \<in> {1..N}. f t}" using assms by (auto, metis)
  then show ?thesis using assms(3) by (simp add: arrivals_def)
qed


section \<open>Every step keeps the invariant\<close>

lemma status_invD: "status_inv n s \<Longrightarrow> status_mem n (amem s) t (athr s t)"
  by (simp add: status_inv_def)

lemma status_typed: "status_inv n s \<Longrightarrow> typed_status t (athr s t)"
  using status_invD [of n s t]
  by (auto simp: status_mem_def typed_status_def split: tstatus.splits local.splits)

lemma u32_of_int_nat: "0 < n \<Longrightarrow> n \<le> INT_MAX \<Longrightarrow> unat (u32_of_int n) = nat n"
  by (simp add: INT_MAX_def unat_eq_nat_uint uint_word_of_int)

text \<open>A worker about to count itself in is one the counter still waits for.\<close>

lemma dec_pending:
  assumes inv: "status_inv n s" "life_inv n s" "count_inv n s"
    and t: "0 < t" "athr s t = run_worker (Sync b Sync_dec)"
  shows "amem s (Bar b Threads) \<noteq> 0" "started (main_at (athr s 0))" "int t \<le> n"
    "b = After \<longrightarrow> amem s (Bar Before Unblock) \<noteq> - 1"
proof -
  have life: "thread_life n (main_at (athr s 0)) t (athr s t)"
    using inv(2) t(1) by (simp add: life_inv_def)
  show st: "started (main_at (athr s 0))" and le: "int t \<le> n"
    using life t(2) status_invD [OF inv(1), of 0]
    by (cases "main_at (athr s 0)"; auto simp: status_mem_def split: tstatus.splits local.splits)+
  show ab: "b = After \<longrightarrow> amem s (Bar Before Unblock) \<noteq> - 1"
    using status_invD [OF inv(1), of t] t by (auto simp: status_mem_def)
  show "amem s (Bar b Threads) \<noteq> 0"
  proof
    assume "amem s (Bar b Threads) = 0"
    with inv(3) st ab have "arrivals (nat n) (\<lambda>t. past b (athr s t)) = nat n"
      unfolding count_inv_def by (metis add_0 unat_0)
    from arrivals_full [OF this, of t] t(1) le have "past b (athr s t)" by linarith
    with t(2) show False by (cases b) simp_all
  qed
qed

lemma status_main:
  assumes "status_inv n s"
  shows "athr s 0 = run_main p \<Longrightarrow> main_mem n (amem s) p"
    and "athr s 0 = Blocked (Main p) \<Longrightarrow> main_mem n (amem s) p"
  using status_invD [OF assms, of 0] by (auto simp: status_mem_def)

lemma status_worker:
  assumes "status_inv n s"
  shows "athr s t = run_worker w \<Longrightarrow> worker_mem (amem s (Bar Before Unblock)) (amem s (Bar After Unblock)) w"
    and "athr s t = Blocked (Worker w) \<Longrightarrow>
      worker_mem (amem s (Bar Before Unblock)) (amem s (Bar After Unblock)) w"
  using status_invD [OF assms, of t] by (auto simp: status_mem_def)

lemma main_mem_cong: "(\<And>b f. m (Bar b f) = m' (Bar b f)) \<Longrightarrow> main_mem n m p = main_mem n m' p"
  by (cases "(n, m, p)" rule: main_mem.cases) simp_all

lemma status_mem_cong:
  "(\<And>b f. m (Bar b f) = m' (Bar b f)) \<Longrightarrow> status_mem n m t st = status_mem n m' t st"
  by (auto simp: status_mem_def main_mem_cong [of m m'] split: tstatus.splits local.splits)

text \<open>Steps that leave the barriers alone, and the status the moving thread gets.\<close>

lemma status_inv_move:
  assumes "status_inv n s" and "status_mem n (amem s) t st" and "\<And>b f. m (Bar b f) = amem s (Bar b f)"
  shows "status_inv n (agoto t st (s\<lparr>amem := m, aq := q\<rparr>))" "status_inv n (agoto t st s)"
    "status_inv n (agoto t st (s\<lparr>aq := q\<rparr>))" "status_inv n (agoto t st (s\<lparr>amem := m\<rparr>))"
  using assms(1,2) status_mem_cong [of m "amem s" n, OF assms(3)] by (auto simp: status_inv_def)

lemma status_mem_main [simp]: "status_mem n m 0 (run_main p) = main_mem n m p"
  and status_mem_worker [simp]: "status_mem n m t (run_worker w) =
    (0 < t \<and> worker_mem (m (Bar Before Unblock)) (m (Bar After Unblock)) w)"
  and status_mem_blocked [simp]: "status_mem n m t (Blocked (Worker w)) =
    (0 < t \<and> worker_mem (m (Bar Before Unblock)) (m (Bar After Unblock)) w)"
  and status_mem_blocked_main [simp]: "status_mem n m 0 (Blocked (Main p)) =
    (main_mem n m p \<and> (\<exists>b v. p = Waiting b (Bwait_block v)))"
  and status_mem_exited [simp]: "status_mem n m t Exited =
    released (m (Bar Before Unblock)) (m (Bar After Unblock))"
  and status_mem_unborn [simp]: "status_mem n m t Unborn = (0 < t)"
  by (simp_all add: status_mem_def)

text \<open>Steps that write to a barrier.\<close>

lemma status_inv_store:
  assumes "status_mem n m t st" and "\<And>u. u \<noteq> t \<Longrightarrow> status_mem n m u (athr s u)"
  shows "status_inv n (agoto t st (s\<lparr>amem := m\<rparr>))"
  using assms by (simp add: status_inv_def)

lemma enter_after_mem: "worker_mem ub ua (enter_after f) = (ub = 1)"
  by (cases f) (simp_all add: enter_after_def)

lemma abort_join_mem: "int k < n \<Longrightarrow> unblocks (- 1) 0 m \<Longrightarrow> i \<le> k \<Longrightarrow> main_mem n m (abort_join k i)"
  by (cases i) (simp_all add: abort_join_def)



text \<open>Releasing a barrier keeps what the workers rely on.\<close>

lemma worker_mem_before: "worker_mem 0 ua w \<Longrightarrow> ub \<noteq> 0 \<Longrightarrow> worker_mem ub ua w"
  and worker_mem_after: "worker_mem ub 0 w \<Longrightarrow> ua \<noteq> 0 \<Longrightarrow> worker_mem ub ua w"
  by (cases "(ub, ua, w)" rule: worker_mem.cases; auto simp: released_def)+

lemma status_others:
  assumes "status_mem n m u st" "0 < u"
    and "\<And>w. worker_mem (m (Bar Before Unblock)) (m (Bar After Unblock)) w \<Longrightarrow>
      worker_mem (m' (Bar Before Unblock)) (m' (Bar After Unblock)) (w :: 'f worker_pc)"
  shows "status_mem n m' u (st :: 'f local tstatus)"
  using assms(1,2) assms(3) [of Thread_return] assms(3)
  by (auto simp: status_mem_def split: tstatus.splits local.splits)

lemma status_release:
  assumes inv: "status_inv n s" and "athr s 0 = run_main p" and "main_mem n ((amem s)(Bar b Unblock := v)) p'"
    and "amem s (Bar b Unblock) = 0" "v \<noteq> 0"
  shows "status_inv n (agoto 0 (run_main p') (s\<lparr>amem := (amem s)(Bar b Unblock := v)\<rparr>))"
proof (rule status_inv_store)
  show "status_mem n ((amem s)(Bar b Unblock := v)) 0 (run_main p')" using assms(3) by simp
next
  fix u :: nat assume u: "u \<noteq> 0"
  show "status_mem n ((amem s)(Bar b Unblock := v)) u (athr s u)"
    by (rule status_others [OF status_invD [OF inv]])
      (use u assms(4,5) in \<open>cases b; auto intro: worker_mem_before worker_mem_after\<close>)+
qed

lemma status_init:
  assumes "\<And>t. 0 < t \<Longrightarrow> athr s t = Unborn" and "main_mem n m p'"
  shows "status_inv n (agoto 0 (run_main p') (s\<lparr>amem := m\<rparr>))"
  using assms by (intro status_inv_store) simp_all

lemma life_main:
  assumes "life_inv n s" and "0 < t"
  shows "athr s 0 = run_main p \<Longrightarrow> thread_life n p t (athr s t)"
    and "athr s 0 = Blocked (Main p) \<Longrightarrow> thread_life n p t (athr s t)"
  using assms by (simp_all add: life_inv_def)

lemma status_dec:
  assumes inv: "status_inv n s" "life_inv n s" "count_inv n s"
    and t: "0 < t" "athr s t = run_worker (Sync b Sync_dec)"
  shows "status_inv n (agoto t (run_worker (Sync b Sync_check))
    (s\<lparr>amem := (amem s)(Bar b Threads := v)\<rparr>))"
proof (rule status_inv_store)
  show "status_mem n ((amem s)(Bar b Threads := v)) t (run_worker (Sync b Sync_check))"
    using status_worker(1) [OF inv(1) t(2)] t(1) by (cases b) simp_all
next
  fix u :: nat assume u: "u \<noteq> t"
  note pending = dec_pending [OF inv t]
  show "status_mem n ((amem s)(Bar b Threads := v)) u (athr s u)"
  proof (cases "u = 0")
    case False
    then show ?thesis by (intro status_others [OF status_invD [OF inv(1)]]) auto
  next
    case True
    have "main_mem n (amem s) p \<Longrightarrow> started p \<Longrightarrow> main_mem n ((amem s)(Bar b Threads := v)) p" for p
      using pending(1) by (cases "(n, amem s, p)" rule: main_mem.cases; cases b) auto
    with True status_invD [OF inv(1), of 0] pending(2) show ?thesis
      by (auto simp: status_mem_def split: tstatus.splits local.splits)
  qed
qed

text \<open>The main thread leaves \<^verbatim>\<open>barrier_wait\<close> when the counter is down to zero: the counter never
  exceeds the number of threads, so it is not negative as an \<^verbatim>\<open>int\<close>.\<close>

lemma count_bound: "count_inv n s \<Longrightarrow> started (main_at (athr s 0)) \<Longrightarrow>
    b = After \<longrightarrow> amem s (Bar Before Unblock) \<noteq> - 1 \<Longrightarrow> unat (amem s (Bar b Threads)) \<le> nat n"
  unfolding count_inv_def by (metis le_add1)

lemma small_u32_sint: "unat (w :: u32) \<le> nat n \<Longrightarrow> n \<le> INT_MAX \<Longrightarrow> int_of_u32 w = int (unat w)"
proof -
  assume "unat w \<le> nat n" "n \<le> INT_MAX"
  then have "int (unat w) \<le> INT_MAX" unfolding INT_MAX_def by linarith
  then have "s32 (int (unat w)) = int (unat w)" 
    by (intro s32_id) (simp_all add: INT_MIN_def order_trans [OF _ uint_ge_0])
  then show ?thesis using sint_u32_of_int [of "int (unat w)"] by simp
qed

lemma wait_done:
  assumes inv: "status_inv n s" "count_inv n s" and n: "n \<le> INT_MAX"
    and p: "athr s 0 = run_main (Waiting b Bwait_test)" "\<not> 0 < int_of_u32 (amem s (Bar b Threads))"
  shows "amem s (Bar b Threads) = 0"
proof -
  have "b = After \<longrightarrow> amem s (Bar Before Unblock) \<noteq> - 1"
    using status_main(1) [OF inv(1) p(1)] by auto
  then have "unat (amem s (Bar b Threads)) \<le> nat n" using count_bound [OF inv(2)] p(1) by simp
  from small_u32_sint [OF this n] p(2) have "unat (amem s (Bar b Threads)) = 0" by linarith
  then show ?thesis by (simp only: unat_eq_zero)
qed


lemma unblock_values:
  assumes "status_inv n s" "started (main_at (athr s 0))"
  shows "amem s (Bar Before Unblock) \<in> {0, 1, - 1}"
proof -
  have "main_mem n (amem s) p \<Longrightarrow> started p \<Longrightarrow> amem s (Bar Before Unblock) \<in> {0, 1, - 1}" for p
    by (cases p) (auto split: if_splits)
  with assms status_invD [OF assms(1), of 0] show ?thesis
    by (auto simp: status_mem_def released_def split: tstatus.splits local.splits)
qed

lemma worker_started:
  assumes "life_inv n s" "0 < t" "athr s t \<noteq> Unborn"
  shows "started (main_at (athr s 0))"
  using assms unfolding life_inv_def by (cases "main_at (athr s 0)") auto

lemma status_kept:
  assumes "hstep R it n s s'" and inv: "status_inv n s" "life_inv n s" "count_inv n s"
    and n: "0 < n" "n \<le> INT_MAX"
  shows "status_inv n s'"
  using assms(1)
proof cases
  case (h_init_threads b)
  have "athr s t = Unborn" if "0 < t" for t
    using life_main(1) [OF inv(2) that h_init_threads(2)] by simp
  with h_init_threads status_main(1) [OF inv(1)] show ?thesis
    by (cases b) (auto intro!: status_init)
next
  case (h_init_unblock b p')
  have "athr s t = Unborn" if "0 < t" for t
    using life_main(1) [OF inv(2) that h_init_unblock(2)] by simp
  with h_init_unblock status_main(1) [OF inv(1)] show ?thesis
    by (cases b) (auto intro!: status_init)
next
  case (h_create i p')
  let ?s = "agoto (Suc i) (run_worker (Sync Before Sync_dec)) s"
  have "status_inv n ?s" by (intro status_inv_move inv(1)) simp_all
  moreover have "status_mem n (amem ?s) 0 (run_main p')"
    using status_main(1) [OF inv(1) h_create(2)] h_create(4) by simp
  ultimately show ?thesis unfolding h_create(1) by (rule status_inv_move) simp
next
  case (h_abort_store k)
  with status_main(1) [OF inv(1)] show ?thesis
    by (auto intro!: status_release inv(1))
next
  case (h_unblock_store b)
  with status_main(1) [OF inv(1)] show ?thesis
    by (cases b) (auto intro!: status_release inv(1))
next
  case (h_wait_test b p')
  with status_main(1) [OF inv(1)] wait_done [OF inv(1,3) n(2), of b] show ?thesis
    by (cases b) (auto intro!: status_inv_move inv(1))
next
  case (h_ret t b w')
  with unblock_values [OF inv(1) worker_started [OF inv(2)], of t] show ?thesis
    by (auto intro!: status_inv_move inv(1) dest!: status_worker [OF inv(1)] simp: released_def barrier_neq
        split: if_splits)
next
  case (h_dec t b)
  with status_dec [OF inv] show ?thesis by simp
next
  case h_tick
  with inv(1) show ?thesis by (simp add: status_inv_def)
qed (use n in \<open>auto intro!: status_inv_move inv(1) dest!: status_main [OF inv(1)] status_worker [OF inv(1)]
      simp: enter_after_mem abort_join_mem released_def barrier_neq split: if_splits\<close>)


text \<open>Who exists, and who has been joined.\<close>

lemma life_inv_main:
  assumes "life_inv n s" "athr s' = (athr s)(0 := st)"
    and "\<And>u. 0 < u \<Longrightarrow> thread_life n (main_at (athr s 0)) u (athr s u) \<Longrightarrow>
      thread_life n (main_at st) u (athr s u)"
  shows "life_inv n s'"
  using assms by (simp add: life_inv_def)

text \<open>A worker that moves was started; only its exit changes what the main thread relies on.\<close>

lemma thread_life_move:
  "thread_life n p t st \<Longrightarrow> st \<noteq> Unborn \<Longrightarrow> st \<noteq> Exited \<Longrightarrow> st' \<noteq> Unborn \<Longrightarrow> thread_life n p t st'"
  by (cases p) auto

lemma life_inv_worker:
  assumes "life_inv n s" "athr s' = (athr s)(t := st)" "0 < t" "athr s t \<noteq> Unborn" "athr s t \<noteq> Exited" "st \<noteq> Unborn"
  shows "life_inv n s'"
  using assms by (auto simp: life_inv_def intro: thread_life_move)

lemma abort_join_life:
  "(st = Unborn \<longleftrightarrow> k < u) \<Longrightarrow> (i < u \<and> u \<le> k \<longrightarrow> st = Exited) \<Longrightarrow> int k < n \<Longrightarrow> 0 < u \<Longrightarrow>
     thread_life n (abort_join k i) u st"
  by (cases i) (auto simp: abort_join_def ret_defs)

lemma life_kept:
  assumes "hstep R it n s s'" and inv: "status_inv n s" "life_inv n s" and n: "0 < n"
  shows "life_inv n s'"
  using assms(1)
proof cases
  case (h_create i p')
  have "int i < n" using status_main(1) [OF inv(1) h_create(2)] by simp
  moreover have "thread_life n p' u (athr s' u)" if "0 < u" for u
    using h_create life_main(1) [OF inv(2) that h_create(2)] calculation that by auto
  ultimately show ?thesis using h_create by (simp add: life_inv_def)
next
  case (h_abort_wake k W)
  with status_main(1) [OF inv(1) h_abort_wake(2)] show ?thesis
    by (intro life_inv_main [OF inv(2)], simp, auto intro!: abort_join_life)
next
  case (h_abort_join k i)
  have "i < u \<and> u \<le> k \<longrightarrow> athr s u = Exited" if "Suc i < u \<and> u \<le> k \<longrightarrow> athr s u = Exited" for u
    using that h_abort_join(3) by (cases "u = Suc i") auto
  with h_abort_join status_main(1) [OF inv(1) h_abort_join(2)] show ?thesis
    by (intro life_inv_main [OF inv(2)], simp, auto intro!: abort_join_life)
next
  case (h_join i p')
  have "u \<le> Suc i \<longrightarrow> athr s u = Exited" if "u \<le> i \<longrightarrow> athr s u = Exited" for u
    using that h_join(3) by (cases "u = Suc i") auto
  with h_join status_main(1) [OF inv(1) h_join(2)] show ?thesis
    by (intro life_inv_main [OF inv(2)], simp, auto)
next
  case (h_main_exit ret)
  then show ?thesis by (intro life_inv_main [OF inv(2)], simp, auto simp: ret_defs)
next
  case h_tick
  with inv(2) show ?thesis by (simp add: life_inv_def)
qed (insert n, (auto intro: life_inv_worker [OF inv(2)] | auto intro!: life_inv_main [OF inv(2)] split: if_splits; fail)+)


section \<open>The counters\<close>

lemma count_inv_same:
  assumes "count_inv n s" "started (main_at (athr s' 0)) \<Longrightarrow> started (main_at (athr s 0))"
    and "\<And>b f. amem s' (Bar b f) = amem s (Bar b f)"
    and "\<And>b u. 0 < u \<Longrightarrow> past b (athr s' u) = past b (athr s u)"
  shows "count_inv n s'"
proof -
  have "arrivals (nat n) (\<lambda>t. past b (athr s' t)) = arrivals (nat n) (\<lambda>t. past b (athr s t))" for b
    by (rule arrivals_cong) (simp add: assms(4))
  with assms(1-3) show ?thesis by (simp add: count_inv_def)
qed

lemma count_unstarted: "\<not> started (main_at (athr s 0)) \<Longrightarrow> count_inv n s"
  by (simp add: count_inv_def)

text \<open>Giving up releases the workers of the first barrier; the second one is out of use.\<close>

lemma count_release:
  assumes "count_inv n s" "started (main_at (athr s 0))" "athr s' = (athr s)(0 := run_main p)"
    and "\<And>b. amem s' (Bar b Threads) = amem s (Bar b Threads)" "amem s (Bar Before Unblock) \<noteq> - 1"
  shows "count_inv n s'"
proof -
  have "arrivals (nat n) (\<lambda>t. past b (athr s' t)) = arrivals (nat n) (\<lambda>t. past b (athr s t))" for b
    by (rule arrivals_cong) (simp add: assms(3))
  with assms show ?thesis by (simp add: count_inv_def)
qed

lemma past_pc_dec: "past_pc b (Sync b Sync_check)" "\<not> past_pc b (Sync b Sync_dec)"
    "c \<noteq> b \<Longrightarrow> past_pc c (Sync b Sync_check) = past_pc c (Sync b Sync_dec)"
  by (cases b; cases c; simp)+

lemma count_dec:
  assumes inv: "status_inv n s" "life_inv n s" "count_inv n s"
    and t: "0 < t" "athr s t = run_worker (Sync b Sync_dec)"
  shows "count_inv n (agoto t (run_worker (Sync b Sync_check))
    (s\<lparr>amem := (amem s)(Bar b Threads := amem s (Bar b Threads) - 1)\<rparr>))" (is "count_inv n ?s")
proof -
  note pending = dec_pending [OF inv t]
  have arr: "arrivals (nat n) (\<lambda>u. past c (athr ?s u)) =
      (if c = b then Suc (arrivals (nat n) (\<lambda>u. past c (athr s u)))
       else arrivals (nat n) (\<lambda>u. past c (athr s u)))" for c
  proof (cases "c = b")
    case True
    have "arrivals (nat n) (\<lambda>u. past c (athr ?s u)) = Suc (arrivals (nat n) (\<lambda>u. past c (athr s u)))"
      by (rule arrivals_insert [where u = t])
        (use t pending(3) True in \<open>auto simp: past_pc_dec le_nat_iff\<close>)
    with True show ?thesis by simp
  next
    case False
    have "arrivals (nat n) (\<lambda>u. past c (athr ?s u)) = arrivals (nat n) (\<lambda>u. past c (athr s u))"
      by (rule arrivals_cong) (use t False in \<open>auto simp: past_pc_dec\<close>)
    with False show ?thesis by simp
  qed
  have "unat (amem s (Bar b Threads)) \<noteq> 0" using pending(1) by (simp only: unat_eq_zero not_False_eq_True)
  with inv(3) pending t(1) show ?thesis
    unfolding count_inv_def arr by (simp add: u32_dec_unat)
qed


lemma past_pc_sync: "p \<noteq> Sync_dec \<Longrightarrow> past_pc c (Sync b p) = (c = Before \<or> b = After)"
  by (cases c; cases b; cases p) simp_all

lemma past_pc_enter: "past_pc c (enter_after f) = (c = Before)"
  by (cases c; cases f) (simp_all add: enter_after_def)

lemma past_pc_test: "past_pc c (Test f) = (c = Before)" "past_pc c Test_loops = (c = Before)"
    "past_pc c Thread_return" "\<not> past_pc c (Sync Before Sync_dec)"
  by (cases c; simp)+

lemmas past_simps = past_pc_sync past_pc_enter past_pc_test

lemma count_leave:
  assumes inv: "status_inv n s" "life_inv n s" "count_inv n s"
    and t: "0 < t" "athr s t = run_worker (Sync b Sync_ret)"
    and w': "w' = (if b = Before \<and> 0 < int_of_u32 (amem s (Bar b Unblock)) then Test_loops else Thread_return)"
  shows "count_inv n (agoto t (run_worker w') s)" (is "count_inv n ?s")
proof (cases "b = Before \<and> amem s (Bar Before Unblock) = - 1")
  case True
  have "arrivals (nat n) (\<lambda>u. past Before (athr ?s u)) = arrivals (nat n) (\<lambda>u. past Before (athr s u))"
    by (rule arrivals_cong) (use t w' in \<open>auto simp: past_simps\<close>)
  with True inv(3) t(1) show ?thesis by (simp add: count_inv_def barrier_neq)
next
  case False
  have "amem s (Bar Before Unblock) = 1" if "b = Before"
    using that False unblock_values [OF inv(1) worker_started [OF inv(2) t(1)]] t(2) status_worker(1) [OF inv(1) t(2)]
    by auto
  with t w' show ?thesis
    by (intro count_inv_same [OF inv(3)]) (auto simp: past_simps barrier_neq)
qed

lemma count_kept:
  assumes "hstep R it n s s'" and inv: "status_inv n s" "life_inv n s" "count_inv n s"
    and n: "0 < n" "n \<le> INT_MAX"
  shows "count_inv n s'"
  using assms(1)
proof cases
  case h_init_futex
  have "athr s t = Unborn" if "0 < t" for t
    using life_main(1) [OF inv(2) that h_init_futex(2)] by simp
  then have "arrivals (nat n) (\<lambda>t. past b (athr s' t)) = 0" for b
    using h_init_futex by (intro arrivals_none) simp
  moreover have "unat (amem s' (Bar b Threads)) = nat n" for b
    using status_main(1) [OF inv(1) h_init_futex(2)] h_init_futex(1) u32_of_int_nat [OF n] by (cases b) simp_all
  ultimately show ?thesis by (simp add: count_inv_def)
next
  case (h_abort_store k)
  with status_main(1) [OF inv(1) h_abort_store(2)] show ?thesis
    by (intro count_release [OF inv(3)]) simp_all
next
  case (h_unblock_store b)
  with status_main(1) [OF inv(1) h_unblock_store(2)] show ?thesis
    by (intro count_release [OF inv(3)]) (simp_all split: if_splits)
next
  case (h_dec t b)
  with count_dec [OF inv] show ?thesis by simp
next
  case (h_ret t b w')
  with count_leave [OF inv] show ?thesis by simp
next
  case (h_create i p')
  with life_main(1) [OF inv(2) _ h_create(2), of "Suc i"] show ?thesis
    by (intro count_inv_same [OF inv(3)]) (auto simp: past_simps)
qed ((rule count_inv_same [OF inv(3)], auto simp: past_simps split: if_splits; fail
    | rule count_unstarted, auto split: if_splits; fail)+)


section \<open>Wake-ups\<close>

text \<open>Who may be queued on what.\<close>

definition queued_at :: "(loc, 'f local) astate \<Rightarrow> bool" where
  "queued_at s \<longleftrightarrow> (\<forall>t a. aq s t = Some a \<longrightarrow>
     (t = 0 \<and> (\<exists>b v. a = Bar b Threads \<and> athr s 0 = Blocked (Main (Waiting b (Bwait_block v))))) \<or>
     (0 < t \<and> ((\<exists>b. a = Bar b Unblock \<and> athr s t = Blocked (Worker (Sync b Sync_wait))) \<or>
       (\<exists>f. a = Futex \<and> athr s t = Blocked (Worker (Test f))))))"

lemma queued_main: "queued_at s \<Longrightarrow> aq s t = Some (Bar b Threads) \<Longrightarrow> t = 0"
  and queued_worker: "queued_at s \<Longrightarrow> aq s t = Some (Bar b Unblock) \<Longrightarrow>
    0 < t \<and> athr s t = Blocked (Worker (Sync b Sync_wait))"
  and queued_main_blocked: "queued_at s \<Longrightarrow> aq s 0 = Some a \<Longrightarrow> \<exists>l. athr s 0 = Blocked l"
  unfolding queued_at_def by blast+

lemma alive_le:
  assumes inv: "status_inv n s" "life_inv n s" and t: "0 < t" "athr s t \<noteq> Unborn"
  shows "int t \<le> n"
proof -
  have "main_mem n (amem s) p \<Longrightarrow> thread_life n p t (athr s t) \<Longrightarrow> int t \<le> n" for p
    using t by (cases p) auto
  moreover have "thread_life n (main_at (athr s 0)) t (athr s t)" using inv(2) t(1) by (simp add: life_inv_def)
  ultimately show ?thesis
    using t(2) status_invD [OF inv(1), of 0]
    by (cases "athr s 0") (auto simp: status_mem_def not_less [symmetric] split: local.splits)
qed

text \<open>A wake-up of \<^verbatim>\<open>INT_MAX\<close> threads reaches every queued worker.\<close>

lemma wake_all:
  assumes inv: "status_inv n s" "life_inv n s" "queued_at s" and n: "n \<le> INT_MAX"
    and W: "finite W" "W \<subseteq> {u. aq s u = Some (Bar b Unblock)}"
      "W = {u. aq s u = Some (Bar b Unblock)} \<or> int (card W) = INT_MAX"
  shows "W = {u. aq s u = Some (Bar b Unblock)}"
proof (rule ccontr)
  assume other: "W \<noteq> {u. aq s u = Some (Bar b Unblock)}"
  let ?Q = "{u. aq s u = Some (Bar b Unblock)}"
  have Q: "?Q \<subseteq> {1..nat n}"
  proof
    fix u assume "u \<in> ?Q"
    with queued_worker [OF inv(3)] have "0 < u" "athr s u \<noteq> Unborn" by auto
    with alive_le [OF inv(1,2), of u] show "u \<in> {1..nat n}" by auto
  qed
  with other W(2) have "W \<subset> ?Q" "finite ?Q" by (auto intro: finite_subset)
  then have "card W < card ?Q" by (rule psubset_card_mono [rotated])
  also have "\<dots> \<le> nat n" using card_mono [OF _ Q] by simp
  finally show False using W(3) other n by linarith
qed

lemma main_wakeupI:
  assumes "main_wakeup s" "aq s' 0 = None \<or> aq s' 0 = aq s 0"
    and "\<And>b. aq s' 0 = Some (Bar b Threads) \<Longrightarrow> amem s' (Bar b Threads) = 0 \<Longrightarrow>
      amem s (Bar b Threads) = 0 \<or> (\<exists>t. will_wake s' b t)"
    and "\<And>b t. aq s' 0 = Some (Bar b Threads) \<Longrightarrow> amem s' (Bar b Threads) = 0 \<Longrightarrow> will_wake s b t \<Longrightarrow>
      will_wake s' b t"
  shows "main_wakeup s'"
  unfolding main_wakeup_def
proof (intro allI impI)
  fix b assume q: "aq s' 0 = Some (Bar b Threads) \<and> amem s' (Bar b Threads) = 0"
  then have "amem s (Bar b Threads) = 0 \<Longrightarrow> \<exists>t. will_wake s b t"
    using assms(1,2) unfolding main_wakeup_def by (metis option.distinct(1))
  with q assms(3,4) show "\<exists>t. will_wake s' b t" by meson
qed

lemma main_wakeup_running: "queued_at s \<Longrightarrow> (\<And>l. athr s 0 \<noteq> Blocked l) \<Longrightarrow> main_wakeup s"
  using queued_main_blocked [of s] unfolding main_wakeup_def by blast

lemma main_wakeup_kept:
  assumes "hstep R it n s s'" and inv: "status_inv n s" "life_inv n s" "count_inv n s" "main_wakeup s"
    and q: "queued_at s" "queued_at s'"
  shows "main_wakeup s'"
  using assms(1)
proof cases
  case (h_wait_block b v)
  with status_main(1) [OF inv(1) h_wait_block(2)] show ?thesis by (auto simp: main_wakeup_def)
next
  case (h_dec t b)
  then have "will_wake s' b t" by (simp add: will_wake_def)
  with h_dec show ?thesis by (intro main_wakeupI [OF inv(4)]) (auto simp: will_wake_def split: if_splits)
next
  case (h_check t b p')
  then show ?thesis by (intro main_wakeupI [OF inv(4)]) (auto simp: will_wake_def)
next
  case (h_wake t b W)
  have "aq s' 0 \<noteq> Some (Bar b Threads)"
    using h_wake queued_main [OF q(1)] by (auto simp: card_1_singleton_iff)
  moreover have "aq s' 0 = None \<or> aq s' 0 = aq s 0" using h_wake by auto
  ultimately show ?thesis using h_wake(1-3)
    by (intro main_wakeupI [OF inv(4)]) (auto simp: will_wake_def)
next
  case (h_tick q')
  then have "aq s' 0 = None \<or> aq s' 0 = aq s 0" by (auto simp: map_le_def dom_def)
  with h_tick(1) show ?thesis by (intro main_wakeupI [OF inv(4)]) (auto simp: will_wake_def)
qed ((rule main_wakeup_running [OF q(2)], simp; fail
    | rule main_wakeupI [OF inv(4)], auto simp: will_wake_def; fail)+)


lemma worker_wakeupI:
  assumes "worker_wakeup s"
    and "\<And>t b. aq s' t = Some (Bar b Unblock) \<Longrightarrow> aq s t = aq s' t \<or> amem s' (Bar b Unblock) = 0"
    and "\<And>t b. aq s' t = Some (Bar b Unblock) \<Longrightarrow> amem s (Bar b Unblock) = 0 \<Longrightarrow>
      amem s' (Bar b Unblock) = 0 \<or> will_release (athr s' 0) b"
    and "\<And>t b. aq s' t = Some (Bar b Unblock) \<Longrightarrow> will_release (athr s 0) b \<Longrightarrow> will_release (athr s' 0) b"
  shows "worker_wakeup s'"
  using assms unfolding worker_wakeup_def by metis

lemma worker_wakeup_kept:
  assumes "hstep R it n s s'" and inv: "status_inv n s" "life_inv n s" "worker_wakeup s" and q: "queued_at s"
    and n: "n \<le> INT_MAX"
  shows "worker_wakeup s'"
  using assms(1)
proof cases
  case (h_abort_wake k W)
  with wake_all [OF inv(1,2) q n, of W Before] show ?thesis
    by (intro worker_wakeupI [OF inv(3)]) (auto simp: will_release_def split: if_splits)
next
  case (h_unblock_wake b W)
  with wake_all [OF inv(1,2) q n, of W b] show ?thesis
    by (intro worker_wakeupI [OF inv(3)]) (auto simp: will_release_def split: if_splits)
next
  case (h_tick q')
  then have "aq s' t = None \<or> aq s' t = aq s t" for t by (auto simp: map_le_def dom_def)
  with h_tick(1) show ?thesis
    by (intro worker_wakeupI [OF inv(3)]) (auto, metis option.distinct(1))
qed (rule worker_wakeupI [OF inv(3)], auto simp: will_release_def split: if_splits; fail)+

section \<open>The invariant of a harness run\<close>

definition barrier_inv :: "int \<Rightarrow> (loc, 'f local) astate \<Rightarrow> bool" where
  "barrier_inv n s \<longleftrightarrow> status_inv n s \<and> life_inv n s \<and> count_inv n s \<and> main_wakeup s \<and>
     worker_wakeup s"

context locktest_routine
begin

lemma queued_locktest:
  assumes "queue_inv (locktest R it n) s" and typed: "\<And>t. typed_status t (athr s t)"
  shows "queued_at s"
  unfolding queued_at_def
proof (intro allI impI)
  fix t a assume "aq s t = Some a"
  from queue_inv_queued [OF assms(1) this] obtain l c v tmo where l: "athr s t = Blocked l"
    "fetch (locktest R it n) l = Syscall c" "decode c = Some (Wait a v tmo)"
    unfolding waits_at_def by blast
  with typed [of t] typed_blocked [of t l] consider p where "t = 0" "l = Main p" | w where "0 < t" "l = Worker w"
    by auto
  then show "(t = 0 \<and> (\<exists>b v. a = Bar b Threads \<and> athr s 0 = Blocked (Main (Waiting b (Bwait_block v))))) \<or>
     (0 < t \<and> ((\<exists>b. a = Bar b Unblock \<and> athr s t = Blocked (Worker (Sync b Sync_wait))) \<or>
       (\<exists>f. a = Futex \<and> athr s t = Blocked (Worker (Test f)))))"
  proof cases
    case 1
    with l show ?thesis by (cases p rule: main_pc_cases) auto
  next
    case 2
    with l routine_syscall [of _ c a v tmo] show ?thesis by (cases w rule: worker_pc_cases) auto
  qed
qed

lemma barrier_inv_kept:
  assumes step: "astep (locktest R it n) s s'" and q: "queue_inv (locktest R it n) s"
    and inv: "barrier_inv n s" and n: "0 < n" "n \<le> INT_MAX"
  shows "barrier_inv n s'"
proof -
  note inv' = inv [unfolded barrier_inv_def, THEN conjunct1]
    inv [unfolded barrier_inv_def, THEN conjunct2, THEN conjunct1]
    inv [unfolded barrier_inv_def, THEN conjunct2, THEN conjunct2, THEN conjunct1]
  have h: "hstep R it n s s'" using astep_hstep [OF step n(1) status_typed [OF inv'(1)]] .
  have st: "status_inv n s'" by (rule status_kept [OF h inv' n])
  have qa: "queued_at s" by (rule queued_locktest [OF q status_typed [OF inv'(1)]])
  have qa': "queued_at s'"
    by (rule queued_locktest [OF queue_inv_kept [OF step q] status_typed [OF st]])
  show ?thesis
    unfolding barrier_inv_def
    using st life_kept [OF h inv'(1,2) n(1)] count_kept [OF h inv' n]
      main_wakeup_kept [OF h inv' _ qa qa'] worker_wakeup_kept [OF h inv'(1,2) _ qa n(2)] inv
    by (simp add: barrier_inv_def)
qed

end

text \<open>A run of \<^verbatim>\<open>locktest\<close>, as the caller may make it.\<close>

definition locktest_init :: "int \<Rightarrow> int \<Rightarrow> (loc, 'f local) astate \<Rightarrow> bool" where
  "locktest_init it n s \<longleftrightarrow> locktest_defined it n \<and> ainit locktest_entry s"

definition harness_inv :: "'f routine \<Rightarrow> int \<Rightarrow> int \<Rightarrow> (loc, 'f local) astate \<Rightarrow> bool" where
  "harness_inv R it n s \<longleftrightarrow>
     locktest_defined it n \<and> queue_inv (locktest R it n) s \<and> barrier_inv n s"

lemma barrier_inv_start: "ainit locktest_entry s \<Longrightarrow> barrier_inv n s"
  by (auto simp: ainit_def start_threads_def barrier_inv_def status_inv_def life_inv_def count_inv_def
      main_wakeup_def worker_wakeup_def)

sublocale locktest_routine \<subseteq> harness: inductive_invariant "locktest_init it n" "astep (locktest R it n)"
  "harness_inv R it n" for it n
proof unfold_locales
  fix s :: "(loc, 'f local) astate" assume "locktest_init it n s"
  then show "harness_inv R it n s"
    by (auto simp: locktest_init_def harness_inv_def barrier_inv_start intro: queue.inv_start)
next
  fix s s' assume "harness_inv R it n s" "astep (locktest R it n) s s'"
  then show "harness_inv R it n s'"
    unfolding harness_inv_def locktest_defined_def using barrier_inv_kept queue_inv_kept by blast
qed

end
