(* ===== verification/Harness_Safety.thy ===== *)
theory Harness_Safety
  imports Barrier
begin

text \<open>
  What the invariant of a harness run gives: nobody enters the measured function before all
  threads have arrived at the first barrier, the clock is read the second time when all
  threads have left it, what the return value says of the workers, and that a run never
  gets stuck (interface \<open>locktest_progress\<close>, which asks of the measured function that not all
  its threads sleep).  \<open>locktest_reach\<close> carries these facts over to the machine with a kernel.
\<close>

section \<open>What the barriers guarantee\<close>

lemma harness_invD:
  assumes "harness_inv R it n s"
  shows "status_inv n s" "life_inv n s" "count_inv n s" "main_wakeup s" "worker_wakeup s"
    "queue_inv (locktest R it n) s" "0 < n" "n \<le> INT_MAX"
  using assms by (auto simp: harness_inv_def barrier_inv_def locktest_defined_def)

lemma all_past:
  assumes "count_inv n s" "started (main_at (athr s 0))" "b = After \<longrightarrow> amem s (Bar Before Unblock) \<noteq> - 1"
    and "amem s (Bar b Threads) = 0" "1 \<le> t" "int t \<le> n"
  shows "past b (athr s t)"
proof -
  have "arrivals (nat n) (\<lambda>t. past b (athr s t)) = nat n"
    using assms(1-4) unfolding count_inv_def by (metis add_0 unat_0)
  from arrivals_full [OF this, of t] assms(5,6) show ?thesis by linarith
qed

lemma arrivals_all: "(\<And>t. 1 \<le> t \<Longrightarrow> t \<le> N \<Longrightarrow> f t) \<Longrightarrow> arrivals N f = N"
proof -
  assume "\<And>t. 1 \<le> t \<Longrightarrow> t \<le> N \<Longrightarrow> f t"
  then have "{t \<in> {1..N}. f t} = {1..N}" by auto
  then show ?thesis unfolding arrivals_def by (metis card_atLeastAtMost diff_Suc_1)
qed

lemma not_all_past:
  assumes "count_inv n s" "started (main_at (athr s 0))" "b = After \<longrightarrow> amem s (Bar Before Unblock) \<noteq> - 1"
    and "amem s (Bar b Threads) \<noteq> 0"
  obtains u where "1 \<le> u" "int u \<le> n" "\<not> past b (athr s u)"
proof -
  have "unat (amem s (Bar b Threads)) + arrivals (nat n) (\<lambda>t. past b (athr s t)) = nat n"
    using assms(1-3) unfolding count_inv_def by blast
  moreover have "unat (amem s (Bar b Threads)) \<noteq> 0" using assms(4) by (simp only: unat_eq_zero not_False_eq_True)
  ultimately have "arrivals (nat n) (\<lambda>t. past b (athr s t)) \<noteq> nat n" by linarith
  with arrivals_all [of "nat n" "\<lambda>t. past b (athr s t)"] obtain u where "1 \<le> u" "u \<le> nat n" "\<not> past b (athr s u)"
    by blast
  moreover from this have "int u \<le> n" by linarith
  ultimately show thesis by (intro that)
qed

text \<open>A worker inside the measured function, or past it.\<close>

fun in_test :: "'f local tstatus \<Rightarrow> bool" where
  "in_test (Running (Worker Test_loops)) = True"
| "in_test (Running (Worker (Test f))) = True"
| "in_test (Blocked (Worker (Test f))) = True"
| "in_test _ = False"

lemma in_test_cases:
  "in_test st \<Longrightarrow> (\<exists>w. (st = run_worker w \<or> st = Blocked (Worker w)) \<and> (w = Test_loops \<or> (\<exists>f. w = Test f)))"
  by (cases st rule: in_test.cases) auto

lemma before_released:
  assumes "status_inv n s" "life_inv n s" "0 < t" "athr s t \<noteq> Unborn" "athr s t \<noteq> Exited"
    and "amem s (Bar Before Unblock) = 1"
  shows "amem s (Bar Before Threads) = 0"
proof -
  have "thread_life n (main_at (athr s 0)) t (athr s t)" using assms(2,3) by (simp add: life_inv_def)
  moreover have "main_mem n (amem s) p \<Longrightarrow> started p \<Longrightarrow> amem s (Bar Before Threads) = 0" for p
    using assms(6) by (cases p) (auto simp: barrier_neq split: if_splits)
  moreover have "started (main_at (athr s 0))" using worker_started [OF assms(2,3,4)] .
  ultimately show ?thesis
    using status_invD [OF assms(1), of 0] assms(3-5)
    by (cases "athr s 0") (auto simp: status_mem_def split: local.splits)
qed

lemma test_after_before:
  assumes inv: "harness_inv R it n s" and t: "in_test (athr s t)" and u: "1 \<le> u" "int u \<le> n"
  shows "past Before (athr s u)"
proof -
  obtain w where w: "athr s t = run_worker w \<or> athr s t = Blocked (Worker w)" "w = Test_loops \<or> (\<exists>f. w = Test f)"
    using in_test_cases [OF t] by blast
  then have "0 < t" using status_typed [OF harness_invD(1) [OF inv], of t] by (auto simp: typed_status_def split: if_splits)
  moreover have "amem s (Bar Before Unblock) = 1"
    using w status_worker [OF harness_invD(1) [OF inv], of t w] by auto
  ultimately have "amem s (Bar Before Threads) = 0" "started (main_at (athr s 0))"
    using before_released [OF harness_invD(1,2) [OF inv], of t] worker_started [OF harness_invD(2) [OF inv], of t] w by auto
  then show ?thesis using all_past [OF harness_invD(3) [OF inv], of Before u] u by simp
qed

lemma times_before:
  assumes inv: "harness_inv R it n s" and m: "athr s 0 = run_main (Times b)" and u: "1 \<le> u" "int u \<le> n"
  shows "past b (athr s u)" "b = Before \<longrightarrow> \<not> in_test (athr s u)"
proof -
  note mm = status_main(1) [OF harness_invD(1) [OF inv] m]
  show "past b (athr s u)" by (rule all_past [OF harness_invD(3) [OF inv] _ _ _ u]) (use m mm in auto)
  show "b = Before \<longrightarrow> \<not> in_test (athr s u)"
    using mm status_worker [OF harness_invD(1) [OF inv], of u] in_test_cases [of "athr s u"] by fastforce
qed


text \<open>What \<^verbatim>\<open>locktest\<close> returns.\<close>

lemma return_pass:
  assumes inv: "harness_inv R it n s" and m: "athr s 0 = run_main (Main_return RET_PASS)" and u: "1 \<le> u" "int u \<le> n"
  shows "athr s u = Exited" "amem s (Bar Before Unblock) = 1"
  using life_main(1) [OF harness_invD(2) [OF inv] _ m, of u] u status_main(1) [OF harness_invD(1) [OF inv] m]
  by (auto simp: ret_defs)

lemma abort_no_test:
  assumes inv: "harness_inv R it n s" and ub: "amem s (Bar Before Unblock) = - 1"
  shows "\<not> in_test (athr s u)" "past After (athr s u) \<Longrightarrow>
    athr s u = Exited \<or> athr s u = run_worker Thread_return \<or> athr s u = Blocked (Worker Thread_return)"
proof -
  note w = status_worker [OF harness_invD(1) [OF inv], of u, unfolded ub]
  show "\<not> in_test (athr s u)" using w in_test_cases [of "athr s u"] by fastforce
  show "athr s u = Exited \<or> athr s u = run_worker Thread_return \<or> athr s u = Blocked (Worker Thread_return)"
    if "past After (athr s u)"
    using that w by (cases "(After, athr s u)" rule: past.cases; cases "athr s u")
      (auto elim!: past_pc.elims)
qed

section \<open>Progress\<close>

text \<open>Workers that are not queued can move.\<close>

context locktest_routine
begin

lemma worker_not_stuck:
  "athr s u = run_worker w \<Longrightarrow> \<not> stuck (locktest R it n) s u"
  "athr s u = Blocked (Worker w) \<Longrightarrow> aq s u = None \<Longrightarrow> \<not> stuck (locktest R it n) s u"
  using worker_fetch_thread [of it n w]
  by (auto simp: stuck_def split: instr.splits)


lemma queued_harness: "harness_inv R it n s \<Longrightarrow> queued_at s"
  by (rule queued_locktest [OF harness_invD(6) status_typed [OF harness_invD(1)]])

end

text \<open>
  The measured function keeps the run going: whenever a worker sleeps on the shared futex,
  some worker inside the function is not asleep.  \<open>rinv\<close> is the function's own invariant.
\<close>

locale locktest_progress = locktest_routine R for R :: "'f routine" +
  fixes rinv :: "(loc, 'f local) astate \<Rightarrow> bool"
  assumes routine_progress: "rinv s \<Longrightarrow> harness_inv R it n s \<Longrightarrow> aq s t = Some Futex \<Longrightarrow>
    \<exists>u f. (athr s u = run_worker (Test f) \<or> athr s u = Blocked (Worker (Test f))) \<and> aq s u = None"
begin

lemma worker_progress:
  assumes r: "rinv s" and inv: "harness_inv R it n s"
    and u: "athr s u = run_worker w \<or> athr s u = Blocked (Worker w)"
    and w: "\<And>c. w = Sync c Sync_wait \<Longrightarrow> amem s (Bar c Unblock) \<noteq> 0 \<and> \<not> will_release (athr s 0) c"
  shows "\<exists>u. \<not> stuck (locktest R it n) s u"
proof (cases "aq s u")
  case None
  with u worker_not_stuck show ?thesis by metis
next
  case (Some a)
  with u queued_harness [OF inv] consider c where "w = Sync c Sync_wait" "a = Bar c Unblock" | "a = Futex"
    unfolding queued_at_def by fastforce
  then show ?thesis
  proof cases
    case 1
    with Some w harness_invD(5) [OF inv] show ?thesis by (auto simp: worker_wakeup_def)
  next
    case 2
    with routine_progress [OF r inv] Some worker_not_stuck show ?thesis by metis
  qed
qed

lemma wait_progress:
  assumes r: "rinv s" and inv: "harness_inv R it n s"
    and m: "athr s 0 = Blocked (Main (Waiting b (Bwait_block v)))"
  shows "\<exists>t. \<not> stuck (locktest R it n) s t"
proof (cases "aq s 0")
  case None
  with m show ?thesis by (intro exI [of _ 0]) (simp add: stuck_def)
next
  case (Some a)
  with m queued_harness [OF inv] have a: "a = Bar b Threads" unfolding queued_at_def by fastforce
  have mm: "main_mem n (amem s) (Waiting b (Bwait_block v))"
    using status_main(2) [OF harness_invD(1) [OF inv] m] .
  show ?thesis
  proof (cases "amem s (Bar b Threads) = 0")
    case True
    with Some a harness_invD(4) [OF inv] obtain t where "will_wake s b t" unfolding main_wakeup_def by blast
    with worker_not_stuck(1) show ?thesis unfolding will_wake_def by metis
  next
    case False
    obtain u where u: "1 \<le> u" "int u \<le> n" "\<not> past b (athr s u)"
      using not_all_past [OF harness_invD(3) [OF inv] _ _ False] m mm by (auto split: if_splits)
    then have "athr s u \<noteq> Unborn" using life_main(2) [OF harness_invD(2) [OF inv] _ m, of u] by auto
    with u(1,3) status_typed [OF harness_invD(1) [OF inv], of u] obtain w
      where w: "athr s u = run_worker w \<or> athr s u = Blocked (Worker w)"
      by (cases "athr s u") (auto simp: typed_status_def)
    with u(3) have "w = Sync c Sync_wait \<Longrightarrow> b = After \<and> c = Before" for c
      by (cases b; cases c) auto
    with mm m show ?thesis by (intro worker_progress [OF r inv w]) (auto simp: will_release_def)
  qed
qed


lemma join_progress:
  assumes r: "rinv s" and inv: "harness_inv R it n s"
    and m: "athr s 0 = run_main p" "p = Abort_join k i \<or> p = Joining i"
  shows "\<exists>t. \<not> stuck (locktest R it n) s t"
proof (cases "athr s (Suc i) = Exited")
  case True
  with m show ?thesis by (intro exI [of _ 0]) (auto simp: stuck_def)
next
  case False
  note mm = status_main(1) [OF harness_invD(1) [OF inv] m(1)]
    and life = life_main(1) [OF harness_invD(2) [OF inv] _ m(1), of "Suc i"]
  have "athr s (Suc i) \<noteq> Unborn" using m(2) mm life by auto
  with False status_typed [OF harness_invD(1) [OF inv], of "Suc i"] obtain w
    where w: "athr s (Suc i) = run_worker w \<or> athr s (Suc i) = Blocked (Worker w)"
    by (cases "athr s (Suc i)") (auto simp: typed_status_def)
  have "amem s (Bar c Unblock) \<noteq> 0" if "w = Sync c Sync_wait" for c
    using that w m(2) mm status_worker [OF harness_invD(1) [OF inv], of "Suc i" w] by (cases c) auto
  with m show ?thesis by (intro worker_progress [OF r inv w]) (auto simp: will_release_def)
qed

lemma deadlock_free:
  assumes r: "rinv s" and inv: "harness_inv R it n s" and m: "athr s 0 \<noteq> Exited"
  shows "\<exists>t. \<not> stuck (locktest R it n) s t"
proof -
  from m status_invD [OF harness_invD(1) [OF inv], of 0] consider
    b v where "athr s 0 = Blocked (Main (Waiting b (Bwait_block v)))" | p where "athr s 0 = run_main p"
    by (cases "athr s 0") (auto simp: status_mem_def split: local.splits)
  then show ?thesis
  proof cases
    case 1
    then show ?thesis by (rule wait_progress [OF r inv])
  next
    case 2
    show ?thesis
    proof (cases "\<exists>k i. p = Abort_join k i \<or> p = Joining i")
      case True
      then show ?thesis using join_progress [OF r inv 2] by blast
    next
      case False
      with 2 life_main(1) [OF harness_invD(2) [OF inv] _ 2] show ?thesis
        by (intro exI [of _ 0]) (cases p rule: main_pc_cases; auto simp: stuck_def)
    qed
  qed
qed

end


section \<open>Runs on a kernel\<close>

definition locktest_reach ::
    "(loc, 'b) kernel \<Rightarrow> 'f routine \<Rightarrow> int \<Rightarrow> int \<Rightarrow> (loc, 'f local, 'b) mstate \<Rightarrow> bool" where
  "locktest_reach K R it n s \<longleftrightarrow> locktest_defined it n \<and>
     reach (minit K (locktest R it n) locktest_entry) (mstep K (locktest R it n)) s"


lemma reach_mono: "reach init step s \<Longrightarrow> (\<And>s. init s \<Longrightarrow> init' s) \<Longrightarrow> reach init' step s"
  by (induction rule: reach.induct) (auto intro: reach.intros)

context locktest_routine
begin

lemma reach_locktest_init:
  "locktest_reach K R it n s \<Longrightarrow> reach (locktest_init it n) (astep (locktest R it n)) (abs_state K s)"
  unfolding locktest_reach_def using machine_sim.reach_abs
  by (metis locktest_init_def reach_mono)

lemma routine_call:
  "r_fetch R Futex f = Syscall c \<Longrightarrow>
    (\<exists>a v tmo. decode c = Some (Wait a v tmo)) \<or> (\<exists>a k. decode c = Some (Wake a k) \<and> 0 < k)"
  using routine_on [of Futex f] by (auto simp: instr_on_def)

lemma wait_wake_locktest: "wait_wake_only (locktest R it n)"
  unfolding wait_wake_only_def
proof (intro conjI allI impI)
  fix l c assume l: "fetch (locktest R it n) l = Syscall c"
  show "(\<exists>a v tmo. decode c = Some (Wait a v tmo)) \<or> (\<exists>a k. decode c = Some (Wake a k) \<and> 0 < k)"
  proof (cases l)
    case (Main p)
    with l show ?thesis by (cases p rule: main_pc_cases) (auto simp: INT_MAX_pos)
  next
    case (Worker w)
    with l routine_call show ?thesis by (cases w rule: worker_pc_cases) auto
  qed
next
  fix l
  show "fetch (locktest R it n) l \<noteq> Halt"
  proof (cases l)
    case (Main p)
    then show ?thesis by (cases p rule: main_pc_cases) auto
  next
    case (Worker w)
    with routine_not_thread(4) show ?thesis by (cases w rule: worker_pc_cases) auto
  qed
next
  fix l j
  show "fetch (locktest R it n) l \<noteq> Kill j"
  proof (cases l)
    case (Main p)
    then show ?thesis by (cases p rule: main_pc_cases) auto
  next
    case (Worker w)
    with routine_not_thread(5) show ?thesis by (cases w rule: worker_pc_cases) auto
  qed
qed

lemma reach_harness_inv: "locktest_reach K R it n s \<Longrightarrow> harness_inv R it n (abs_state K s)"
  by (rule harness.reach_inv [OF reach_locktest_init])

end

section \<open>The number of loops\<close>

text \<open>\<^verbatim>\<open>shared.loops\<close> is \<^verbatim>\<open>iterations / threads\<close> from its initialisation on.\<close>

fun loops_set :: "main_pc \<Rightarrow> bool" where
  "loops_set (Init b p) = False"
| "loops_set Init_loops = False"
| "loops_set _ = True"

definition loops_inv :: "int \<Rightarrow> int \<Rightarrow> (loc, 'f local) astate \<Rightarrow> bool" where
  "loops_inv it n s \<longleftrightarrow>
     (loops_set (main_at (athr s 0)) \<longrightarrow> amem s Loops = u32_of_int (c_div it n))"

lemma loops_kept: "hstep R it n s s' \<Longrightarrow> loops_inv it n s \<Longrightarrow> loops_inv it n s'"
  by (induction rule: hstep.induct) (auto simp: loops_inv_def)

context locktest_routine
begin

lemma reach_loops:
  "reach (locktest_init it n) (astep (locktest R it n)) s \<Longrightarrow> harness_inv R it n s \<and> loops_inv it n s"
proof (induction rule: reach.induct)
  case (reach_start s)
  then show ?case using harness.inv_start
    by (auto simp: locktest_init_def ainit_def start_threads_def loops_inv_def)
next
  case (reach_more s s')
  then have inv: "harness_inv R it n s" by blast
  from astep_hstep [OF reach_more.hyps(2) harness_invD(7) [OF inv] status_typed [OF harness_invD(1) [OF inv]]]
    reach_more inv show ?case using loops_kept harness.inv_kept by blast
qed

end

lemma div_le_pos: "0 < (n :: int) \<Longrightarrow> 0 \<le> a \<Longrightarrow> a div n \<le> a"
  by (metis div_by_1 zdiv_mono2 zero_less_one int_one_le_iff_zero_less)

lemma c_div_range:
  assumes "locktest_defined it n"
  shows "INT_MIN \<le> c_div it n \<and> c_div it n \<le> INT_MAX"
proof -
  have n: "0 < n" "INT_MIN \<le> it" "it \<le> INT_MAX" using assms by (auto simp: locktest_defined_def)
  define q where "q = \<bar>it\<bar> div n"
  have q: "0 \<le> q" "q \<le> \<bar>it\<bar>"
    using n(1) by (simp_all add: q_def pos_imp_zdiv_nonneg_iff div_le_pos)
  have "c_div it n = (if 0 \<le> it then q else - q)"
    using n(1) by (auto simp: c_div_def q_def sgn_if)
  with q n(2,3) show ?thesis by (auto simp: INT_MIN_def INT_MAX_def)
qed

end
