(* ===== verification/Harness_View.thy ===== *)
theory Harness_View
  imports Harness_Safety
begin

text \<open>
  A harness run as the measured function sees it: the shared futex, the threads inside the
  function with their control points, and the threads asleep on the futex.  \<open>vstep\<close> is the
  step relation of that view; \<open>hstep_vstep\<close> shows that a step of the harness is a step of the
  view or leaves it alone, so that an invariant of the function needs no mention of barriers,
  thread creation or the main thread.  The interface \<open>view_invariant\<close> turns such an
  invariant into one of the whole run.
\<close>

section \<open>The view\<close>

record 'f view =
  word :: "u32 option"
  inside :: "tid \<Rightarrow> (bool \<times> 'f) option"
  asleep :: "tid set"

text \<open>The control point of a thread inside the function, and whether it blocks in a call.\<close>

fun test_at :: "'f local tstatus \<Rightarrow> (bool \<times> 'f) option" where
  "test_at (Running (Worker (Test f))) = Some (False, f)"
| "test_at (Blocked (Worker (Test f))) = Some (True, f)"
| "test_at _ = None"

definition view_of :: "(loc, 'f local) astate \<Rightarrow> 'f view" where
  "view_of s =
     \<lparr>word = (if started (main_at (athr s 0)) then Some (amem s Futex) else None),
      inside = (\<lambda>t. test_at (athr s t)),
      asleep = {t. aq s t = Some Futex}\<rparr>"

definition enter :: "'f option \<Rightarrow> (bool \<times> 'f) option" where
  "enter f = map_option (Pair False) f"

inductive vstep :: "'f routine \<Rightarrow> 'f view \<Rightarrow> 'f view \<Rightarrow> bool" for R where
  v_init: "word v = None \<Longrightarrow> (\<And>t. inside v t = None) \<Longrightarrow> vstep R v (v\<lparr>word := Some 0\<rparr>)"
| v_start: "inside v t = None \<Longrightarrow> t \<notin> asleep v \<Longrightarrow> word v \<noteq> None \<Longrightarrow>
    vstep R v (v\<lparr>inside := (inside v)(t := enter (r_start R l))\<rparr>)"
| v_mem: "inside v t = Some (False, f) \<Longrightarrow> t \<notin> asleep v \<Longrightarrow> word v = Some (m Futex) \<Longrightarrow>
    exec_mem (r_fetch R Futex f) m = Some (r, m') \<Longrightarrow>
    vstep R v (v\<lparr>word := Some (m' Futex), inside := (inside v)(t := enter (r_cont R f r))\<rparr>)"
| v_return: "inside v t = Some (False, f) \<Longrightarrow> t \<notin> asleep v \<Longrightarrow> r_fetch R Futex f = Syscall c \<Longrightarrow>
    decode c = Some (Wait Futex x tmo) \<Longrightarrow> word v \<noteq> None \<Longrightarrow>
    vstep R v (v\<lparr>inside := (inside v)(t := enter (r_cont R f (Ret r e)))\<rparr>)"
| v_block: "inside v t = Some (False, f) \<Longrightarrow> t \<notin> asleep v \<Longrightarrow> r_fetch R Futex f = Syscall c \<Longrightarrow>
    decode c = Some (Wait Futex x tmo) \<Longrightarrow> word v = Some x \<Longrightarrow>
    vstep R v (v\<lparr>inside := (inside v)(t \<mapsto> (True, f)), asleep := insert t (asleep v)\<rparr>)"
| v_wake: "inside v t = Some (False, f) \<Longrightarrow> t \<notin> asleep v \<Longrightarrow> r_fetch R Futex f = Syscall c \<Longrightarrow>
    decode c = Some (Wake Futex k) \<Longrightarrow> 0 < k \<Longrightarrow> word v \<noteq> None \<Longrightarrow> W \<subseteq> asleep v \<Longrightarrow> finite W \<Longrightarrow>
    int (card W) \<le> k \<Longrightarrow> W = asleep v \<or> int (card W) = k \<Longrightarrow>
    vstep R v (v\<lparr>inside := (inside v)(t := enter (r_cont R f (Ret (int (card W)) 0))),
      asleep := asleep v - W\<rparr>)"
| v_resume: "inside v t = Some (True, f) \<Longrightarrow> r_fetch R Futex f = Syscall c \<Longrightarrow>
    decode c = Some (Wait Futex x tmo) \<Longrightarrow> word v \<noteq> None \<Longrightarrow>
    vstep R v (v\<lparr>inside := (inside v)(t := enter (r_cont R f (Ret r e))), asleep := asleep v - {t}\<rparr>)"
| v_drop: "Q \<subseteq> asleep v \<Longrightarrow> vstep R v (v\<lparr>asleep := Q\<rparr>)"

text \<open>Before the main thread has initialised the futex nobody is inside.\<close>

definition view_start :: "'f view \<Rightarrow> bool" where
  "view_start v \<longleftrightarrow> word v = None \<and> inside v = (\<lambda>_. None) \<and> asleep v = {}"

section \<open>Steps of the harness as steps of the view\<close>

lemma view_simps [simp]:
  "inside (view_of s) t = test_at (athr s t)" "asleep (view_of s) = {t. aq s t = Some Futex}"
  "word (view_of s) = (if started (main_at (athr s 0)) then Some (amem s Futex) else None)"
  by (simp_all add: view_of_def)

lemma test_at_enter [simp]: "test_at (run_worker (enter_after f)) = enter f"
  by (cases f) (simp_all add: enter_after_def enter_def)

lemma view_eqI:
  assumes "started (main_at (athr s' 0)) = started (main_at (athr s 0))"
    and "started (main_at (athr s 0)) \<Longrightarrow> amem s' Futex = amem s Futex"
    and "\<And>t. test_at (athr s' t) = test_at (athr s t)"
    and "\<And>t. aq s' t = Some Futex \<longleftrightarrow> aq s t = Some Futex"
  shows "view_of s' = view_of s"
  using assms by (simp add: view_of_def)

lemma queued_running: "queued_at s \<Longrightarrow> athr s t = Running l \<Longrightarrow> aq s t = None"
  unfolding queued_at_def by (metis not_Some_eq tstatus.distinct(7))

lemma queued_futex: "queued_at s \<Longrightarrow> aq s t = Some Futex \<Longrightarrow> \<exists>f. athr s t = Blocked (Worker (Test f))"
  unfolding queued_at_def by blast

text \<open>What an update of the state does to the view.\<close>

lemma view_agoto: "0 < t \<Longrightarrow> view_of (agoto t st s) = (view_of s)\<lparr>inside := (inside (view_of s))(t := test_at st)\<rparr>"
  by (auto simp: view_of_def)

lemma view_agoto_mem: "0 < t \<Longrightarrow> started (main_at (athr s 0)) \<Longrightarrow> view_of (agoto t st (s\<lparr>amem := m\<rparr>)) =
    (view_of s)\<lparr>word := Some (m Futex), inside := (inside (view_of s))(t := test_at st)\<rparr>"
  by (auto simp: view_of_def)

lemma view_agoto_aq: "0 < t \<Longrightarrow> {u. q u = Some Futex} = Q \<Longrightarrow> view_of (agoto t st (s\<lparr>aq := q\<rparr>)) =
    (view_of s)\<lparr>inside := (inside (view_of s))(t := test_at st), asleep := Q\<rparr>"
  by (auto simp: view_of_def)

text \<open>A step of a thread that is inside the function.\<close>

lemma routine_vstep:
  assumes inv: "life_inv n s" "queued_at s" and t: "0 < t"
  shows "athr s t = run_worker Test_loops \<Longrightarrow>
      vstep R (view_of s) (view_of (agoto t (run_worker (enter_after (r_start R l))) s))"
    and "athr s t = run_worker (Test f) \<Longrightarrow> exec_mem (r_fetch R Futex f) (amem s) = Some (r, m) \<Longrightarrow>
      vstep R (view_of s) (view_of (agoto t (run_worker (enter_after (r_cont R f r))) (s\<lparr>amem := m\<rparr>)))"
    and "athr s t = run_worker (Test f) \<Longrightarrow> r_fetch R Futex f = Syscall c \<Longrightarrow> decode c = Some (Wait Futex x tmo) \<Longrightarrow>
      vstep R (view_of s) (view_of (agoto t (run_worker (enter_after (r_cont R f (Ret k e)))) s))"
    and "athr s t = run_worker (Test f) \<Longrightarrow> r_fetch R Futex f = Syscall c \<Longrightarrow> decode c = Some (Wait Futex x tmo) \<Longrightarrow>
      amem s Futex = x \<Longrightarrow>
      vstep R (view_of s) (view_of (agoto t (Blocked (Worker (Test f))) (s\<lparr>aq := (aq s)(t \<mapsto> Futex)\<rparr>)))"
    and "athr s t = run_worker (Test f) \<Longrightarrow> r_fetch R Futex f = Syscall c \<Longrightarrow> decode c = Some (Wake Futex k) \<Longrightarrow>
      0 < k \<Longrightarrow> finite W \<Longrightarrow> W \<subseteq> {u. aq s u = Some Futex} \<Longrightarrow> int (card W) \<le> k \<Longrightarrow>
      W = {u. aq s u = Some Futex} \<or> int (card W) = k \<Longrightarrow>
      vstep R (view_of s) (view_of (agoto t (run_worker (enter_after (r_cont R f (Ret (int (card W)) 0))))
        (s\<lparr>aq := (\<lambda>u. if u \<in> W then None else aq s u)\<rparr>)))"
    and "athr s t = Blocked (Worker (Test f)) \<Longrightarrow> r_fetch R Futex f = Syscall c \<Longrightarrow>
      decode c = Some (Wait Futex x tmo) \<Longrightarrow>
      vstep R (view_of s) (view_of (agoto t (run_worker (enter_after (r_cont R f (Ret k e))))
        (s\<lparr>aq := (aq s)(t := None)\<rparr>)))"
proof -
  note st = worker_started [OF inv(1) t] and run = queued_running [OF inv(2), of t]
  show "vstep R (view_of s) (view_of (agoto t (run_worker (enter_after (r_start R l))) s))"
    if "athr s t = run_worker Test_loops"
    using that t st run v_start [of "view_of s" t R l] by (simp add: view_agoto)
  show "vstep R (view_of s) (view_of (agoto t (Blocked (Worker (Test f))) (s\<lparr>aq := (aq s)(t \<mapsto> Futex)\<rparr>)))"
    if "athr s t = run_worker (Test f)" "r_fetch R Futex f = Syscall c" "decode c = Some (Wait Futex x tmo)"
      "amem s Futex = x"
    using that t st run v_block [of "view_of s" t f R c x tmo]
    by (subst view_agoto_aq [where Q = "insert t (asleep (view_of s))"]) auto
  show "vstep R (view_of s) (view_of (agoto t (run_worker (enter_after (r_cont R f (Ret k e))))
        (s\<lparr>aq := (aq s)(t := None)\<rparr>)))"
    if "athr s t = Blocked (Worker (Test f))" "r_fetch R Futex f = Syscall c" "decode c = Some (Wait Futex x tmo)"
    using that t st v_resume [of "view_of s" t f R c x tmo k e]
    by (subst view_agoto_aq [where Q = "asleep (view_of s) - {t}"]) auto
  show "vstep R (view_of s) (view_of (agoto t (run_worker (enter_after (r_cont R f (Ret (int (card W)) 0))))
        (s\<lparr>aq := (\<lambda>u. if u \<in> W then None else aq s u)\<rparr>)))"
    if "athr s t = run_worker (Test f)" "r_fetch R Futex f = Syscall c" "decode c = Some (Wake Futex k)"
      "0 < k" "finite W" "W \<subseteq> {u. aq s u = Some Futex}" "int (card W) \<le> k"
      "W = {u. aq s u = Some Futex} \<or> int (card W) = k"
    using that t st run v_wake [of "view_of s" t f R c k W]
    by (subst view_agoto_aq [where Q = "asleep (view_of s) - W"]) auto
  show "vstep R (view_of s) (view_of (agoto t (run_worker (enter_after (r_cont R f r))) (s\<lparr>amem := m\<rparr>)))"
    if "athr s t = run_worker (Test f)" "exec_mem (r_fetch R Futex f) (amem s) = Some (r, m)"
    using that t st run v_mem [of "view_of s" t f "amem s" R r m] by (simp add: view_agoto_mem)
qed (use t worker_started [OF inv(1) t] queued_running [OF inv(2), of t]
    v_return [of "view_of s" t f R c x tmo k e] in \<open>simp add: view_agoto\<close>)

lemma hstep_vstep:
  assumes "hstep R it n s s'" and inv: "status_inv n s" "life_inv n s" "queued_at s"
  shows "vstep R (view_of s) (view_of s') \<or> view_of s' = view_of s"
  using assms(1)
proof cases
  case h_init_futex
  have "inside (view_of s) t = None" for t
    using h_init_futex(2) life_main(1) [OF inv(2) _ h_init_futex(2), of t] by (cases "t = 0") auto
  with h_init_futex have "vstep R (view_of s) ((view_of s)\<lparr>word := Some 0\<rparr>)"
    by (intro v_init) simp_all
  also have "(view_of s)\<lparr>word := Some 0\<rparr> = view_of s'"
    using h_init_futex by (auto simp: view_of_def)
  finally show ?thesis ..
next
  case (h_tick q)
  then have "{t. q t = Some Futex} \<subseteq> asleep (view_of s)" by (auto simp: map_le_def dom_def)
  moreover have "view_of s' = (view_of s)\<lparr>asleep := {t. q t = Some Futex}\<rparr>"
    using h_tick(1) by (simp add: view_of_def)
  ultimately show ?thesis using v_drop by metis
next
  case (h_loops t)
  with routine_vstep(1) [OF inv(2,3)] show ?thesis by simp
next
  case (h_routine t f r m)
  with routine_vstep(2) [OF inv(2,3)] show ?thesis by simp
next
  case (h_routine_return t f c v tmo r e)
  with routine_vstep(3) [OF inv(2,3)] show ?thesis by simp
next
  case (h_routine_block t f c v tmo)
  with routine_vstep(4) [OF inv(2,3)] show ?thesis by simp
next
  case (h_routine_wake t f c k W)
  with routine_vstep(5) [OF inv(2,3), of t f R c k W] show ?thesis by simp
next
  case (h_routine_resume t f c v tmo r e)
  with routine_vstep(6) [OF inv(2,3)] show ?thesis by simp
qed (rule disjI2, rule view_eqI, auto simp: abort_join_def split: if_splits nat.splits
    dest: queued_futex [OF inv(3)]; fail)+

section \<open>Invariants of the measured function\<close>

locale view_invariant = locktest_routine R for R :: "'f routine" +
  fixes vinv :: "'f view \<Rightarrow> bool"
  assumes vinv_start: "view_start v \<Longrightarrow> vinv v"
    and vinv_kept: "vinv v \<Longrightarrow> vstep R v v' \<Longrightarrow> vinv v'"
begin

lemma reach_vinv:
  "reach (locktest_init it n) (astep (locktest R it n)) s \<Longrightarrow> harness_inv R it n s \<and> vinv (view_of s)"
proof (induction rule: reach.induct)
  case (reach_start s)
  then have "view_start (view_of s)"
    by (auto simp: locktest_init_def ainit_def start_threads_def view_start_def view_of_def)
  with reach_start show ?case using harness.inv_start vinv_start by blast
next
  case (reach_more s s')
  then have inv: "harness_inv R it n s" by blast
  note step = astep_hstep [OF reach_more.hyps(2) harness_invD(7) [OF inv] status_typed [OF harness_invD(1) [OF inv]]]
  have "vstep R (view_of s) (view_of s') \<or> view_of s' = view_of s"
    by (rule hstep_vstep [OF step harness_invD(1,2) [OF inv] queued_harness [OF inv]])
  with reach_more show ?case using harness.inv_kept vinv_kept by metis
qed

lemma locktest_reach_vinv: "locktest_reach K R it n s \<Longrightarrow> vinv (view_of (abs_state K s))"
  using reach_vinv reach_locktest_init by blast

end

end
