(* ===== verification/Futex_Wait.thy ===== *)
theory Futex_Wait
  imports Harness_View
begin

text \<open>
  \<^verbatim>\<open>performance/futex_wait.c\<close>: the futex lock \<^verbatim>\<open>futex_wait_lock\<close> / \<^verbatim>\<open>futex_cmpxchg_unlock\<close>, the
  measured loop \<^verbatim>\<open>futex_wait_test\<close>, and the command line.  The futex word is 0 when the
  lock is free, 1 when it is held and nobody waits, 2 when it is held and somebody may wait.

  The lemmas prove the lock on the view of the measured function (theory \<open>Harness_View\<close>):
  mutual exclusion, the meaning of the futex word, and that no wake-up is lost; the
  interpretations at the end carry them to every run of the harness.
\<close>

section \<open>The lock\<close>

text \<open>A control point per access to the futex; \<^verbatim>\<open>status\<close> is the value it gave.  \<open>None\<close> is the
  return of the function.\<close>

datatype lock_pc = Lock_read | Lock_cas01 | Lock_cas12 | Lock_wait | Lock_reread | Lock_cas02

datatype unlock_pc = Unlock_read | Unlock_cas10 | Unlock_cas20 | Unlock_wake

text \<open>The head of \<^verbatim>\<open>while (status != 0)\<close>.\<close>

definition lock_loop :: "u32 \<Rightarrow> lock_pc option" where
  "lock_loop status =
     (if status \<noteq> 0 then (if status = 1 then Some Lock_cas12 else Some Lock_wait) else None)"

fun futex_wait_lock_fetch :: "'a \<Rightarrow> lock_pc \<Rightarrow> ('a, 'l) instr" where
  "futex_wait_lock_fetch fut Lock_read = Load fut"
| "futex_wait_lock_fetch fut Lock_cas01 = Cmpxchg fut 0 1"
| "futex_wait_lock_fetch fut Lock_cas12 = Cmpxchg fut 1 2"
| "futex_wait_lock_fetch fut Lock_wait = Syscall (futex_wait fut 2 None FUTEX_PRIVATE_FLAG)"
| "futex_wait_lock_fetch fut Lock_reread = Load fut"
| "futex_wait_lock_fetch fut Lock_cas02 = Cmpxchg fut 0 2"

fun futex_wait_lock_cont :: "lock_pc \<Rightarrow> resp \<Rightarrow> lock_pc option" where
  "futex_wait_lock_cont Lock_read r =
     (if resp_val r = 0 then Some Lock_cas01 else lock_loop (resp_val r))"
| "futex_wait_lock_cont Lock_cas01 r = lock_loop (resp_val r)"
| "futex_wait_lock_cont Lock_cas12 r = (if resp_val r \<noteq> 0 then Some Lock_wait else Some Lock_cas02)"
| "futex_wait_lock_cont Lock_wait r = Some Lock_reread"
| "futex_wait_lock_cont Lock_reread r =
     (if resp_val r = 0 then Some Lock_cas02 else lock_loop (resp_val r))"
| "futex_wait_lock_cont Lock_cas02 r = lock_loop (resp_val r)"

fun futex_cmpxchg_unlock_fetch :: "'a \<Rightarrow> unlock_pc \<Rightarrow> ('a, 'l) instr" where
  "futex_cmpxchg_unlock_fetch fut Unlock_read = Load fut"
| "futex_cmpxchg_unlock_fetch fut Unlock_cas10 = Cmpxchg fut 1 0"
| "futex_cmpxchg_unlock_fetch fut Unlock_cas20 = Cmpxchg fut 2 0"
| "futex_cmpxchg_unlock_fetch fut Unlock_wake = Syscall (futex_wake fut 1 FUTEX_PRIVATE_FLAG)"

fun futex_cmpxchg_unlock_cont :: "unlock_pc \<Rightarrow> resp \<Rightarrow> unlock_pc option" where
  "futex_cmpxchg_unlock_cont Unlock_read r =
     (if resp_val r = 1 then Some Unlock_cas10
      else if resp_val r = 2 then Some Unlock_cas20 else None)"
| "futex_cmpxchg_unlock_cont Unlock_cas10 r = (if resp_val r = 2 then Some Unlock_cas20 else None)"
| "futex_cmpxchg_unlock_cont Unlock_cas20 r = Some Unlock_wake"
| "futex_cmpxchg_unlock_cont Unlock_wake r = None"

section \<open>The measured loop\<close>

text \<open>The local variable \<^verbatim>\<open>loops\<close>, and where in the loop body the thread is.\<close>

datatype body = Locking lock_pc | Unlocking unlock_pc

type_synonym test_pc = "int \<times> body"

definition while_loops :: "int \<Rightarrow> test_pc option" where
  "while_loops loops = (if loops \<noteq> 0 then Some (s32 (loops - 1), Locking Lock_read) else None)"

fun futex_wait_test_fetch :: "loc \<Rightarrow> test_pc \<Rightarrow> (loc, test_pc local) instr" where
  "futex_wait_test_fetch fut (loops, Locking p) = futex_wait_lock_fetch fut p"
| "futex_wait_test_fetch fut (loops, Unlocking p) = futex_cmpxchg_unlock_fetch fut p"

fun futex_wait_test_cont :: "test_pc \<Rightarrow> resp \<Rightarrow> test_pc option" where
  "futex_wait_test_cont (loops, Locking p) r =
     (case futex_wait_lock_cont p r of
        Some p' \<Rightarrow> Some (loops, Locking p')
      | None \<Rightarrow> Some (loops, Unlocking Unlock_read))"
| "futex_wait_test_cont (loops, Unlocking p) r =
     (case futex_cmpxchg_unlock_cont p r of
        Some p' \<Rightarrow> Some (loops, Unlocking p')
      | None \<Rightarrow> while_loops loops)"

definition futex_wait_test :: "test_pc routine" where
  "futex_wait_test =
     \<lparr>r_start = while_loops, r_fetch = futex_wait_test_fetch, r_cont = futex_wait_test_cont\<rparr>"

lemma futex_wait_test_simps [simp]:
  "r_start futex_wait_test = while_loops" "r_fetch futex_wait_test = futex_wait_test_fetch"
  "r_cont futex_wait_test = futex_wait_test_cont"
  by (simp_all add: futex_wait_test_def)

section \<open>The lock invariant\<close>

text \<open>Roles of a thread inside the loop: it holds the lock from the return of
  \<^verbatim>\<open>futex_wait_lock\<close> to the exchange that stores 0; it is about to wake somebody; it is about
  to look at the futex again.\<close>

fun holds :: "(bool \<times> test_pc) option \<Rightarrow> bool" where
  "holds (Some (False, (loops, Unlocking p))) = (p \<noteq> Unlock_wake)"
| "holds _ = False"

fun waking :: "(bool \<times> test_pc) option \<Rightarrow> bool" where
  "waking (Some (False, (loops, Unlocking p))) = (p = Unlock_wake)"
| "waking _ = False"

fun retrying :: "(bool \<times> test_pc) option \<Rightarrow> bool" where
  "retrying (Some (False, (loops, Locking p))) = (p = Lock_cas12 \<or> p = Lock_reread \<or> p = Lock_cas02)"
| "retrying (Some (True, (loops, p))) = (p = Locking Lock_wait)"
| "retrying _ = False"

fun contended :: "(bool \<times> test_pc) option \<Rightarrow> bool" where
  "contended (Some (False, (loops, Unlocking p))) = (p = Unlock_cas20)"
| "contended _ = False"

definition lock_word :: "u32 \<Rightarrow> test_pc view \<Rightarrow> bool" where
  "lock_word w v \<longleftrightarrow> w \<in> {0, 1, 2} \<and> (w = 0 \<longleftrightarrow> (\<forall>t. \<not> holds (inside v t))) \<and>
     (\<forall>t. contended (inside v t) \<longrightarrow> w = 2)"

definition one_holder :: "test_pc view \<Rightarrow> bool" where
  "one_holder v \<longleftrightarrow> (\<forall>t u. holds (inside v t) \<and> holds (inside v u) \<longrightarrow> t = u)"

definition sleepers :: "test_pc view \<Rightarrow> bool" where
  "sleepers v \<longleftrightarrow> (\<forall>t\<in>asleep v. \<exists>l. inside v t = Some (True, (l, Locking Lock_wait)))"

definition wake_pending :: "u32 \<Rightarrow> test_pc view \<Rightarrow> bool" where
  "wake_pending w v \<longleftrightarrow> asleep v = {} \<or> w = 2 \<or>
     (\<exists>t. t \<notin> asleep v \<and> (waking (inside v t) \<or> retrying (inside v t)))"

definition lock_inv :: "test_pc view \<Rightarrow> bool" where
  "lock_inv v \<longleftrightarrow>
     (case word v of
        None \<Rightarrow> inside v = (\<lambda>_. None) \<and> asleep v = {}
      | Some w \<Rightarrow> lock_word w v \<and> one_holder v \<and> sleepers v \<and> wake_pending w v)"

text \<open>What one step of a thread may do to the futex, by the role it had and the role it gets.\<close>

definition lock_move :: "u32 \<Rightarrow> (bool \<times> test_pc) option \<Rightarrow> u32 \<Rightarrow> (bool \<times> test_pc) option \<Rightarrow> bool" where
  "lock_move w x w' x' \<longleftrightarrow>
     w' \<in> {0, 1, 2} \<and>
     (holds x \<longrightarrow> (w' = 0 \<longleftrightarrow> \<not> holds x')) \<and>
     (\<not> holds x \<longrightarrow> (if holds x' then w = 0 \<and> w' \<noteq> 0 else (w' = 0 \<longleftrightarrow> w = 0))) \<and>
     (\<not> holds x \<and> w = 2 \<longrightarrow> w' = 2) \<and>
     (contended x' \<longrightarrow> w' = 2) \<and>
     (w = 2 \<and> w' \<noteq> 2 \<longrightarrow> waking x') \<and>
     (retrying x \<longrightarrow> retrying x' \<or> w' = 2)"

lemma contended_holds: "contended x \<Longrightarrow> holds x"
  by (cases x rule: contended.cases) auto

lemma lock_move_word:
  assumes w: "lock_word w v" "one_holder v" and move: "lock_move w (inside v t) w' x'"
  shows "lock_word w' (v\<lparr>word := q, inside := (inside v)(t := x'), asleep := Q\<rparr>)"
proof -
  have others: "\<not> holds (inside v u)" if "holds (inside v t)" "u \<noteq> t" for u
    using w(2) that unfolding one_holder_def by blast
  have "w' = 0 \<longleftrightarrow> (\<forall>u. \<not> holds (((inside v)(t := x')) u))"
  proof (cases "holds (inside v t)")
    case True
    with others have "(\<forall>u. \<not> holds (((inside v)(t := x')) u)) \<longleftrightarrow> \<not> holds x'" by auto
    with True move show ?thesis by (simp add: lock_move_def)
  next
    case False
    then have "(\<forall>u. \<not> holds (((inside v)(t := x')) u)) \<longleftrightarrow> \<not> holds x' \<and> (\<forall>u. \<not> holds (inside v u))" by auto
    with False move w(1) show ?thesis by (simp add: lock_move_def lock_word_def split: if_splits)
  qed
  moreover have "w' = 2" if "contended (((inside v)(t := x')) u)" for u
    using that move w(1) others contended_holds [of "inside v u"]
    by (cases "u = t") (auto simp: lock_move_def lock_word_def)
  moreover have "w' \<in> {0, 1, 2}" using move by (simp add: lock_move_def)
  ultimately show ?thesis by (simp add: lock_word_def)
qed

lemma lock_move_holder:
  assumes w: "lock_word w v" "one_holder v" and move: "lock_move w (inside v t) w' x'"
  shows "one_holder (v\<lparr>word := q, inside := (inside v)(t := x'), asleep := Q\<rparr>)"
proof -
  have "\<not> holds (inside v u)" if "holds x'" "u \<noteq> t" for u
    using w move that unfolding one_holder_def lock_word_def lock_move_def by (metis (full_types))
  with w(2) show ?thesis by (auto simp: one_holder_def)
qed

text \<open>If somebody still sleeps, the one who moved or the one who was to act before is still there.\<close>

lemma lock_move_pending:
  assumes "wake_pending w v" and move: "lock_move w (inside v t) w' x'" and t: "t \<notin> Q"
    and Q: "Q \<subseteq> asleep v"
    and woken: "waking (inside v t) \<Longrightarrow> Q = {} \<or> (\<exists>u. u \<noteq> t \<and> u \<notin> Q \<and> retrying (inside v u))"
  shows "wake_pending w' (v\<lparr>word := q, inside := (inside v)(t := x'), asleep := Q\<rparr>)"
proof -
  have pending: "wake_pending w' (v\<lparr>word := q, inside := (inside v)(t := x'), asleep := Q\<rparr>)"
    if "waking (((inside v)(t := x')) u) \<or> retrying (((inside v)(t := x')) u)" "u \<notin> Q" for u
    using that unfolding wake_pending_def by (intro disjI2 exI [of _ u]) simp
  consider "Q = {} \<or> w' = 2" | "waking x' \<or> retrying x'"
    | "Q \<noteq> {}" "w' \<noteq> 2" "w \<noteq> 2" "\<not> retrying (inside v t)"
    using move unfolding lock_move_def by blast
  then show ?thesis
  proof cases
    case 1
    then show ?thesis by (auto simp: wake_pending_def)
  next
    case 2
    with t pending [of t] show ?thesis by simp
  next
    case 3
    with assms(1) Q obtain u where u: "u \<notin> asleep v" "waking (inside v u) \<or> retrying (inside v u)"
      unfolding wake_pending_def by blast
    show ?thesis
    proof (cases "u = t")
      case True
      with 3 u woken obtain u' where "u' \<noteq> t" "u' \<notin> Q" "retrying (inside v u')" by auto
      with pending [of u'] show ?thesis by simp
    next
      case False
      with u Q pending [of u] show ?thesis by auto
    qed
  qed
qed

section \<open>Every step keeps the lock invariant\<close>

lemma lock_invD:
  assumes "lock_inv v" "word v = Some w"
  shows "lock_word w v" "one_holder v" "sleepers v" "wake_pending w v"
  using assms by (auto simp: lock_inv_def)

lemma lock_inv_move:
  assumes inv: "lock_inv v" "word v = Some w" and move: "lock_move w (inside v t) w' x'"
    and Q: "t \<notin> Q" "Q \<subseteq> asleep v"
    and woken: "waking (inside v t) \<Longrightarrow> Q = {} \<or> (\<exists>u. u \<noteq> t \<and> u \<notin> Q \<and> retrying (inside v u))"
  shows "lock_inv (v\<lparr>word := Some w', inside := (inside v)(t := x'), asleep := Q\<rparr>)"
  using lock_move_word [OF lock_invD(1,2) [OF inv] move, where q = "Some w'" and Q = Q]
    lock_move_holder [OF lock_invD(1,2) [OF inv] move, where q = "Some w'" and Q = Q]
    lock_move_pending [OF lock_invD(4) [OF inv] move Q woken, where q = "Some w'"]
    lock_invD(3) [OF inv] Q
  by (auto simp: lock_inv_def sleepers_def)

lemma lock_inv_turn:
  assumes inv: "lock_inv v" "word v = Some w" and move: "lock_move w (inside v t) w x'"
    and Q: "t \<notin> Q" "Q \<subseteq> asleep v"
    and woken: "waking (inside v t) \<Longrightarrow> Q = {} \<or> (\<exists>u. u \<noteq> t \<and> u \<notin> Q \<and> retrying (inside v u))"
  shows "lock_inv (v\<lparr>inside := (inside v)(t := x'), asleep := Q\<rparr>)"
proof -
  have "v\<lparr>word := Some w, inside := (inside v)(t := x'), asleep := Q\<rparr> =
      v\<lparr>inside := (inside v)(t := x'), asleep := Q\<rparr>"
    using inv(2) by (cases v) simp
  with lock_inv_move [OF inv move Q woken] show ?thesis by simp
qed

lemma while_loops_role [simp]:
  "\<not> holds (enter (while_loops l))" "\<not> contended (enter (while_loops l))"
  "\<not> waking (enter (while_loops l))" "\<not> retrying (enter (while_loops l))"
  by (simp_all add: while_loops_def enter_def)

lemma test_pc_cases:
  fixes f :: test_pc
  obtains l where "f = (l, Locking Lock_read)" | l where "f = (l, Locking Lock_cas01)"
  | l where "f = (l, Locking Lock_cas12)" | l where "f = (l, Locking Lock_wait)"
  | l where "f = (l, Locking Lock_reread)" | l where "f = (l, Locking Lock_cas02)"
  | l where "f = (l, Unlocking Unlock_read)" | l where "f = (l, Unlocking Unlock_cas10)"
  | l where "f = (l, Unlocking Unlock_cas20)" | l where "f = (l, Unlocking Unlock_wake)"
proof -
  obtain l p where f: "f = (l, p)" by (cases f)
  show thesis
  proof (cases p)
    case (Locking q)
    with f that(1-6) show thesis by (cases q) blast+
  next
    case (Unlocking q)
    with f that(7-10) show thesis by (cases q) blast+
  qed
qed

lemma lock_move_mem:
  assumes "w \<in> {0, 1, 2}" "holds (Some (False, f)) \<Longrightarrow> w \<noteq> 0" "contended (Some (False, f)) \<Longrightarrow> w = 2"
    and "m Futex = w" "exec_mem (futex_wait_test_fetch Futex f) m = Some (r, m')"
  shows "lock_move w (Some (False, f)) (m' Futex) (enter (futex_wait_test_cont f r))"
  using assms by (cases f rule: test_pc_cases)
    (auto simp: lock_move_def enter_def lock_loop_def while_loops_def futex_atomic_defs sync_defs)

lemma wait_at:
  assumes "futex_wait_test_fetch Futex f = Syscall c"
  shows "decode c = Some (Wait Futex x tmo) \<Longrightarrow> x = 2 \<and> (\<exists>l. f = (l, Locking Lock_wait))"
    and "decode c = Some (Wake Futex k) \<Longrightarrow> k = 1 \<and> (\<exists>l. f = (l, Unlocking Unlock_wake))"
  using assms by (cases f rule: test_pc_cases, auto)+

interpretation fw: locktest_routine futex_wait_test
proof
  fix p f
  show "instr_on p (r_fetch futex_wait_test p f)"
    by (cases f rule: test_pc_cases) (simp_all add: instr_on_def)
qed

text \<open>A thread that goes to sleep found the futex contended.\<close>

lemma lock_inv_block:
  assumes inv: "lock_inv v" "word v = Some 2" and t: "inside v t = Some (False, (l, Locking Lock_wait))"
  shows "lock_inv (v\<lparr>inside := (inside v)(t \<mapsto> (True, (l, Locking Lock_wait))),
    asleep := insert t (asleep v)\<rparr>)"
proof -
  let ?I = "(inside v)(t \<mapsto> (True, (l, Locking Lock_wait)))"
  have same: "holds (?I u) = holds (inside v u)" "contended (?I u) = contended (inside v u)" for u
    using t by auto
  show ?thesis
    using lock_invD [OF inv] inv(2) unfolding lock_inv_def lock_word_def one_holder_def
    by (auto simp: same sleepers_def wake_pending_def simp del: fun_upd_apply) (auto simp: fun_upd_apply)
qed

lemma lock_step_mem:
  assumes inv: "lock_inv v" "word v = Some (m Futex)" and t: "inside v t = Some (False, f)" "t \<notin> asleep v"
    and x: "exec_mem (futex_wait_test_fetch Futex f) m = Some (r, m')"
  shows "lock_inv (v\<lparr>word := Some (m' Futex), inside := (inside v)(t := enter (futex_wait_test_cont f r))\<rparr>)"
proof -
  have "lock_move (m Futex) (inside v t) (m' Futex) (enter (futex_wait_test_cont f r))"
    unfolding t(1)
  proof (rule lock_move_mem)
    show "m Futex \<in> {0, 1, 2}" using lock_invD(1) [OF inv] unfolding lock_word_def by blast
    show "holds (Some (False, f)) \<Longrightarrow> m Futex \<noteq> 0" "contended (Some (False, f)) \<Longrightarrow> m Futex = 2"
      using lock_invD(1) [OF inv] t(1) unfolding lock_word_def by metis+
  qed (use x in simp_all)
  moreover have "\<not> waking (inside v t)" using t(1) x by (cases f rule: test_pc_cases) auto
  ultimately show ?thesis using lock_inv_move [OF inv, of t "m' Futex" _ "asleep v"] t(2) by simp
qed

lemma lock_step_wake:
  assumes inv: "lock_inv v" "word v = Some w" and t: "inside v t = Some (False, (l, Unlocking Unlock_wake))" "t \<notin> asleep v"
    and W: "W \<subseteq> asleep v" "W = asleep v \<or> card W = 1"
  shows "lock_inv (v\<lparr>inside := (inside v)(t := enter (while_loops l)), asleep := asleep v - W\<rparr>)"
proof -
  have move: "lock_move w (inside v t) w (enter (while_loops l))"
    using lock_invD(1) [OF inv] t(1) by (auto simp: lock_move_def lock_word_def)
  have woken: "asleep v - W = {} \<or> (\<exists>u. u \<noteq> t \<and> u \<notin> asleep v - W \<and> retrying (inside v u))"
  proof (cases "W = asleep v")
    case False
    with W(2) obtain u where "W = {u}" by (auto simp: card_1_singleton_iff)
    moreover from this obtain l' where "inside v u = Some (True, (l', Locking Lock_wait))"
      using W(1) lock_invD(3) [OF inv] by (auto simp: sleepers_def)
    ultimately show ?thesis using t(2) W(1) by auto
  qed simp
  from lock_inv_turn [OF inv move _ _ woken] t(2) show ?thesis by simp
qed

lemma lock_inv_kept:
  assumes inv: "lock_inv v" and "vstep futex_wait_test v v'"
  shows "lock_inv v'"
  using assms(2)
proof cases
  case v_init
  with inv show ?thesis
    by (auto simp: lock_inv_def lock_word_def one_holder_def sleepers_def wake_pending_def)
next
  case (v_start t l)
  then obtain w where w: "word v = Some w" by auto
  have "lock_move w (inside v t) w (enter (while_loops l))"
    using lock_invD(1) [OF inv w] v_start by (auto simp: lock_move_def lock_word_def)
  from lock_inv_turn [OF inv w this, of "asleep v"] v_start w show ?thesis by simp
next
  case (v_mem t f m r m')
  with lock_step_mem [OF inv, of m t f r m'] show ?thesis by simp
next
  case (v_return t f c x tmo r e)
  then obtain w l where w: "word v = Some w" and f: "f = (l, Locking Lock_wait)"
    using wait_at(1) [of f c x tmo] by auto
  have "lock_move w (inside v t) w (enter (futex_wait_test_cont f (Ret r e)))"
    using lock_invD(1) [OF inv w] v_return(2) f by (auto simp: lock_move_def lock_word_def enter_def)
  from lock_inv_turn [OF inv w this, of "asleep v"] v_return w f show ?thesis by simp
next
  case (v_block t f c x tmo)
  then show ?thesis using wait_at(1) [of f c x tmo] lock_inv_block [OF inv, of t] by auto
next
  case (v_wake t f c k W)
  then obtain w l where w: "word v = Some w" and f: "f = (l, Unlocking Unlock_wake)" "k = 1"
    using wait_at(2) [of f c k] by auto
  with v_wake lock_step_wake [OF inv w, of t l W] show ?thesis by auto
next
  case (v_resume t f c x tmo r e)
  then obtain w l where w: "word v = Some w" and f: "f = (l, Locking Lock_wait)"
    using wait_at(1) [of f c x tmo] by auto
  have "lock_move w (inside v t) w (enter (futex_wait_test_cont f (Ret r e)))"
    using lock_invD(1) [OF inv w] v_resume(2) f by (auto simp: lock_move_def lock_word_def enter_def)
  from lock_inv_turn [OF inv w this, of "asleep v - {t}"] v_resume w f show ?thesis by auto
next
  case (v_drop Q)
  with inv show ?thesis
    by (cases "word v") (auto simp: lock_inv_def lock_word_def one_holder_def sleepers_def wake_pending_def)
qed

interpretation fw: view_invariant futex_wait_test lock_inv
  by unfold_locales (simp add: view_start_def lock_inv_def, rule lock_inv_kept)

lemma test_at_cases:
  "test_at st = Some (b, f) \<Longrightarrow> st = (if b then Blocked (Worker (Test f)) else run_worker (Test f))"
  by (cases st rule: test_at.cases) auto

lemma queued_inside:
  assumes "queued_at s" "test_at (athr s u) = Some (b, f)"
  shows "aq s u = None \<or> aq s u = Some Futex \<and> b"
proof (cases "aq s u")
  case (Some a)
  with assms(1) consider v c where "athr s u = Blocked (Main (Waiting c (Bwait_block v)))"
    | c where "athr s u = Blocked (Worker (Sync c Sync_wait))"
    | g where "a = Futex" "athr s u = Blocked (Worker (Test g))"
    unfolding queued_at_def by metis
  then show ?thesis using Some test_at_cases [OF assms(2)] by cases (auto split: if_splits)
qed simp

text \<open>While somebody sleeps on the lock, somebody inside the loop is awake.\<close>

lemma somebody_awake:
  assumes lock: "lock_word w v" "wake_pending w v" and t: "t \<in> asleep v"
  obtains u b f where "inside v u = Some (b, f)" "b \<longrightarrow> u \<notin> asleep v"
proof (cases "w = 2")
  case True
  with lock(1) obtain u where "holds (inside v u)" by (auto simp: lock_word_def)
  then obtain f where "inside v u = Some (False, f)" by (cases "inside v u" rule: holds.cases) auto
  with that show thesis by blast
next
  case False
  with lock(2) t obtain u where u: "u \<notin> asleep v" "waking (inside v u) \<or> retrying (inside v u)"
    unfolding wake_pending_def by blast
  then obtain b f where "inside v u = Some (b, f)" by (cases "inside v u") auto
  with u(1) that show thesis by blast
qed

lemma lock_progress:
  assumes inv: "lock_inv (view_of s)" "harness_inv futex_wait_test it n s" and t: "aq s t = Some Futex"
  shows "\<exists>u f. (athr s u = run_worker (Test f) \<or> athr s u = Blocked (Worker (Test f))) \<and> aq s u = None"
proof -
  note q = fw.queued_harness [OF inv(2)]
  have "athr s t \<noteq> Unborn" "0 < t" using q t unfolding queued_at_def by force+
  then have "word (view_of s) = Some (amem s Futex)"
    using worker_started [OF harness_invD(2) [OF inv(2)], of t] by simp
  from lock_invD(1,4) [OF inv(1) this]
  obtain u b f where u: "test_at (athr s u) = Some (b, f)" "b \<longrightarrow> aq s u \<noteq> Some Futex"
    by (rule somebody_awake [of _ _ t]) (use t in auto)
  with queued_inside [OF q u(1)] test_at_cases [OF u(1)] show ?thesis by (metis (full_types))
qed

interpretation fw: locktest_progress futex_wait_test "\<lambda>s. lock_inv (view_of s)"
  by unfold_locales (rule lock_progress)

end
