(* ===== verification/Kernels.thy ===== *)
theory Kernels
  imports Machine
begin

text \<open>
  Two kernels for the machine.

  \<open>logged K\<close> behaves as \<open>K\<close> and keeps, in its own state, the answers \<open>K\<close> gave and the
  signals it was given: what a test
  program concludes can then be compared with what the kernel did.  \<open>K\<close> is arbitrary.

  \<open>fifo_kernel\<close> is a small kernel with a first-in-first-out wait queue and a budget of
  threads.  It keeps the documented contract (\<open>fifo_contract\<close>), so the hypotheses of the
  theorems about runs can be met, and it runs, so that concrete schedules can be evaluated.
\<close>

section \<open>A kernel with a log\<close>

datatype 'a event = Called tid "'a futex_call" int int | Created tid int | Signalled tid

definition logged :: "('a, 'k) kernel \<Rightarrow> ('a, 'k \<times> 'a event list) kernel" where
  "logged K =
     \<lparr>kcall = (\<lambda>t c m (k, log).
        case kcall K t c m k of
          (Some (r, e), m', k') \<Rightarrow> (Some (r, e), m', (k', log @ [Called t c r e]))
        | (None, m', k') \<Rightarrow> (None, m', (k', log))),
      kresume = (\<lambda>t c m (k, log).
        case kresume K t c m k of
          Some ((r, e), m', k') \<Rightarrow> Some ((r, e), m', (k', log @ [Called t c r e]))
        | None \<Rightarrow> None),
      kcreate = (\<lambda>j (k, log). case kcreate K j k of (r, k') \<Rightarrow> (r, (k', log @ [Created j r]))),
      ksignal = (\<lambda>j (k, log). (ksignal K j k, log @ [Signalled j])),
      ktick = (\<lambda>(k, log). (ktick K k, log)),
      kwaiting = (\<lambda>(k, log). kwaiting K k)\<rparr>"

abbreviation klog :: "('a, 'l, 'k \<times> 'a event list) mstate \<Rightarrow> 'a event list" where
  "klog s \<equiv> snd (ks s)"

lemma kwaiting_logged [simp]: "kwaiting (logged K) k = kwaiting K (fst k)"
  by (cases k) (simp add: logged_def)

lemma logged_wait: "wait_contract K \<Longrightarrow> wait_contract (logged K)"
  unfolding wait_contract_def
proof (intro allI impI, goal_cases)
  case (1 t c m k a v tmo)
  from 1(1) [rule_format, OF 1(2), where t = t and m = m and k = "fst k"] show ?case
    by (auto simp: logged_def split: prod.splits option.splits if_splits)
qed

lemma logged_wake: "wake_contract K \<Longrightarrow> wake_contract (logged K)"
  unfolding wake_contract_def
proof (intro allI impI, goal_cases)
  case (1 t c m k a n)
  from 1(1) [rule_format, OF 1(2,3), where t = t and m = m and k = "fst k"] obtain W k'
    where "kcall K t c m (fst k) = (Some (int (card W), 0), m, k')"
      "finite W" "W \<subseteq> {u. kwaiting K (fst k) u = Some a}" "int (card W) \<le> n"
      "W = {u. kwaiting K (fst k) u = Some a} \<or> int (card W) = n"
      "kwaiting K k' = (\<lambda>u. if u \<in> W then None else kwaiting K (fst k) u)"
    by blast
  then show ?case
    by (intro exI [of _ W] exI [of _ "(k', snd k @ [Called t c (int (card W)) 0])"])
      (cases k, simp add: logged_def cong del: if_weak_cong)
qed

lemma logged_resume: "resume_contract K \<Longrightarrow> resume_contract (logged K)"
  unfolding resume_contract_def
proof (intro allI impI, goal_cases)
  case (1 t c m k a v tmo)
  from 1(1) [rule_format, OF 1(2), where t = t and m = m and k = "fst k"] show ?case
    by (auto simp: logged_def split: prod.splits option.splits)
qed

lemma logged_contract: "futex_contract K \<Longrightarrow> futex_contract (logged K)"
proof -
  have "idle_contract K \<Longrightarrow> idle_contract (logged K)"
    by (auto simp: idle_contract_def logged_def split: prod.splits) (metis snd_conv)
  then show "futex_contract K \<Longrightarrow> futex_contract (logged K)"
    by (simp add: futex_contract_def logged_wait logged_wake logged_resume)
qed

section \<open>A first-in-first-out kernel\<close>

record 'a fifo =
  queue :: "(tid \<times> 'a) list"
  budget :: nat

definition waiters :: "'a \<Rightarrow> (tid \<times> 'a) list \<Rightarrow> tid list" where
  "waiters a q = filter (\<lambda>u. map_of q u = Some a) (remdups (map fst q))"

definition dequeue :: "tid list \<Rightarrow> (tid \<times> 'a) list \<Rightarrow> (tid \<times> 'a) list" where
  "dequeue us q = filter (\<lambda>(u, a). u \<notin> set us) q"

definition take_upto :: "int \<Rightarrow> 'b list \<Rightarrow> 'b list" where
  "take_upto n xs = (if int (length xs) \<le> n then xs else take (nat n) xs)"

definition fifo_call ::
    "tid \<Rightarrow> 'a futex_call \<Rightarrow> 'a memory \<Rightarrow> 'a fifo \<Rightarrow> (int \<times> int) option \<times> 'a memory \<times> 'a fifo" where
  "fifo_call t c m k =
     (case decode c of
        Some (Wait a v tmo) \<Rightarrow>
          (if m a \<noteq> v then (Some (- 1, EWOULDBLOCK), m, k)
           else (None, m, k\<lparr>queue := dequeue [t] (queue k) @ [(t, a)]\<rparr>))
      | Some (Wake a n) \<Rightarrow>
          (let us = take_upto n (waiters a (queue k))
           in (Some (int (length us), 0), m, k\<lparr>queue := dequeue us (queue k)\<rparr>))
      | _ \<Rightarrow> (Some (- 1, EINVAL), m, k))"

definition fifo_kernel :: "('a, 'a fifo) kernel" where
  "fifo_kernel =
     \<lparr>kcall = fifo_call,
      kresume = (\<lambda>t c m k. if map_of (queue k) t = None then Some ((0, 0), m, k) else None),
      kcreate = (\<lambda>j k. if budget k = 0 then (EAGAIN, k) else (0, k\<lparr>budget := budget k - 1\<rparr>)),
      ksignal = (\<lambda>j k. k),
      ktick = (\<lambda>k. k),
      kwaiting = (\<lambda>k. map_of (queue k))\<rparr>"

lemma kwaiting_fifo [simp]: "kwaiting fifo_kernel k = map_of (queue k)"
  by (simp add: fifo_kernel_def)

lemma map_of_dequeue: "map_of (dequeue us q) = (\<lambda>u. if u \<in> set us then None else map_of q u)"
  by (induction q) (auto simp: dequeue_def fun_eq_iff)

lemma set_waiters: "set (waiters a q) = {u. map_of q u = Some a}"
  by (auto simp: waiters_def map_of_eq_None_iff [symmetric] dest: map_of_SomeD intro!: rev_image_eqI)

lemma fifo_wake:
  fixes a :: 'a and n :: int and q :: "(tid \<times> 'a) list"
  defines "us \<equiv> take_upto n (waiters a q)"
  assumes "0 < n"
  shows "set us \<subseteq> {u. map_of q u = Some a}" "card (set us) = length us" "int (length us) \<le> n"
    "set us = {u. map_of q u = Some a} \<or> int (length us) = n"
proof -
  have us: "us = take (nat n) (waiters a q)" using assms(2) by (auto simp: us_def take_upto_def)
  show "set us \<subseteq> {u. map_of q u = Some a}"
    using set_take_subset [of "nat n" "waiters a q"] by (auto simp: us set_waiters)
  show "card (set us) = length us"
    by (simp add: us waiters_def distinct_card)
  show "int (length us) \<le> n" using assms(2) by (simp add: us)
  show "set us = {u. map_of q u = Some a} \<or> int (length us) = n"
    using assms(2) by (cases "nat n \<le> length (waiters a q)") (auto simp: us set_waiters)
qed

lemma fifo_contract: "futex_contract fifo_kernel"
proof -
  have "wake_contract fifo_kernel"
    unfolding wake_contract_def
  proof (intro allI impI, goal_cases)
    case (1 t c m k a n)
    let ?us = "take_upto n (waiters a (queue k))"
    from fifo_wake [OF 1(2), of a "queue k"] 1 show ?case
      by (intro exI [of _ "set ?us"] exI [of _ "k\<lparr>queue := dequeue ?us (queue k)\<rparr>"])
        (simp add: fifo_kernel_def fifo_call_def map_of_dequeue Let_def cong del: if_weak_cong)
  qed
  moreover have "wait_contract fifo_kernel"
    by (auto simp: wait_contract_def fifo_kernel_def fifo_call_def map_add_def map_of_dequeue fun_eq_iff
        split: option.splits)
  moreover have "resume_contract fifo_kernel"
    by (auto simp: resume_contract_def fifo_kernel_def)
  moreover have "idle_contract fifo_kernel"
    by (simp add: idle_contract_def fifo_kernel_def)
  ultimately show ?thesis by (simp add: futex_contract_def)
qed

lemma fifo_wait: "wait_contract fifo_kernel"
  by (rule fifo_contract [unfolded futex_contract_def, THEN conjunct1])

section \<open>A kernel that answers by a script\<close>

text \<open>It never blocks a call, gives the prepared answers one after the other, and \<^verbatim>\<open>EINVAL\<close> when it
  has run out of them.\<close>

definition script_kernel :: "('a, (int \<times> int) list) kernel" where
  "script_kernel =
     \<lparr>kcall = (\<lambda>t c m k. case k of [] \<Rightarrow> (Some (- 1, EINVAL), m, []) | a # as \<Rightarrow> (Some a, m, as)),
      kresume = (\<lambda>t c m k. None),
      kcreate = (\<lambda>j k. (0, k)),
      ksignal = (\<lambda>j k. k),
      ktick = (\<lambda>k. k),
      kwaiting = (\<lambda>k. (\<lambda>_. None))\<rparr>"

section \<open>Schedules are runs\<close>

lemma run_schedule_reach:
  "reach init (mstep K P) s \<Longrightarrow> run_schedule K P ts s = Some s' \<Longrightarrow> reach init (mstep K P) s'"
proof (induction ts arbitrary: s)
  case (Cons t ts)
  then obtain s1 where "tstep K P t s = Some s1" "run_schedule K P ts s1 = Some s'"
    by (auto split: option.splits)
  with Cons show ?case by (blast intro: reach_more mstep_thread)
qed simp

lemma run_schedule_append:
  "run_schedule K P (ts @ us) s = Option.bind (run_schedule K P ts s) (run_schedule K P us)"
  by (induction ts arbitrary: s) (simp_all split: option.splits)

end
