(* ===== verification/Performance.thy ===== *)
theory Performance
  imports Futex_Wait Kernels
begin

text \<open>
  \<^verbatim>\<open>performance/futex_wait.c\<close> as a program: its command line, and the properties of its runs
  on any kernel that keeps the documented futex contract.  \<open>locktest_reach K futex_wait_test
  it n s\<close> says that \<open>s\<close> is a state of a run of \<^verbatim>\<open>locktest(futex_wait_test, it, n)\<close> on \<open>K\<close>.
\<close>

section \<open>The command line\<close>

record fw_config =
  iterations :: int
  threads :: int
  fw_log :: log_state

definition fw_default :: fw_config where
  "fw_default = \<lparr>iterations = 100000000, threads = 256, fw_log = log_init\<rparr>"

definition futex_wait_usage :: "string \<Rightarrow> fw_config \<Rightarrow> string" where
  "futex_wait_usage prog cfg =
     usage_prog prog @ usage_color @ usage_help @
     usage_line ''  -i I'' (''Number of iterations (default: '' @ show_int (iterations cfg) @ '')'') @
     usage_line ''  -n N'' (''Number of threads (default: '' @ show_int (threads cfg) @ '')'') @
     usage_verbosity"

fun futex_wait_switch :: "string \<Rightarrow> optev \<Rightarrow> fw_config \<Rightarrow> leave + fw_config" where
  "futex_wait_switch prog (Opt c optarg) cfg =
     (if c = CHR ''c'' then Inr (cfg\<lparr>fw_log := log_color 1 (fw_log cfg)\<rparr>)
      else if c = CHR ''h'' then Inl (0, futex_wait_usage prog cfg)
      else if c = CHR ''i'' then Inr (cfg\<lparr>iterations := atoi (optarg_text optarg)\<rparr>)
      else if c = CHR ''n'' then Inr (cfg\<lparr>threads := atoi (optarg_text optarg)\<rparr>)
      else if c = CHR ''v''
        then Inr (cfg\<lparr>fw_log := log_verbosity (atoi (optarg_text optarg)) (fw_log cfg)\<rparr>)
      else Inl (1, futex_wait_usage prog cfg))"
| "futex_wait_switch prog Bad cfg = Inl (1, futex_wait_usage prog cfg)"

text \<open>\<^verbatim>\<open>main\<close> up to the call of \<^verbatim>\<open>locktest\<close>: it exits, or prints its two lines and calls
  \<^verbatim>\<open>locktest(futex_wait_test, iterations, threads)\<close>, whose result it returns.\<close>

definition futex_wait_main :: "string list \<Rightarrow> leave + (string \<times> (loc, test_pc local) program)" where
  "futex_wait_main argv =
     (let prog = basename (hd argv)
      in case run_getopt ''chi:n:v:'' (futex_wait_switch prog) (tl argv) fw_default of
           Inl x \<Rightarrow> Inl x
         | Inr cfg \<Rightarrow>
             Inr (prog @ '': Measure FUTEX_WAIT operations per second'' @ newline @ tab @
                  ''Arguments: iterations='' @ show_int (iterations cfg) @
                  '' threads='' @ show_int (threads cfg) @ newline,
                  locktest futex_wait_test (iterations cfg) (threads cfg)))"

interpretation fw_options: option_switch "futex_wait_switch prog" fw_log "futex_wait_usage prog" for prog
proof (unfold_locales, goal_cases)
  case (5 e cfg x)
  then show ?case
    by (cases "(prog, e, cfg)" rule: futex_wait_switch.cases) (auto split: if_splits)
next
  case (6 e cfg cfg')
  then show ?case
    by (cases "(prog, e, cfg)" rule: futex_wait_switch.cases) (auto split: if_splits)
qed simp_all

section \<open>Concrete runs\<close>

text \<open>Runs on the first-in-first-out kernel, with room for \<open>b\<close> threads.\<close>

definition fw_start :: "nat \<Rightarrow> (loc, test_pc local, loc fifo) mstate" where
  "fw_start b = \<lparr>mem = (\<lambda>_. 7), thr = start_threads locktest_entry, ks = \<lparr>queue = [], budget = b\<rparr>\<rparr>"

definition fw_run :: "nat \<Rightarrow> int \<Rightarrow> int \<Rightarrow> tid list \<Rightarrow> (loc, test_pc local, loc fifo) mstate option" where
  "fw_run b it n ts = run_schedule fifo_kernel (locktest futex_wait_test it n) ts (fw_start b)"

text \<open>Two workers: one holds the lock, the other sleeps on the futex.\<close>

definition contended_state :: "(loc, test_pc local, loc fifo) mstate" where
  "contended_state = the (fw_run 2 4 2 (replicate 8 0 @ [1, 1, 1, 1, 2, 2, 2, 2, 2] @ [0, 0, 0, 0] @
     [1, 1, 1, 1, 1, 1] @ [2, 2, 2, 2, 2, 2, 2]))"

text \<open>One worker that has done its loops, the main thread about to read the clock.\<close>

definition measured_state :: "(loc, test_pc local, loc fifo) mstate" where
  "measured_state = the (fw_run 1 1 1 (replicate 7 0 @ [1, 1, 1, 1, 1] @ [0, 0, 0, 0] @ replicate 8 1 @
     [1, 1, 1, 1] @ [0]))"

text \<open>The same run, to the end.\<close>

definition finished_state :: "(loc, test_pc local, loc fifo) mstate" where
  "finished_state = the (fw_run 1 1 1 (replicate 7 0 @ [1, 1, 1, 1, 1] @ [0, 0, 0, 0] @ replicate 8 1 @
     [1, 1, 1, 1] @ [0, 0, 0, 0] @ [1, 1, 1, 1] @ [0]))"

text \<open>The second thread cannot be created.\<close>

definition aborted_state :: "(loc, test_pc local, loc fifo) mstate" where
  "aborted_state = the (fw_run 1 4 2 (replicate 7 0 @ [1, 1, 1, 1] @ [0, 0, 0] @ [1, 1, 1, 1] @ [0]))"

lemma fw_run_reach:
  assumes "locktest_defined it n" and "fw_run b it n ts \<noteq> None"
  shows "locktest_reach fifo_kernel futex_wait_test it n (the (fw_run b it n ts))"
proof -
  have "minit fifo_kernel (locktest futex_wait_test it n) locktest_entry (fw_start b)"
    by (simp add: minit_def fw_start_def fifo_contract fw.wait_wake_locktest)
  with assms show ?thesis
    unfolding locktest_reach_def fw_run_def by (auto intro: run_schedule_reach reach_start)
qed

lemmas fw_states = contended_state_def measured_state_def finished_state_def aborted_state_def

lemma contended_reach: "locktest_reach fifo_kernel futex_wait_test 4 2 contended_state"
  unfolding contended_state_def by (rule fw_run_reach) (simp add: locktest_defined_def INT_MAX_def INT_MIN_def, code_simp)

lemma contended_facts:
  "thr contended_state 0 = run_main (Waiting After Bwait_test)"
  "thr contended_state 1 = run_worker (Test (1, Unlocking Unlock_read))"
  "thr contended_state 2 = Blocked (Worker (Test (1, Locking Lock_wait)))"
  "mem contended_state Futex = 2" "ks contended_state = \<lparr>queue = [(2, Futex)], budget = 0\<rparr>"
  by code_simp+

lemma measured_reach: "locktest_reach fifo_kernel futex_wait_test 1 1 measured_state"
  unfolding measured_state_def by (rule fw_run_reach) (simp add: locktest_defined_def INT_MAX_def INT_MIN_def, code_simp)

lemma measured_facts: "thr measured_state 0 = run_main (Times After)"
  by code_simp

lemma finished_reach: "locktest_reach fifo_kernel futex_wait_test 1 1 finished_state"
  unfolding finished_state_def by (rule fw_run_reach) (simp add: locktest_defined_def INT_MAX_def INT_MIN_def, code_simp)

lemma finished_facts: "thr finished_state 0 = run_main (Main_return RET_PASS)"
  by code_simp

lemma aborted_reach: "locktest_reach fifo_kernel futex_wait_test 4 2 aborted_state"
  unfolding aborted_state_def by (rule fw_run_reach) (simp add: locktest_defined_def INT_MAX_def INT_MIN_def, code_simp)

lemma aborted_facts: "thr aborted_state 0 = run_main (Main_return RET_ERROR)"
  by code_simp

section \<open>The lock\<close>

text \<open>A thread owns the lock from the return of \<^verbatim>\<open>futex_wait_lock\<close> to the exchange of
  \<^verbatim>\<open>futex_cmpxchg_unlock\<close> that stores 0.\<close>

definition owns_lock :: "test_pc local tstatus \<Rightarrow> bool" where
  "owns_lock st \<longleftrightarrow> (\<exists>loops p. st = run_worker (Test (loops, Unlocking p)) \<and> p \<noteq> Unlock_wake)"

lemma owns_lock_holds: "owns_lock st \<longleftrightarrow> holds (test_at st)"
  unfolding owns_lock_def by (cases st rule: test_at.cases; cases "test_at st" rule: holds.cases) auto

lemma fw_lock:
  assumes "locktest_reach K futex_wait_test it n s" "started (main_at (thr s 0))"
  shows "lock_word (mem s Futex) (view_of (abs_state K s))" "one_holder (view_of (abs_state K s))"
    "wake_pending (mem s Futex) (view_of (abs_state K s))"
  using lock_invD [OF fw.locktest_reach_vinv [OF assms(1)]] assms(2) by simp_all

lemma one_owner:
  assumes "locktest_reach K futex_wait_test it n s" "owns_lock (thr s t)" "owns_lock (thr s u)"
  shows "t = u"
proof -
  have "0 < t" using assms(2) status_typed [OF harness_invD(1) [OF fw.reach_harness_inv [OF assms(1)]], of t]
    by (auto simp: owns_lock_def typed_status_def split: if_splits)
  moreover have "thr s t \<noteq> Unborn" using assms(2) by (auto simp: owns_lock_def)
  ultimately have "started (main_at (thr s 0))"
    using worker_started [OF harness_invD(2) [OF fw.reach_harness_inv [OF assms(1)]], of t] by simp
  from fw_lock(2) [OF assms(1) this] assms(2,3) show ?thesis
    unfolding one_holder_def by (simp add: owns_lock_holds)
qed

text \<open>C1: mutual exclusion.  In every run of \<^verbatim>\<open>futex_wait\<close>, whatever the number of threads and
  iterations, on any kernel that keeps the futex contract, at most one thread owns the lock.\<close>

theorem lock_mutual_exclusion:
  assumes "locktest_reach K futex_wait_test it n s" "owns_lock (thr s t)" "owns_lock (thr s u)"
  shows "t = u"
  using assms by (rule one_owner)

theorem lock_mutual_exclusion_witness:
  "owns_lock (thr contended_state 1) \<and> \<not> owns_lock (thr contended_state 2)"
proof -
  have "owns_lock (thr contended_state 1)" using contended_facts(2) by (simp add: owns_lock_def)
  with lock_mutual_exclusion [OF contended_reach, of 1 2] show ?thesis by auto
qed










text \<open>C6: the futex word tells the state of the lock.  Once the main thread has initialised it, it
  is 0, 1 or 2, and it is 0 exactly when nobody owns the lock.\<close>

theorem futex_word_meaning:
  assumes "locktest_reach K futex_wait_test it n s" "started (main_at (thr s 0))"
  shows "mem s Futex \<in> {0, 1, 2} \<and> (mem s Futex = 0 \<longleftrightarrow> (\<forall>t. \<not> owns_lock (thr s t)))"
  using fw_lock(1) [OF assms] unfolding lock_word_def owns_lock_holds view_simps abs_state_simps by blast

theorem futex_word_meaning_witness:
  "mem contended_state Futex = 2 \<and> (\<exists>t. owns_lock (thr contended_state t))"
  using futex_word_meaning [OF contended_reach] contended_facts(1,4) by auto

text \<open>A thread that is about to look at the futex again: woken inside \<^verbatim>\<open>futex_wait\<close>, or on the way
  from it to the next exchange.\<close>

definition will_retry :: "test_pc local tstatus \<Rightarrow> bool" where
  "will_retry st \<longleftrightarrow> (\<exists>loops p. st = Blocked (Worker (Test (loops, Locking Lock_wait))) \<or>
     (st = run_worker (Test (loops, Locking p)) \<and> p \<in> {Lock_cas12, Lock_reread, Lock_cas02}))"

lemma will_retry_retrying: "will_retry st \<longleftrightarrow> retrying (test_at st)"
  unfolding will_retry_def by (cases st rule: test_at.cases; cases "test_at st" rule: retrying.cases) auto

lemma waking_test_at: "waking (test_at st) \<Longrightarrow> \<exists>loops. st = run_worker (Test (loops, Unlocking Unlock_wake))"
  by (cases st rule: test_at.cases; cases "test_at st" rule: waking.cases) auto

text \<open>C3: no wake-up is lost.  While a thread sleeps on the lock, the word is 2 and there is an owner
  whose unlock will wake somebody, or a thread is about to call \<^verbatim>\<open>futex_wake\<close>, or a thread that
  does not sleep is about to take the lock or to mark it contended.\<close>

theorem no_lost_wakeup:
  assumes "locktest_reach K futex_wait_test it n s" "kwaiting K (ks s) t = Some Futex"
  shows "(mem s Futex = 2 \<and> (\<exists>u. owns_lock (thr s u))) \<or>
    (\<exists>u loops. thr s u = run_worker (Test (loops, Unlocking Unlock_wake))) \<or>
    (\<exists>u. kwaiting K (ks s) u = None \<and> will_retry (thr s u))"
proof -
  note inv = fw.reach_harness_inv [OF assms(1)]
  note q = fw.queued_harness [OF inv]
  have st: "started (main_at (thr s 0))"
    using worker_started [OF harness_invD(2) [OF inv], of t] queued_futex [OF q, of t] assms(2)
      status_typed [OF harness_invD(1) [OF inv], of t]
    by (auto simp: typed_status_def split: if_splits)
  have "kwaiting K (ks s) u = None" if "kwaiting K (ks s) u \<noteq> Some Futex" "retrying (test_at (thr s u))" for u
    using queued_inside [OF q, of u] that by (cases "test_at (thr s u)") auto
  then show ?thesis
    using fw_lock(1,3) [OF assms(1) st] assms(2)
    unfolding wake_pending_def lock_word_def owns_lock_holds will_retry_retrying
    by (auto dest!: waking_test_at)
qed

theorem no_lost_wakeup_witness:
  "kwaiting fifo_kernel (ks contended_state) 2 = Some Futex \<and>
   ((mem contended_state Futex = 2 \<and> (\<exists>u. owns_lock (thr contended_state u))) \<or>
    (\<exists>u loops. thr contended_state u = run_worker (Test (loops, Unlocking Unlock_wake))) \<or>
    (\<exists>u. kwaiting fifo_kernel (ks contended_state) u = None \<and> will_retry (thr contended_state u)))"
  using no_lost_wakeup [OF contended_reach, of 2] contended_facts(5) by simp

section \<open>The harness\<close>

text \<open>C4: nobody enters the measured function before all threads have arrived.  While a thread is
  inside it, every one of the \<^verbatim>\<open>threads\<close> workers has been created and has counted itself in at
  \<^verbatim>\<open>barrier_before\<close>.\<close>

theorem test_starts_together:
  assumes "locktest_reach K futex_wait_test it n s" "in_test (thr s t)" "1 \<le> u" "int u \<le> n"
  shows "past Before (thr s u)"
  using test_after_before [OF fw.reach_harness_inv [OF assms(1)]] assms(2-4) by simp

theorem test_starts_together_witness:
  "in_test (thr contended_state 1) \<and> past Before (thr contended_state 2)"
  using test_starts_together [OF contended_reach, of 1 2] contended_facts(2) by simp

text \<open>C5: the measured interval.  When the main thread reads the clock for the first time all
  workers have arrived and none is inside the measured function yet; when it reads it for the
  second time all of them have left it.\<close>

theorem measured_interval:
  assumes "locktest_reach K futex_wait_test it n s" "thr s 0 = run_main (Times b)" "1 \<le> u" "int u \<le> n"
  shows "past b (thr s u) \<and> \<not> in_test (thr s u)"
proof -
  have "\<not> in_test (thr s u)" if "b = After"
    using times_before(1) [OF fw.reach_harness_inv [OF assms(1)], of b u] assms(2-4) that
      in_test_cases [of "thr s u"] by auto
  with times_before [OF fw.reach_harness_inv [OF assms(1)], of b u] assms(2-4) show ?thesis
    by (cases b) auto
qed

theorem measured_interval_witness:
  "thr measured_state 0 = run_main (Times After) \<and> past After (thr measured_state 1) \<and>
   \<not> in_test (thr measured_state 1)"
  using measured_interval [OF measured_reach measured_facts, of 1] measured_facts by simp

text \<open>C7: a successful run.  When \<^verbatim>\<open>locktest\<close> returns \<^verbatim>\<open>RET_PASS\<close> every worker has finished, and the
  lock is free.\<close>

theorem pass_means_finished:
  assumes "locktest_reach K futex_wait_test it n s" "thr s 0 = run_main (Main_return RET_PASS)"
  shows "(\<forall>u. 1 \<le> u \<longrightarrow> int u \<le> n \<longrightarrow> thr s u = Exited) \<and> mem s Futex = 0"
proof -
  note inv = fw.reach_harness_inv [OF assms(1)]
  have "\<not> owns_lock (thr s t)" for t
    using life_main(1) [OF harness_invD(2) [OF inv], of t "Main_return RET_PASS"] assms(2)
    by (cases "t = 0") (auto simp: owns_lock_def)
  with fw_lock(1) [OF assms(1)] assms(2) have "mem s Futex = 0"
    by (simp add: lock_word_def owns_lock_holds)
  with return_pass(1) [OF inv] assms(2) show ?thesis by simp
qed

theorem pass_means_finished_witness: "thr finished_state 1 = Exited \<and> mem finished_state Futex = 0"
  using pass_means_finished [OF finished_reach finished_facts] by (simp add: spec [of _ 1])

text \<open>C8: an aborted run.  When \<^verbatim>\<open>locktest\<close> returns \<^verbatim>\<open>RET_ERROR\<close> no worker is left running, and the
  first barrier was released with -1, the value that sends a worker past the measured function.\<close>

theorem error_means_aborted:
  assumes "locktest_reach K futex_wait_test it n s" "thr s 0 = run_main (Main_return RET_ERROR)"
  shows "(\<forall>u. 0 < u \<longrightarrow> thr s u = Unborn \<or> thr s u = Exited) \<and> mem s (Bar Before Unblock) = - 1"
  using life_main(1) [OF harness_invD(2) [OF fw.reach_harness_inv [OF assms(1)]], of _ "Main_return RET_ERROR"]
    status_main(1) [OF harness_invD(1) [OF fw.reach_harness_inv [OF assms(1)]], of "Main_return RET_ERROR"] assms(2)
  by (auto simp: ret_defs)

theorem error_means_aborted_witness:
  "(thr aborted_state 1 = Unborn \<or> thr aborted_state 1 = Exited) \<and> mem aborted_state (Bar Before Unblock) = - 1"
  using error_means_aborted [OF aborted_reach aborted_facts] by simp

text \<open>Giving up keeps everybody out.  Once the main thread has released the first barrier with -1,
  no worker is inside the measured function.\<close>

theorem abort_skips_test:
  assumes "locktest_reach K futex_wait_test it n s" "mem s (Bar Before Unblock) = - 1"
  shows "\<not> in_test (thr s u)"
  using abort_no_test(1) [OF fw.reach_harness_inv [OF assms(1)], of u] assms(2) by simp

lemma aborted_unblock: "mem aborted_state (Bar Before Unblock) = - 1"
  by code_simp

theorem abort_skips_test_witness: "\<not> in_test (thr aborted_state 1)"
  using abort_skips_test [OF aborted_reach aborted_unblock] .

text \<open>C2: no deadlock.  Until \<^verbatim>\<open>locktest\<close> has returned, some thread can make a step, whatever the
  kernel does within its contract: no combination of sleeping threads stops a run.\<close>

theorem locktest_deadlock_free:
  assumes "locktest_reach K futex_wait_test it n s" "thr s 0 \<noteq> Exited"
  shows "\<exists>t s'. tstep K (locktest futex_wait_test it n) t s = Some s'"
proof -
  obtain t where "\<not> stuck (locktest futex_wait_test it n) (abs_state K s) t"
    using fw.deadlock_free [OF fw.locktest_reach_vinv fw.reach_harness_inv, OF assms(1) assms(1)] assms(2) by auto
  moreover have "futex_contract K" "queue_inv (locktest futex_wait_test it n) (abs_state K s)"
    using assms(1) mstep_contract [of K "locktest futex_wait_test it n" locktest_entry s]
      reach_queue_inv [of K "locktest futex_wait_test it n" locktest_entry s]
    unfolding locktest_reach_def by blast+
  ultimately show ?thesis using not_stuck_tstep by blast
qed

theorem locktest_deadlock_free_witness:
  "\<exists>t s'. tstep fifo_kernel (locktest futex_wait_test 4 2) t contended_state = Some s'"
  using locktest_deadlock_free [OF contended_reach] contended_facts(1) by simp

text \<open>How much is measured.  Every worker is told to run \<^verbatim>\<open>iterations / threads\<close> loops, so that all
  workers together run at most the requested number and fall short of it by less than
  \<^verbatim>\<open>threads\<close>.\<close>

theorem loops_share:
  assumes "locktest_reach K futex_wait_test it n s" "loops_set (main_at (thr s 0))" "0 \<le> it"
  shows "n * int_of_u32 (mem s Loops) \<le> it \<and> it < n * int_of_u32 (mem s Loops) + n"
proof -
  have "locktest_defined it n" using assms(1) by (simp add: locktest_reach_def)
  then have n: "0 < n" and r: "int_of_u32 (u32_of_int (c_div it n)) = c_div it n"
    using c_div_range by (auto simp: locktest_defined_def int_u32_int)
  have "mem s Loops = u32_of_int (c_div it n)"
    using fw.reach_loops [OF fw.reach_locktest_init [OF assms(1)]] assms(2) by (simp add: loops_inv_def)
  with r have eq: "int_of_u32 (mem s Loops) = it div n" using assms(3) n by (simp add: c_div_nonneg)
  have "n * (it div n) + it mod n = it" "0 \<le> it mod n" "it mod n < n" using n by simp_all
  then show ?thesis unfolding eq by linarith
qed

theorem loops_share_witness:
  "2 * int_of_u32 (mem contended_state Loops) \<le> 4 \<and> 4 < 2 * int_of_u32 (mem contended_state Loops) + 2"
  using loops_share [OF contended_reach] contended_facts(1) by simp

section \<open>The command line\<close>

text \<open>Bad command lines.  \<^verbatim>\<open>main\<close> runs the measurement only if every option was known and had its
  argument and no help was asked for; otherwise it prints its help and exits with 0 or 1.\<close>

theorem futex_wait_command_line:
  "case futex_wait_main argv of
     Inl x \<Rightarrow> fst x \<in> {0, 1} \<and> (\<exists>cfg. snd x = futex_wait_usage (basename (hd argv)) cfg)
   | Inr _ \<Rightarrow> {Bad, Opt (CHR ''h'') None} \<inter> set (getopt_events ''chi:n:v:'' (tl argv)) = {}"
proof (cases "option_loop (futex_wait_switch (basename (hd argv))) (getopt_events ''chi:n:v:'' (tl argv)) fw_default")
  case (Inl x)
  then show ?thesis
    using fw_options.loop_status [OF Inl] by (simp add: futex_wait_main_def run_getopt_def Let_def)
next
  case (Inr cfg)
  then show ?thesis
    using fw_options.loop_bad [OF Inr] fw_options.loop_help [OF Inr]
    by (simp add: futex_wait_main_def run_getopt_def Let_def)
qed

end
