(* ===== verification/Logged_Runs.thy ===== *)
theory Logged_Runs
  imports Kernels Logging
begin

text \<open>
  Runs of the functional tests.  A test program runs on an arbitrary kernel with a log
  (\<open>logged K\<close>, theory \<open>Kernels\<close>); of the kernel only this is assumed, that it writes to no
  other memory than the futex words \<open>A\<close> of the test (\<open>writes_only\<close>).  \<open>lstep\<close> is the machine
  without the kernel: a call may return anything, and what it returned is in the log.  The
  interpretation \<open>log_sim\<close> proves that it simulates the machine, so that a verdict of a test
  program can be related to the answers of the kernel by an invariant of \<open>lstep\<close>.
\<close>

section \<open>The machine with an unknown kernel\<close>

definition writes_only :: "('a, 'k) kernel \<Rightarrow> 'a set \<Rightarrow> bool" where
  "writes_only K A \<longleftrightarrow>
     (\<forall>t c m k r m' k' a. kcall K t c m k = (r, m', k') \<and> a \<notin> A \<longrightarrow> m' a = m a) \<and>
     (\<forall>t c m k r m' k' a. kresume K t c m k = Some (r, m', k') \<and> a \<notin> A \<longrightarrow> m' a = m a)"

record ('a, 'l) lstate =
  lmem :: "'a memory"
  lthr :: "tid \<Rightarrow> 'l tstatus"
  llog :: "'a event list"

definition lgoto :: "tid \<Rightarrow> 'l tstatus \<Rightarrow> ('a, 'l) lstate \<Rightarrow> ('a, 'l) lstate" where
  "lgoto t st s = s\<lparr>lthr := (lthr s)(t := st)\<rparr>"

inductive lstep :: "('a, 'l) program \<Rightarrow> 'a set \<Rightarrow> ('a, 'l) lstate \<Rightarrow> ('a, 'l) lstate \<Rightarrow> bool"
  for P A where
  l_mem: "lthr s t = Running l \<Longrightarrow> exec_mem (fetch P l) (lmem s) = Some (r, m) \<Longrightarrow>
    lstep P A s (lgoto t (Running (cont P l r)) (s\<lparr>lmem := m\<rparr>))"
| l_call: "lthr s t = Running l \<or> lthr s t = Blocked l \<Longrightarrow> fetch P l = Syscall c \<Longrightarrow>
    (\<And>a. a \<notin> A \<Longrightarrow> m a = lmem s a) \<Longrightarrow>
    lstep P A s (lgoto t (Running (cont P l (Ret r e))) (s\<lparr>lmem := m, llog := llog s @ [Called t c r e]\<rparr>))"
| l_block: "lthr s t = Running l \<Longrightarrow> fetch P l = Syscall c \<Longrightarrow> (\<And>a. a \<notin> A \<Longrightarrow> m a = lmem s a) \<Longrightarrow>
    lstep P A s (lgoto t (Blocked l) (s\<lparr>lmem := m\<rparr>))"
| l_create: "lthr s t = Running l \<Longrightarrow> fetch P l = Create j l0 \<Longrightarrow> lthr s j = Unborn \<Longrightarrow>
    lstep P A s (lgoto t (Running (cont P l (Ret 0 0)))
      (lgoto j (Running l0) (s\<lparr>llog := llog s @ [Created j 0]\<rparr>)))"
| l_create_fail: "lthr s t = Running l \<Longrightarrow> fetch P l = Create j l0 \<Longrightarrow> r \<noteq> 0 \<Longrightarrow>
    lstep P A s (lgoto t (Running (cont P l (Ret r 0))) (s\<lparr>llog := llog s @ [Created j r]\<rparr>))"
| l_join: "lthr s t = Running l \<Longrightarrow> fetch P l = Join j \<Longrightarrow> lthr s j = Exited \<Longrightarrow>
    lstep P A s (lgoto t (Running (cont P l (Ret 0 0))) s)"
| l_kill: "lthr s t = Running l \<Longrightarrow> fetch P l = Kill j \<Longrightarrow>
    lstep P A s (lgoto t (Running (cont P l (Ret 0 0))) (s\<lparr>llog := llog s @ [Signalled j]\<rparr>))"
| l_exit: "lthr s t = Running l \<Longrightarrow> fetch P l = Exit \<Longrightarrow> lstep P A s (lgoto t Exited s)"
| l_halt: "lthr s t = Running l \<Longrightarrow> fetch P l = Halt \<Longrightarrow> lstep P A s (s\<lparr>lthr := \<lambda>_. Exited\<rparr>)"

text \<open>The same with a label: which thread made the step, and the answer it got, if the step gave one.\<close>

inductive lmove ::
    "('a, 'l) program \<Rightarrow> 'a set \<Rightarrow> tid \<Rightarrow> resp option \<Rightarrow> ('a, 'l) lstate \<Rightarrow> ('a, 'l) lstate \<Rightarrow> bool"
  for P A t where
  m_mem: "lthr s t = Running l \<Longrightarrow> exec_mem (fetch P l) (lmem s) = Some (r, m) \<Longrightarrow>
    lmove P A t (Some r) s (lgoto t (Running (cont P l r)) (s\<lparr>lmem := m\<rparr>))"
| m_call: "lthr s t = Running l \<or> lthr s t = Blocked l \<Longrightarrow> fetch P l = Syscall c \<Longrightarrow>
    (\<And>a. a \<notin> A \<Longrightarrow> m a = lmem s a) \<Longrightarrow>
    lmove P A t (Some (Ret r e)) s
      (lgoto t (Running (cont P l (Ret r e))) (s\<lparr>lmem := m, llog := llog s @ [Called t c r e]\<rparr>))"
| m_block: "lthr s t = Running l \<Longrightarrow> fetch P l = Syscall c \<Longrightarrow> (\<And>a. a \<notin> A \<Longrightarrow> m a = lmem s a) \<Longrightarrow>
    lmove P A t None s (lgoto t (Blocked l) (s\<lparr>lmem := m\<rparr>))"
| m_create: "lthr s t = Running l \<Longrightarrow> fetch P l = Create j l0 \<Longrightarrow> lthr s j = Unborn \<Longrightarrow>
    lmove P A t (Some (Ret 0 0)) s (lgoto t (Running (cont P l (Ret 0 0)))
      (lgoto j (Running l0) (s\<lparr>llog := llog s @ [Created j 0]\<rparr>)))"
| m_create_fail: "lthr s t = Running l \<Longrightarrow> fetch P l = Create j l0 \<Longrightarrow> r \<noteq> 0 \<Longrightarrow>
    lmove P A t (Some (Ret r 0)) s
      (lgoto t (Running (cont P l (Ret r 0))) (s\<lparr>llog := llog s @ [Created j r]\<rparr>))"
| m_join: "lthr s t = Running l \<Longrightarrow> fetch P l = Join j \<Longrightarrow> lthr s j = Exited \<Longrightarrow>
    lmove P A t (Some (Ret 0 0)) s (lgoto t (Running (cont P l (Ret 0 0))) s)"
| m_kill: "lthr s t = Running l \<Longrightarrow> fetch P l = Kill j \<Longrightarrow>
    lmove P A t (Some (Ret 0 0)) s
      (lgoto t (Running (cont P l (Ret 0 0))) (s\<lparr>llog := llog s @ [Signalled j]\<rparr>))"
| m_exit: "lthr s t = Running l \<Longrightarrow> fetch P l = Exit \<Longrightarrow> lmove P A t None s (lgoto t Exited s)"
| m_halt: "lthr s t = Running l \<Longrightarrow> fetch P l = Halt \<Longrightarrow> lmove P A t None s (s\<lparr>lthr := \<lambda>_. Exited\<rparr>)"

lemma lmove_lstep: "lmove P A t ro s s' \<Longrightarrow> lstep P A s s'"
  by (cases rule: lmove.cases) (auto intro: lstep.intros)

text \<open>The answer the next step of thread \<open>t\<close> gets.\<close>

definition step_resp :: "('a, 'k) kernel \<Rightarrow> ('a, 'l) program \<Rightarrow> tid \<Rightarrow> ('a, 'l, 'k) mstate \<Rightarrow> resp option" where
  "step_resp K P t s =
     (case thr s t of
        Running l \<Rightarrow>
          (case fetch P l of
             Syscall c \<Rightarrow> map_option (\<lambda>(r, e). Ret r e) (fst (kcall K t c (mem s) (ks s)))
           | Create j l0 \<Rightarrow> Some (Ret (fst (kcreate K j (ks s))) 0)
           | Join j \<Rightarrow> Some (Ret 0 0)
           | Kill j \<Rightarrow> Some (Ret 0 0)
           | i \<Rightarrow> map_option fst (exec_mem i (mem s)))
      | Blocked l \<Rightarrow>
          (case fetch P l of
             Syscall c \<Rightarrow> map_option (\<lambda>((r, e), _). Ret r e) (kresume K t c (mem s) (ks s))
           | _ \<Rightarrow> None)
      | _ \<Rightarrow> None)"

text \<open>A thread that has ended stays so.\<close>

lemma exited_stays:
  assumes "lstep P A s s'" "lthr s t = Exited"
  shows "lthr s' t = Exited"
  using assms by cases (auto simp: lgoto_def)

definition log_abs :: "('a, 'l, 'k \<times> 'a event list) mstate \<Rightarrow> ('a, 'l) lstate" where
  "log_abs s = \<lparr>lmem = mem s, lthr = thr s, llog = klog s\<rparr>"

definition linit :: "'l \<Rightarrow> 'a memory \<Rightarrow> ('a, 'l) lstate \<Rightarrow> bool" where
  "linit l0 m0 s \<longleftrightarrow> lmem s = m0 \<and> lthr s = start_threads l0 \<and> llog s = []"

definition test_init ::
    "('a, 'k) kernel \<Rightarrow> 'a set \<Rightarrow> 'l \<Rightarrow> 'a memory \<Rightarrow> ('a, 'l, 'k \<times> 'a event list) mstate \<Rightarrow> bool" where
  "test_init K A l0 m0 s \<longleftrightarrow> writes_only K A \<and> mem s = m0 \<and> thr s = start_threads l0 \<and> klog s = []"

text \<open>The states of the runs of test program \<open>P\<close>, started at \<open>l0\<close> with memory \<open>m0\<close>, on \<open>K\<close>.\<close>

definition test_reach ::
    "('a, 'k) kernel \<Rightarrow> 'a set \<Rightarrow> ('a, 'l) program \<Rightarrow> 'l \<Rightarrow> 'a memory \<Rightarrow>
     ('a, 'l, 'k \<times> 'a event list) mstate \<Rightarrow> bool" where
  "test_reach K A P l0 m0 s \<longleftrightarrow> reach (test_init K A l0 m0) (mstep (logged K) P) s"

text \<open>The answers one thread got.\<close>

fun answer_to :: "tid \<Rightarrow> 'a event \<Rightarrow> bool" where
  "answer_to t (Called u c r e) = (u = t)"
| "answer_to t (Created j r) = False"
| "answer_to t (Signalled j) = False"

definition answers :: "tid \<Rightarrow> 'a event list \<Rightarrow> 'a event list" where
  "answers t log = filter (answer_to t) log"

lemma answers_simps [simp]:
  "answers t [] = []" "answers t (log @ [Called u c r e]) = answers t log @ (if u = t then [Called u c r e] else [])"
  "answers t (log @ [Created j r]) = answers t log" "answers t (log @ [Signalled j]) = answers t log"
  by (simp_all add: answers_def)

lemma lgoto_simps [simp]:
  "lthr (lgoto t st s) = (lthr s)(t := st)" "lmem (lgoto t st s) = lmem s" "llog (lgoto t st s) = llog s"
  by (simp_all add: lgoto_def)

lemma log_abs_simps [simp]:
  "lthr (log_abs s) = thr s" "lmem (log_abs s) = mem s" "llog (log_abs s) = klog s"
  by (simp_all add: log_abs_def)

lemma log_abs_goto: "log_abs (goto t st m k s) = lgoto t st ((log_abs s)\<lparr>lmem := m, llog := snd k\<rparr>)"
  by (simp add: log_abs_def goto_def lgoto_def)

lemma log_abs_same [simp]:
  "(log_abs s)\<lparr>lmem := m, llog := klog s\<rparr> = (log_abs s)\<lparr>lmem := m\<rparr>"
  "(log_abs s)\<lparr>lmem := mem s, llog := L\<rparr> = (log_abs s)\<lparr>llog := L\<rparr>"
  "(log_abs s)\<lparr>lmem := mem s\<rparr> = log_abs s" "(log_abs s)\<lparr>llog := klog s\<rparr> = log_abs s"
  "(lgoto j st (log_abs s))\<lparr>lmem := mem s, llog := L\<rparr> = lgoto j st ((log_abs s)\<lparr>llog := L\<rparr>)"
  "(lgoto j st ((log_abs s)\<lparr>llog := L\<rparr>))\<lparr>lmem := mem s, llog := L\<rparr> = lgoto j st ((log_abs s)\<lparr>llog := L\<rparr>)"
  by (simp_all add: log_abs_def lgoto_def)

lemma logged_call:
  assumes "kcall (logged K) t c m k = (r, m', k')"
  shows "(\<exists>n e k0. kcall K t c m (fst k) = (Some (n, e), m', k0) \<and> r = Some (n, e) \<and>
      k' = (k0, snd k @ [Called t c n e])) \<or>
    (\<exists>k0. kcall K t c m (fst k) = (None, m', k0) \<and> r = None \<and> k' = (k0, snd k))"
  using assms by (cases k) (auto simp: logged_def split: prod.splits option.splits)

lemma logged_return:
  assumes "kresume (logged K) t c m k = Some ((n, e), m', k')"
  shows "\<exists>k0. kresume K t c m (fst k) = Some ((n, e), m', k0) \<and> k' = (k0, snd k @ [Called t c n e])"
  using assms by (cases k) (auto simp: logged_def split: prod.splits option.splits)

lemma logged_create:
  "kcreate (logged K) j k = (r, k') \<Longrightarrow> \<exists>k0. k' = (k0, snd k @ [Created j r])"
  by (cases k) (auto simp: logged_def split: prod.splits)

lemma tstep_lmove_call:
  assumes K: "writes_only K A" and step: "tstep (logged K) P t s = Some s'"
    and t: "thr s t = Running l" "fetch P l = Syscall c"
  shows "lmove P A t (step_resp (logged K) P t s) (log_abs s) (log_abs s')"
proof -
  obtain r m k where call: "kcall (logged K) t c (mem s) (ks s) = (r, m, k)" by (metis prod_cases3)
  from logged_call [OF call] show ?thesis
  proof (elim disjE exE conjE)
    fix n e k0
    assume a: "kcall K t c (mem s) (fst (ks s)) = (Some (n, e), m, k0)" "r = Some (n, e)"
      "k = (k0, klog s @ [Called t c n e])"
    from a(1) K have "m a = mem s a" if "a \<notin> A" for a using that unfolding writes_only_def by blast
    with a t step call show ?thesis
      using m_call [of "log_abs s" t l P c A m n e] by (auto simp: tstep_def step_resp_def log_abs_goto)
  next
    fix k0
    assume a: "kcall K t c (mem s) (fst (ks s)) = (None, m, k0)" "r = None" "k = (k0, klog s)"
    from a(1) K have "m a = mem s a" if "a \<notin> A" for a using that unfolding writes_only_def by blast
    with a t step call show ?thesis
      using m_block [of "log_abs s" t l P c A m] by (auto simp: tstep_def step_resp_def log_abs_goto)
  qed
qed

lemma tstep_lmove:
  assumes K: "writes_only K A" and step: "tstep (logged K) P t s = Some s'"
  shows "lmove P A t (step_resp (logged K) P t s) (log_abs s) (log_abs s')"
proof (cases "thr s t")
  case (Blocked l)
  with step obtain c n e m k where c: "fetch P l = Syscall c"
    and res: "kresume (logged K) t c (mem s) (ks s) = Some ((n, e), m, k)"
    and s': "s' = goto t (Running (cont P l (Ret n e))) m k s"
    by (auto simp: tstep_def step_resp_def split: instr.splits option.splits)
  from logged_return [OF res] obtain k0 where
    "kresume K t c (mem s) (fst (ks s)) = Some ((n, e), m, k0)" "snd k = klog s @ [Called t c n e]" by auto
  moreover from this K have "m a = mem s a" if "a \<notin> A" for a
    using that unfolding writes_only_def by blast
  ultimately show ?thesis
    using m_call [of "log_abs s" t l P c A m n e] Blocked c res s' by (simp add: step_resp_def log_abs_goto)
next
  case (Running l)
  show ?thesis
  proof (cases "fetch P l")
    case (Syscall c)
    with tstep_lmove_call [OF K step] Running show ?thesis by blast
  next
    case (Create j l0)
    obtain r k where r: "kcreate (logged K) j (ks s) = (r, k)" by (metis prod.exhaust)
    from logged_create [OF r] have "snd k = klog s @ [Created j r]" by auto
    with Running Create step r show ?thesis
      using m_create [of "log_abs s" t l P j l0 A] m_create_fail [of "log_abs s" t l P j l0 r A]
      by (auto simp: tstep_def step_resp_def log_abs_goto split: if_splits)
  next
    case (Join j)
    with Running step show ?thesis
      using m_join [of "log_abs s" t l P j A] by (auto simp: tstep_def step_resp_def log_abs_goto split: if_splits)
  next
    case (Kill j)
    obtain k log where "ks s = (k, log)" by fastforce
    with Running Kill step show ?thesis
      using m_kill [of "log_abs s" t l P j A] by (auto simp: tstep_def step_resp_def log_abs_goto logged_def)
  next
    case Exit
    with Running step show ?thesis
      using m_exit [of "log_abs s" t l P A] by (auto simp: tstep_def step_resp_def log_abs_goto)
  next
    case Halt
    with Running step show ?thesis
      using m_halt [of "log_abs s" t l P A] by (auto simp: tstep_def step_resp_def log_abs_def)
  qed (insert Running step m_mem [of "log_abs s" t l P], auto simp: tstep_def step_resp_def log_abs_goto futex_atomic_defs sync_defs split: option.splits)
qed (use step in \<open>simp_all add: tstep_def step_resp_def\<close>)

lemma tstep_lstep:
  assumes "writes_only K A" "tstep (logged K) P t s = Some s'"
  shows "lstep P A (log_abs s) (log_abs s')"
  using tstep_lmove [OF assms] by (rule lmove_lstep)

lemma test_writes: "reach (test_init K A l0 m0) (mstep (logged K) P) s \<Longrightarrow> writes_only K A"
  by (induction rule: reach.induct) (auto simp: test_init_def)

interpretation log_sim: forward_simulation "test_init K A l0 m0" "mstep (logged K) P" "linit l0 m0"
  "lstep P A" log_abs for K A l0 m0 P
proof (unfold_locales, goal_cases)
  case (1 s)
  then show ?case by (simp add: test_init_def linit_def)
next
  case (2 s s')
  from 2(3) show ?case
  proof cases
    case (mstep_thread t)
    then show ?thesis using tstep_lstep test_writes [OF 2(1)] by blast
  next
    case mstep_tick
    then show ?thesis by (cases "ks s") (auto simp: log_abs_def logged_def)
  qed
qed

text \<open>An invariant of the test program with an unknown kernel holds in every run.\<close>

locale test_program =
  fixes P :: "('a, 'l) program" and A :: "'a set" and l0 :: 'l and m0 :: "'a memory"
    and tinv :: "('a, 'l) lstate \<Rightarrow> bool"
  assumes tinv_start: "linit l0 m0 s \<Longrightarrow> tinv s"
    and tinv_kept: "tinv s \<Longrightarrow> lstep P A s s' \<Longrightarrow> tinv s'"
begin

lemma test_reach_tinv:
  assumes "test_reach K A P l0 m0 s"
  shows "tinv (log_abs s)"
proof -
  have "reach (linit l0 m0) (lstep P A) (log_abs s)"
    using assms unfolding test_reach_def by (rule log_sim.reach_abs)
  then show ?thesis by (induction rule: reach.induct) (auto intro: tinv_start tinv_kept)
qed

end

text \<open>The programs with one child: nobody but threads 0 and 1 ever runs.\<close>

lemma two_threads:
  assumes "\<forall>t>1. lthr s t = Unborn" "lthr s t = Running l \<or> lthr s t = Blocked l"
  shows "t = 0 \<or> t = 1"
proof (cases "t > 1")
  case True
  with assms(1) have "lthr s t = Unborn" by blast
  with assms(2) show ?thesis by auto
qed auto

section \<open>Scheduled runs\<close>

text \<open>The run of a test program from the start, on a kernel in state \<open>k\<close>, by a schedule.\<close>

definition scheduled ::
    "('a, 'k) kernel \<Rightarrow> 'k \<Rightarrow> ('a, 'l) program \<Rightarrow> 'l \<Rightarrow> 'a memory \<Rightarrow> tid list \<Rightarrow>
     ('a, 'l, 'k \<times> 'a event list) mstate option" where
  "scheduled K k P l0 m0 ts =
     run_schedule (logged K) P ts \<lparr>mem = m0, thr = start_threads l0, ks = (k, [])\<rparr>"

definition scripted ::
    "('a, 'l) program \<Rightarrow> 'l \<Rightarrow> 'a memory \<Rightarrow> (int \<times> int) list \<Rightarrow> tid list \<Rightarrow>
     ('a, 'l, (int \<times> int) list \<times> 'a event list) mstate option" where
  "scripted P l0 m0 script ts = scheduled script_kernel script P l0 m0 ts"

lemma script_writes: "writes_only script_kernel A"
  by (auto simp: writes_only_def script_kernel_def split: list.splits)

lemma fifo_writes: "writes_only fifo_kernel A"
  by (auto simp: writes_only_def fifo_kernel_def fifo_call_def Let_def
      split: option.splits futex_op.splits if_splits)

lemma scheduled_reach:
  assumes "writes_only K A" "scheduled K k P l0 m0 ts \<noteq> None"
  shows "test_reach K A P l0 m0 (the (scheduled K k P l0 m0 ts))"
proof -
  have "test_init K A l0 m0 \<lparr>mem = m0, thr = start_threads l0, ks = (k, [])\<rparr>"
    using assms(1) by (simp add: test_init_def)
  with assms(2) show ?thesis
    unfolding scheduled_def test_reach_def by (auto intro: run_schedule_reach [OF reach_start])
qed

lemma scripted_reach:
  "scripted P l0 m0 script ts \<noteq> None \<Longrightarrow>
   test_reach script_kernel A P l0 m0 (the (scripted P l0 m0 script ts))"
  unfolding scripted_def by (rule scheduled_reach [OF script_writes])

end
