(* ===== verification/Complaints.thy ===== *)
theory Complaints
  imports Logged_Runs
begin

text \<open>
  What a functional test says while it runs.  The calls \<^verbatim>\<open>error(...)\<close> and \<^verbatim>\<open>fail(...)\<close> of a program
  are a function \<open>says\<close> of the control point and of the answer it got: the lines printed before the
  next control point.  \<open>told\<close> are the runs of a test with the lines printed so far, each with the
  thread that printed it (\<open>Plain_line\<close>: written to \<^verbatim>\<open>stderr\<close> without the macros); \<open>stderr_lines\<close> is
  their text.  Runs and interface leave open what a line is: the harness has lines of its own.  The interface \<open>telling_program\<close> turns an
  invariant over state and lines into a fact of all runs.

  The \<^verbatim>\<open>info\<close> lines, printed from verbosity 2 on, are left out.
\<close>

datatype complaint = Error_line string int | Fail_line string | Plain_line string

type_synonym 'l voice = "'l \<Rightarrow> resp \<Rightarrow> complaint list"

primrec show_complaint :: "(int \<Rightarrow> string) \<Rightarrow> log_state \<Rightarrow> complaint \<Rightarrow> string list" where
  "show_complaint strerror st (Error_line message err) = error_msg strerror st message err"
| "show_complaint strerror st (Fail_line message) = fail_msg st message"
| "show_complaint strerror st (Plain_line message) = [message]"

definition stderr_lines :: "(int \<Rightarrow> string) \<Rightarrow> log_state \<Rightarrow> (tid \<times> complaint) list \<Rightarrow> string list" where
  "stderr_lines strerror st out = concat (map (show_complaint strerror st \<circ> snd) out)"

definition utter :: "('l \<Rightarrow> resp \<Rightarrow> 'c list) \<Rightarrow> tid \<Rightarrow> 'l tstatus \<Rightarrow> resp option \<Rightarrow> (tid \<times> 'c) list" where
  "utter says t st ro =
     (case (st, ro) of
        (Running l, Some r) \<Rightarrow> map (Pair t) (says l r)
      | (Blocked l, Some r) \<Rightarrow> map (Pair t) (says l r)
      | _ \<Rightarrow> [])"

inductive told ::
    "('a, 'k) kernel \<Rightarrow> 'a set \<Rightarrow> ('a, 'l) program \<Rightarrow> ('l \<Rightarrow> resp \<Rightarrow> 'c list) \<Rightarrow> 'l \<Rightarrow>
     'a memory \<Rightarrow> ('a, 'l, 'k \<times> 'a event list) mstate \<Rightarrow> (tid \<times> 'c) list \<Rightarrow> bool"
  for K A P says l0 m0 where
  told_start: "test_init K A l0 m0 s \<Longrightarrow> told K A P says l0 m0 s []"
| told_thread: "told K A P says l0 m0 s out \<Longrightarrow> tstep (logged K) P t s = Some s' \<Longrightarrow>
    told K A P says l0 m0 s' (out @ utter says t (thr s t) (step_resp (logged K) P t s))"
| told_tick: "told K A P says l0 m0 s out \<Longrightarrow>
    told K A P says l0 m0 (s\<lparr>ks := ktick (logged K) (ks s)\<rparr>) out"

lemma utter_simps [simp]:
  "utter says t (Running l) (Some r) = map (Pair t) (says l r)"
  "utter says t (Blocked l) (Some r) = map (Pair t) (says l r)" "utter says t st None = []"
  by (simp_all add: utter_def split: tstatus.splits)

text \<open>A thread has said something.\<close>

definition said :: "(tid \<times> 'c) list \<Rightarrow> tid \<Rightarrow> bool" where
  "said out t \<longleftrightarrow> t \<in> fst ` set out"

lemma said_simps [simp]:
  "\<not> said [] t" "said (out @ map (Pair u) cs) t \<longleftrightarrow> said out t \<or> (t = u \<and> cs \<noteq> [])"
  "said (out @ []) t \<longleftrightarrow> said out t" "said (out @ [(u, c)]) t \<longleftrightarrow> said out t \<or> t = u"
  by (simp_all add: said_def image_Un image_image, cases cs, auto)

lemma nobody_said: "out = [] \<longleftrightarrow> (\<forall>t. \<not> said out t)"
  by (cases out) (auto simp: said_def)

text \<open>At the default verbosity, and above, every line is shown.\<close>

lemma stderr_silent: "VCRITICAL \<le> verbose st \<Longrightarrow> stderr_lines strerror st out = [] \<longleftrightarrow> out = []"
proof (induction out)
  case (Cons x out)
  obtain t c where "x = (t, c)" by fastforce
  with Cons show ?case by (cases c) (auto simp: stderr_lines_def error_msg_def fail_msg_def)
qed (simp add: stderr_lines_def)

text \<open>How a kernel answers: with an \<^verbatim>\<open>int\<close>, and with an error number if it is negative.\<close>

fun errno_ok :: "'a event \<Rightarrow> bool" where
  "errno_ok (Called t c r e) \<longleftrightarrow> s32 r = r \<and> (r < 0 \<longrightarrow> 0 < e \<and> e \<le> 4095)"
| "errno_ok (Created j r) \<longleftrightarrow> True"
| "errno_ok (Signalled j) \<longleftrightarrow> True"

lemma told_test: "told K A P says l0 m0 s out \<Longrightarrow> test_reach K A P l0 m0 s"
  unfolding test_reach_def by (induction rule: told.induct) (auto intro: reach.intros mstep.intros)

lemma told_writes: "told K A P says l0 m0 s out \<Longrightarrow> writes_only K A"
  by (drule told_test) (auto simp: test_reach_def dest: test_writes)

text \<open>An invariant over the lines printed, which may use the one known of the states.\<close>

locale telling_program = test_program P A l0 m0 tinv
  for P :: "('a, 'l) program" and A :: "'a set" and l0 :: 'l and m0 :: "'a memory"
    and tinv :: "('a, 'l) lstate \<Rightarrow> bool" +
  fixes says :: "'l \<Rightarrow> resp \<Rightarrow> 'c list" and oinv :: "('a, 'l) lstate \<Rightarrow> (tid \<times> 'c) list \<Rightarrow> bool"
  assumes oinv_start: "linit l0 m0 s \<Longrightarrow> oinv s []"
    and oinv_kept: "tinv s \<Longrightarrow> oinv s out \<Longrightarrow> lmove P A t ro s s' \<Longrightarrow>
      oinv s' (out @ utter says t (lthr s t) ro)"
begin

lemma told_oinv:
  assumes "told K A P says l0 m0 s out"
  shows "oinv (log_abs s) out"
  using assms
proof (induction rule: told.induct)
  case (told_start s)
  then show ?case by (intro oinv_start) (simp add: test_init_def linit_def)
next
  case (told_thread s out t s')
  from told_test [OF told_thread.hyps(1)] have "tinv (log_abs s)" by (rule test_reach_tinv)
  with told_thread.IH tstep_lmove [OF told_writes [OF told_thread.hyps(1)] told_thread.hyps(2)]
    oinv_kept [of "log_abs s"] show ?case by simp
next
  case (told_tick s out)
  then show ?case by (cases "ks s") (simp add: log_abs_def logged_def)
qed

end

section \<open>Scheduled runs\<close>

text \<open>The run of a schedule with the lines printed; \<open>None\<close> if a thread of it cannot move.\<close>

fun tell_schedule ::
    "('a, 'k) kernel \<Rightarrow> ('a, 'l) program \<Rightarrow> ('l \<Rightarrow> resp \<Rightarrow> 'c list) \<Rightarrow> tid list \<Rightarrow>
     ('a, 'l, 'k \<times> 'a event list) mstate \<times> (tid \<times> 'c) list \<Rightarrow>
     (('a, 'l, 'k \<times> 'a event list) mstate \<times> (tid \<times> 'c) list) option" where
  "tell_schedule K P says [] (s, out) = Some (s, out)"
| "tell_schedule K P says (t # ts) (s, out) =
     (case tstep (logged K) P t s of
        None \<Rightarrow> None
      | Some s' \<Rightarrow>
          tell_schedule K P says ts (s', out @ utter says t (thr s t) (step_resp (logged K) P t s)))"

definition tell_script ::
    "('a, 'l) program \<Rightarrow> ('l \<Rightarrow> resp \<Rightarrow> 'c list) \<Rightarrow> 'l \<Rightarrow> 'a memory \<Rightarrow> (int \<times> int) list \<Rightarrow> tid list \<Rightarrow>
     ('a, 'l, (int \<times> int) list \<times> 'a event list) mstate \<times> (tid \<times> 'c) list" where
  "tell_script P says l0 m0 script ts =
     the (tell_schedule script_kernel P says ts (\<lparr>mem = m0, thr = start_threads l0, ks = (script, [])\<rparr>, []))"

lemma tell_schedule_told:
  "told K A P says l0 m0 s out \<Longrightarrow> tell_schedule K P says ts (s, out) = Some (s', out') \<Longrightarrow>
   told K A P says l0 m0 s' out'"
proof (induction ts arbitrary: s out)
  case (Cons t ts)
  then obtain s1 where 1: "tstep (logged K) P t s = Some s1" by (auto split: option.splits)
  with Cons.prems(2) told_thread [OF Cons.prems(1) 1] show ?case by (intro Cons.IH) auto
qed simp

lemma tell_script_told:
  assumes "tell_schedule script_kernel P says ts (\<lparr>mem = m0, thr = start_threads l0, ks = (script, [])\<rparr>, []) \<noteq> None"
  shows "told script_kernel A P says l0 m0 (fst (tell_script P says l0 m0 script ts))
    (snd (tell_script P says l0 m0 script ts))"
proof -
  have "test_init script_kernel A l0 m0 \<lparr>mem = m0, thr = start_threads l0, ks = (script, [])\<rparr>"
    by (simp add: test_init_def script_writes)
  from tell_schedule_told [OF told_start [OF this]] assms show ?thesis
    by (auto simp: tell_script_def)
qed

end
