(* ===== verification/Harness_Report.thy ===== *)
theory Harness_Report
  imports Complaints Futex_Wait Complex_Main
begin

text \<open>
  What \<^verbatim>\<open>locktest\<close> of \<^verbatim>\<open>performance/harness.h\<close> prints: the error of a failed \<^verbatim>\<open>pthread_create\<close> and the
  line of \<^verbatim>\<open>print_result\<close>, or the times of the measurement and its rate.  The two readings of the clock
  (\<open>clk Before\<close>, \<open>clk After\<close>) and the ticks per second (\<open>hz\<close>, the answer of \<^verbatim>\<open>sysconf\<close>) are parameters.

  A \<^verbatim>\<open>double\<close> is the exact number it stands for (rounding is left to the one that prints it), or one of
  the values of a division by zero; the sign of an infinity is not kept.

  \<^verbatim>\<open>shared.loops\<close> is read again for the rate; it is still the value \<^verbatim>\<open>locktest\<close> stored, as nobody else
  writes to it (\<open>loops_inv\<close>).
\<close>

section \<open>The figures\<close>

datatype double = Num rat | Infinite | NaN


record times_reading =
  t_clock :: int
  t_utime :: int
  t_stime :: int

definition wall :: "(barrier \<Rightarrow> times_reading) \<Rightarrow> int" where
  "wall clk = s32 (t_clock (clk After) - t_clock (clk Before))"

definition user :: "(barrier \<Rightarrow> times_reading) \<Rightarrow> int" where
  "user clk = s32 (t_utime (clk After) - t_utime (clk Before))"

definition system :: "(barrier \<Rightarrow> times_reading) \<Rightarrow> int" where
  "system clk = s32 (t_stime (clk After) - t_stime (clk Before))"





section \<open>The lines\<close>

datatype report = Error_report string int | Result_report int | Times_report rat rat rat double | Rate_report double


text \<open>The text of a line.  \<open>fmt d\<close> is \<^verbatim>\<open>printf\<close>'s conversion with \<open>d\<close> places behind the point.\<close>

fun show_report :: "(int \<Rightarrow> string) \<Rightarrow> (nat \<Rightarrow> double \<Rightarrow> string) \<Rightarrow> log_state \<Rightarrow> report \<Rightarrow> string list" where
  "show_report strerror fmt st (Error_report message err) = error_msg strerror st message err"
| "show_report strerror fmt st (Result_report ret) = [print_result st ret]"
| "show_report strerror fmt st (Times_report u s w c) =
     info_msg st (fmt 2 (Num u) @ ''s user, '' @ fmt 2 (Num s) @ ''s system, '' @ fmt 2 (Num w) @ ''s wall, '' @
       fmt 2 c @ '' cores'' @ newline)"
| "show_report strerror fmt st (Rate_report r) = [''Result: '' @ fmt 0 r @ '' Kiter/s'' @ newline]"




section \<open>The lines printed at every point of \<^verbatim>\<open>locktest\<close>\<close>






lemma creates_nobody [simp]:
  "barrier_init_fetch a n p \<noteq> Create j l" "barrier_unblock_fetch a v u \<noteq> Create j l"
  "barrier_wait_fetch a w \<noteq> Create j l" "barrier_sync_fetch a y \<noteq> Create j l"
  "futex_wait_test_fetch fut f \<noteq> Create j l"
proof -
  show "futex_wait_test_fetch fut f \<noteq> Create j l"
  proof (cases "(fut, f)" rule: futex_wait_test_fetch.cases)
    case (1 fut' i p)
    then show ?thesis by (cases p) auto
  next
    case (2 fut' i p)
    then show ?thesis by (cases p) auto
  qed
qed (cases p, simp_all, cases u, simp_all, cases w, simp_all, cases y, simp_all)







section \<open>Properties\<close>










end
