(* ===== verification/Pi_Futex.thy ===== *)
theory Pi_Futex
  imports Logged_Runs
begin

text \<open>
  What futex(2) promises of the operations on priority-inheritance futexes, of requeueing and of
  signals, for kernels that do nothing of their own accord.

  A \<open>pi_view\<close> is what a kernel has to know: who sleeps on which futex (and, for
  \<^verbatim>\<open>FUTEX_WAIT_REQUEUE_PI\<close>, which pi futex it is to be requeued to), who waits for which pi futex, who
  holds it, and whose call a signal has cut short.  \<open>pi_call\<close> and \<open>pi_resume\<close> give the documented
  outcomes of a call and of its return after it blocked; \<open>pi_contract\<close> says that a kernel, seen
  through \<open>view\<close>, behaves so wherever the documentation gives an outcome.  The functional tests are
  meant to pass on such a kernel, and the theorems that say so name it as a hypothesis.

  \<open>pi_kernel\<close> is a kernel that keeps the contract, with queues in order of arrival; \<open>timer_kernel\<close>
  lets timeouts expire as well.
\<close>

section \<open>Who waits and who holds\<close>

record 'a pi_view =
  waits :: "tid \<Rightarrow> ('a \<times> 'a option) option"
  pi_waits :: "tid \<Rightarrow> ('a \<times> bool) option"
  holder :: "'a \<Rightarrow> tid option"
  cut_short :: "tid \<Rightarrow> int option"

text \<open>The flag of \<open>pi_waits\<close> tells that the thread was requeued there; \<open>cut_short\<close> is the \<^verbatim>\<open>errno\<close> with
  which the call is going to end.\<close>

definition pi_idle :: "'a pi_view" where
  "pi_idle = \<lparr>waits = \<lambda>_. None, pi_waits = \<lambda>_. None, holder = \<lambda>_. None, cut_short = \<lambda>_. None\<rparr>"

definition sleepers :: "'a pi_view \<Rightarrow> 'a \<Rightarrow> tid set" where
  "sleepers v a = {u. \<exists>b. waits v u = Some (a, b)}"

definition queued :: "'a pi_view \<Rightarrow> tid \<Rightarrow> bool" where
  "queued v t \<longleftrightarrow> waits v t \<noteq> None \<or> pi_waits v t \<noteq> None"

definition leave_queues :: "tid \<Rightarrow> 'a pi_view \<Rightarrow> 'a pi_view" where
  "leave_queues t v = v\<lparr>waits := (waits v)(t := None), pi_waits := (pi_waits v)(t := None)\<rparr>"

definition woken :: "tid set \<Rightarrow> 'a pi_view \<Rightarrow> 'a pi_view" where
  "woken W v = v\<lparr>waits := (\<lambda>u. if u \<in> W then None else waits v u)\<rparr>"

definition moved :: "tid set \<Rightarrow> 'a \<Rightarrow> 'a pi_view \<Rightarrow> 'a pi_view" where
  "moved W b v = v\<lparr>waits := (\<lambda>u. if u \<in> W then None else waits v u),
     pi_waits := (\<lambda>u. if u \<in> W then Some (b, True) else pi_waits v u)\<rparr>"

definition granted :: "tid \<Rightarrow> 'a \<Rightarrow> 'a pi_view \<Rightarrow> 'a pi_view" where
  "granted u b v = (leave_queues u v)\<lparr>holder := (holder v)(b \<mapsto> u)\<rparr>"

lemma idle_simps [simp]:
  "waits pi_idle t = None" "pi_waits pi_idle t = None" "holder pi_idle b = None" "cut_short pi_idle t = None"
  "sleepers pi_idle a = {}" "\<not> queued pi_idle t"
  by (simp_all add: pi_idle_def sleepers_def queued_def)

text \<open>At most \<open>n\<close> of the threads \<open>S\<close>, and all of them if they are not more.\<close>

definition chosen :: "int \<Rightarrow> tid set \<Rightarrow> tid set \<Rightarrow> bool" where
  "chosen n S W \<longleftrightarrow> finite W \<and> W \<subseteq> S \<and> int (card W) \<le> n \<and> (W = S \<or> int (card W) = n)"

section \<open>The documented outcomes\<close>

fun op_timeout :: "'a futex_op \<Rightarrow> timeout_arg" where
  "op_timeout (Wait a w tmo) = tmo"
| "op_timeout (Wait_requeue_pi a w tmo b) = tmo"
| "op_timeout (Lock_pi b tmo) = tmo"
| "op_timeout _ = No_timeout"

inductive pi_call ::
    "tid \<Rightarrow> 'a memory \<Rightarrow> 'a pi_view \<Rightarrow> 'a futex_op \<Rightarrow> (int \<times> int) option \<Rightarrow> 'a pi_view \<Rightarrow> bool"
  for t m v where
  timeout_refused: "\<not> timeout_valid (op_timeout f) \<Longrightarrow> pi_call t m v f (Some (- 1, EINVAL)) v"
| wait_changed: "timeout_valid tmo \<Longrightarrow> m a \<noteq> w \<Longrightarrow>
    pi_call t m v (Wait a w tmo) (Some (- 1, EWOULDBLOCK)) v"
| wait_blocks: "timeout_valid tmo \<Longrightarrow> m a = w \<Longrightarrow>
    pi_call t m v (Wait a w tmo) None (v\<lparr>waits := (waits v)(t \<mapsto> (a, None))\<rparr>)"
| wake: "0 < n \<Longrightarrow> (\<And>u c. waits v u = Some (a, c) \<Longrightarrow> c = None) \<Longrightarrow> chosen n (sleepers v a) W \<Longrightarrow>
    pi_call t m v (Wake a n) (Some (int (card W), 0)) (woken W v)"
| wait_requeue_changed: "timeout_valid tmo \<Longrightarrow> m a \<noteq> w \<Longrightarrow>
    pi_call t m v (Wait_requeue_pi a w tmo (Some b)) (Some (- 1, EWOULDBLOCK)) v"
| wait_requeue_blocks: "timeout_valid tmo \<Longrightarrow> m a = w \<Longrightarrow>
    pi_call t m v (Wait_requeue_pi a w tmo (Some b)) None (v\<lparr>waits := (waits v)(t \<mapsto> (a, Some b))\<rparr>)"
| requeue_changed: "m a \<noteq> w \<Longrightarrow>
    pi_call t m v (Cmp_requeue_pi a (Some b) n (Count k) w) (Some (- 1, EAGAIN)) v"
| requeue_refused: "m a = w \<Longrightarrow> waits v u = Some (a, c) \<Longrightarrow>
    (\<And>u c. waits v u = Some (a, c) \<Longrightarrow> c \<noteq> Some b) \<Longrightarrow>
    pi_call t m v (Cmp_requeue_pi a (Some b) n (Count k) w) (Some (- 1, EINVAL)) v"
| requeue_none: "m a = w \<Longrightarrow> sleepers v a = {} \<Longrightarrow>
    pi_call t m v (Cmp_requeue_pi a (Some b) n (Count k) w) (Some (0, 0)) v"
| requeue_held: "m a = w \<Longrightarrow> 0 < n + k \<Longrightarrow> (\<And>u c. waits v u = Some (a, c) \<Longrightarrow> c = Some b) \<Longrightarrow>
    sleepers v a \<noteq> {} \<Longrightarrow> holder v b \<noteq> None \<Longrightarrow> chosen (n + k) (sleepers v a) W \<Longrightarrow>
    pi_call t m v (Cmp_requeue_pi a (Some b) n (Count k) w) (Some (int (card W), 0)) (moved W b v)"
| requeue_free: "m a = w \<Longrightarrow> 0 < n + k \<Longrightarrow> (\<And>u c. waits v u = Some (a, c) \<Longrightarrow> c = Some b) \<Longrightarrow>
    holder v b = None \<Longrightarrow> chosen (n + k) (sleepers v a) W \<Longrightarrow> u \<in> W \<Longrightarrow>
    pi_call t m v (Cmp_requeue_pi a (Some b) n (Count k) w) (Some (int (card W), 0))
      (granted u b (moved W b v))"
| lock_free: "timeout_valid tmo \<Longrightarrow> holder v b = None \<Longrightarrow>
    pi_call t m v (Lock_pi b tmo) (Some (0, 0)) (v\<lparr>holder := (holder v)(b \<mapsto> t)\<rparr>)"
| lock_own: "timeout_valid tmo \<Longrightarrow> holder v b = Some t \<Longrightarrow>
    pi_call t m v (Lock_pi b tmo) (Some (- 1, EDEADLK)) v"
| lock_blocks: "timeout_valid tmo \<Longrightarrow> holder v b = Some u \<Longrightarrow> u \<noteq> t \<Longrightarrow>
    pi_call t m v (Lock_pi b tmo) None (v\<lparr>pi_waits := (pi_waits v)(t \<mapsto> (b, False))\<rparr>)"
| unlock_last: "holder v b = Some t \<Longrightarrow> (\<And>u f. pi_waits v u \<noteq> Some (b, f)) \<Longrightarrow>
    pi_call t m v (Unlock_pi b) (Some (0, 0)) (v\<lparr>holder := (holder v)(b := None)\<rparr>)"
| unlock_hands_over: "holder v b = Some t \<Longrightarrow> pi_waits v u = Some (b, f) \<Longrightarrow>
    pi_call t m v (Unlock_pi b) (Some (0, 0)) (granted u b v)"
| unlock_not_held: "holder v b \<noteq> Some t \<Longrightarrow> pi_call t m v (Unlock_pi b) (Some (- 1, EPERM)) v"

text \<open>The return of a call that blocked.\<close>

inductive pi_resume ::
    "tid \<Rightarrow> 'a futex_op \<Rightarrow> 'a pi_view \<Rightarrow> int \<times> int \<Rightarrow> 'a pi_view \<Rightarrow> bool"
  for t f v where
  resume_woken: "\<not> queued v t \<Longrightarrow> cut_short v t = None \<Longrightarrow> pi_resume t f v (0, 0) v"
| resume_signalled: "\<not> queued v t \<Longrightarrow> cut_short v t = Some e \<Longrightarrow>
    pi_resume t f v (- 1, e) (v\<lparr>cut_short := (cut_short v)(t := None)\<rparr>)"
| resume_timed_out: "queued v t \<Longrightarrow> op_timeout f \<noteq> No_timeout \<Longrightarrow>
    pi_resume t f v (- 1, ETIMEDOUT) (leave_queues t v)"

text \<open>A signal whose handler returns: a wait that was requeued ends with \<^verbatim>\<open>EWOULDBLOCK\<close>, a plain wait with
  \<^verbatim>\<open>EINTR\<close>; a wait that is yet to be requeued and a lock are restarted by the kernel.\<close>

definition pi_signal :: "tid \<Rightarrow> 'a pi_view \<Rightarrow> 'a pi_view" where
  "pi_signal j v =
     (case (waits v j, pi_waits v j) of
        (_, Some (b, True)) \<Rightarrow> (leave_queues j v)\<lparr>cut_short := (cut_short v)(j \<mapsto> EWOULDBLOCK)\<rparr>
      | (Some (a, None), None) \<Rightarrow> (leave_queues j v)\<lparr>cut_short := (cut_short v)(j \<mapsto> EINTR)\<rparr>
      | _ \<Rightarrow> v)"

text \<open>The words the kernel may write: those of the pi futexes of the call.\<close>

fun pi_words :: "'a futex_op \<Rightarrow> 'a set" where
  "pi_words (Lock_pi b tmo) = {b}"
| "pi_words (Unlock_pi b) = {b}"
| "pi_words (Wait_requeue_pi a w tmo b) = set_option b"
| "pi_words (Cmp_requeue_pi a b n k w) = set_option b"
| "pi_words _ = {}"

definition same_outside :: "'a set \<Rightarrow> 'a memory \<Rightarrow> 'a memory \<Rightarrow> bool" where
  "same_outside A m m' \<longleftrightarrow> (\<forall>a. a \<notin> A \<longrightarrow> m' a = m a)"

section \<open>The contract\<close>

definition calls_contract :: "('a, 'k) kernel \<Rightarrow> ('k \<Rightarrow> 'a pi_view) \<Rightarrow> bool" where
  "calls_contract K view \<longleftrightarrow>
     (\<forall>t c m k f r m' k'. decode c = Some f \<and> kcall K t c m k = (r, m', k') \<and>
        (\<exists>r0 v0. pi_call t m (view k) f r0 v0) \<longrightarrow>
        pi_call t m (view k) f r (view k') \<and> same_outside (pi_words f) m m')"

definition returns_contract :: "('a, 'k) kernel \<Rightarrow> ('k \<Rightarrow> 'a pi_view) \<Rightarrow> bool" where
  "returns_contract K view \<longleftrightarrow>
     (\<forall>t c m k f. decode c = Some f \<longrightarrow>
        (case kresume K t c m k of
           None \<Rightarrow> queued (view k) t
         | Some (r, m', k') \<Rightarrow> pi_resume t f (view k) r (view k') \<and> same_outside (pi_words f) m m'))"

definition quiet_contract :: "('a, 'k) kernel \<Rightarrow> ('k \<Rightarrow> 'a pi_view) \<Rightarrow> bool" where
  "quiet_contract K view \<longleftrightarrow>
     (\<forall>j k. view (snd (kcreate K j k)) = view k) \<and>
     (\<forall>j k. view (ksignal K j k) = pi_signal j (view k)) \<and>
     (\<forall>k. view (ktick K k) = view k)"

definition pi_contract :: "('a, 'k) kernel \<Rightarrow> ('k \<Rightarrow> 'a pi_view) \<Rightarrow> bool" where
  "pi_contract K view \<longleftrightarrow> calls_contract K view \<and> returns_contract K view \<and> quiet_contract K view"

section \<open>A kernel that keeps the contract\<close>

record 'a pi_state =
  sleep_queue :: "(tid \<times> 'a \<times> 'a option) list"
  lock_queue :: "(tid \<times> 'a \<times> bool) list"
  lock_holder :: "'a \<Rightarrow> tid option"
  signals :: "tid \<Rightarrow> int option"

definition pi_start :: "'a pi_state" where
  "pi_start = \<lparr>sleep_queue = [], lock_queue = [], lock_holder = \<lambda>_. None, signals = \<lambda>_. None\<rparr>"

definition pi_view_of :: "'a pi_state \<Rightarrow> 'a pi_view" where
  "pi_view_of k = \<lparr>waits = map_of (sleep_queue k), pi_waits = map_of (lock_queue k),
     holder = lock_holder k, cut_short = signals k\<rparr>"

text \<open>The threads queued on a futex, the first in the queue first.\<close>

definition on_futex :: "'a \<Rightarrow> (tid \<times> 'a \<times> 'b) list \<Rightarrow> tid list" where
  "on_futex a q = filter (\<lambda>u. map_option fst (map_of q u) = Some a) (remdups (map fst q))"

definition targets :: "'a \<Rightarrow> (tid \<times> 'a \<times> 'b) list \<Rightarrow> 'b list" where
  "targets a q = map (\<lambda>u. snd (the (map_of q u))) (on_futex a q)"

definition take_over :: "tid \<Rightarrow> 'a \<Rightarrow> 'a pi_state \<Rightarrow> 'a pi_state" where
  "take_over u b k = k\<lparr>sleep_queue := dequeue [u] (sleep_queue k), lock_queue := dequeue [u] (lock_queue k),
     lock_holder := (lock_holder k)(b \<mapsto> u)\<rparr>"

definition requeue :: "tid list \<Rightarrow> 'a \<Rightarrow> 'a pi_state \<Rightarrow> 'a pi_state" where
  "requeue us b k = k\<lparr>sleep_queue := dequeue us (sleep_queue k),
     lock_queue := dequeue us (lock_queue k) @ map (\<lambda>u. (u, b, True)) us\<rparr>"

fun pi_do ::
    "tid \<Rightarrow> 'a futex_op option \<Rightarrow> 'a memory \<Rightarrow> 'a pi_state \<Rightarrow> (int \<times> int) option \<times> 'a pi_state" where
  "pi_do t (Some (Wait a w tmo)) m k =
     (if \<not> timeout_valid tmo then (Some (- 1, EINVAL), k)
      else if m a \<noteq> w then (Some (- 1, EWOULDBLOCK), k)
      else (None, k\<lparr>sleep_queue := dequeue [t] (sleep_queue k) @ [(t, a, None)]\<rparr>))"
| "pi_do t (Some (Wait_requeue_pi a w tmo (Some b))) m k =
     (if \<not> timeout_valid tmo then (Some (- 1, EINVAL), k)
      else if m a \<noteq> w then (Some (- 1, EWOULDBLOCK), k)
      else (None, k\<lparr>sleep_queue := dequeue [t] (sleep_queue k) @ [(t, a, Some b)]\<rparr>))"
| "pi_do t (Some (Wake a n)) m k =
     (let us = take_upto n (on_futex a (sleep_queue k))
      in (Some (int (length us), 0), k\<lparr>sleep_queue := dequeue us (sleep_queue k)\<rparr>))"
| "pi_do t (Some (Cmp_requeue_pi a (Some b) n (Count j) w)) m k =
     (if m a \<noteq> w then (Some (- 1, EAGAIN), k)
      else if list_ex (\<lambda>c. c \<noteq> Some b) (targets a (sleep_queue k)) then (Some (- 1, EINVAL), k)
      else (case take_upto (n + j) (on_futex a (sleep_queue k)) of
              [] \<Rightarrow> (Some (0, 0), k)
            | u # us \<Rightarrow>
                (Some (int (length (u # us)), 0),
                 if lock_holder k b = None then take_over u b (requeue (u # us) b k)
                 else requeue (u # us) b k)))"
| "pi_do t (Some (Lock_pi b tmo)) m k =
     (if \<not> timeout_valid tmo then (Some (- 1, EINVAL), k)
      else case lock_holder k b of
             None \<Rightarrow> (Some (0, 0), k\<lparr>lock_holder := (lock_holder k)(b \<mapsto> t)\<rparr>)
           | Some u \<Rightarrow>
               (if u = t then (Some (- 1, EDEADLK), k)
                else (None, k\<lparr>lock_queue := dequeue [t] (lock_queue k) @ [(t, b, False)]\<rparr>)))"
| "pi_do t (Some (Unlock_pi b)) m k =
     (if lock_holder k b \<noteq> Some t then (Some (- 1, EPERM), k)
      else (Some (0, 0),
        (case on_futex b (lock_queue k) of
           [] \<Rightarrow> k\<lparr>lock_holder := (lock_holder k)(b := None)\<rparr>
         | u # _ \<Rightarrow> take_over u b k)))"
| "pi_do t (Some (Wait_requeue_pi a w tmo None)) m k =
     (if \<not> timeout_valid tmo then (Some (- 1, EINVAL), k) else (Some (- 1, ENOSYS), k))"
| "pi_do t _ m k = (Some (- 1, ENOSYS), k)"

definition pi_raise :: "tid \<Rightarrow> 'a pi_state \<Rightarrow> 'a pi_state" where
  "pi_raise j k =
     (let cut = (\<lambda>e. k\<lparr>sleep_queue := dequeue [j] (sleep_queue k), lock_queue := dequeue [j] (lock_queue k),
            signals := (signals k)(j \<mapsto> e)\<rparr>)
      in case (map_of (sleep_queue k) j, map_of (lock_queue k) j) of
           (_, Some (b, True)) \<Rightarrow> cut EWOULDBLOCK
         | (Some (a, None), None) \<Rightarrow> cut EINTR
         | _ \<Rightarrow> k)"

definition pi_kernel :: "('a, 'a pi_state) kernel" where
  "pi_kernel =
     \<lparr>kcall = (\<lambda>t c m k. case pi_do t (decode c) m k of (r, k') \<Rightarrow> (r, m, k')),
      kresume = (\<lambda>t c m k.
        if map_of (sleep_queue k) t \<noteq> None \<or> map_of (lock_queue k) t \<noteq> None then None
        else case signals k t of
               None \<Rightarrow> Some ((0, 0), m, k)
             | Some e \<Rightarrow> Some ((- 1, e), m, k\<lparr>signals := (signals k)(t := None)\<rparr>)),
      kcreate = (\<lambda>j k. (0, k)),
      ksignal = pi_raise,
      ktick = (\<lambda>k. k),
      kwaiting = (\<lambda>k t. map_option fst (map_of (sleep_queue k) t))\<rparr>"

lemma pi_view_simps [simp]:
  "waits (pi_view_of k) = map_of (sleep_queue k)" "pi_waits (pi_view_of k) = map_of (lock_queue k)"
  "holder (pi_view_of k) = lock_holder k" "cut_short (pi_view_of k) = signals k"
  by (simp_all add: pi_view_of_def)

lemma set_on_futex: "set (on_futex a q) = {u. \<exists>c. map_of q u = Some (a, c)}"
  by (auto simp: on_futex_def map_of_eq_None_iff [symmetric] dest: map_of_SomeD intro!: rev_image_eqI)

lemma sleepers_view: "sleepers (pi_view_of k) a = set (on_futex a (sleep_queue k))"
  by (simp add: sleepers_def set_on_futex)

lemma in_targets: "c \<in> set (targets a q) \<longleftrightarrow> (\<exists>u. map_of q u = Some (a, c))"
  by (force simp: targets_def set_on_futex)

lemma chosen_upto:
  assumes "0 < n" "distinct xs"
  shows "chosen n (set xs) (set (take_upto n xs))" "card (set (take_upto n xs)) = length (take_upto n xs)"
proof -
  have us: "take_upto n xs = take (nat n) xs" using assms(1) by (auto simp: take_upto_def)
  show "card (set (take_upto n xs)) = length (take_upto n xs)"
    using assms(2) by (simp add: us distinct_card)
  then show "chosen n (set xs) (set (take_upto n xs))"
    unfolding us chosen_def using assms(1) set_take_subset [of "nat n" xs]
    by (cases "nat n \<le> length xs") auto
qed

lemma distinct_on_futex: "distinct (on_futex a q)"
  by (simp add: on_futex_def)

lemma view_put: "pi_view_of (k\<lparr>sleep_queue := dequeue [t] (sleep_queue k) @ [(t, x)]\<rparr>) =
    (pi_view_of k)\<lparr>waits := (map_of (sleep_queue k))(t \<mapsto> x)\<rparr>"
  by (auto simp: pi_view_of_def map_add_def map_of_dequeue fun_eq_iff split: option.splits)

lemma view_put_lock: "pi_view_of (k\<lparr>lock_queue := dequeue [t] (lock_queue k) @ [(t, x)]\<rparr>) =
    (pi_view_of k)\<lparr>pi_waits := (map_of (lock_queue k))(t \<mapsto> x)\<rparr>"
  by (auto simp: pi_view_of_def map_add_def map_of_dequeue fun_eq_iff split: option.splits)

lemma view_woken: "pi_view_of (k\<lparr>sleep_queue := dequeue us (sleep_queue k)\<rparr>) = woken (set us) (pi_view_of k)"
  by (auto simp: woken_def pi_view_of_def map_of_dequeue)

lemma map_of_same: "map_of (map (\<lambda>u. (u, x)) us) u = (if u \<in> set us then Some x else None)"
  by (induction us) auto

lemma view_requeue: "pi_view_of (requeue us b k) = moved (set us) b (pi_view_of k)"
  by (auto simp: moved_def pi_view_of_def requeue_def map_add_def map_of_dequeue map_of_same fun_eq_iff
      split: option.splits)

lemma view_take_over: "pi_view_of (take_over u b k) = granted u b (pi_view_of k)"
  by (auto simp: granted_def leave_queues_def pi_view_of_def take_over_def map_of_dequeue fun_eq_iff)

lemma view_hold: "pi_view_of (k\<lparr>lock_holder := h\<rparr>) = (pi_view_of k)\<lparr>holder := h\<rparr>"
  by (simp add: pi_view_of_def)

lemma view_signals: "pi_view_of (k\<lparr>signals := h\<rparr>) = (pi_view_of k)\<lparr>cut_short := h\<rparr>"
  by (simp add: pi_view_of_def)

lemmas view_changes = view_hold view_signals view_put view_put_lock view_woken view_requeue view_take_over

lemma pi_do_requeue:
  assumes right: "\<And>u c. map_of (sleep_queue k) u = Some (a, c) \<Longrightarrow> c = Some b" and n: "0 < n + j" and w: "m a = w"
    and some: "on_futex a (sleep_queue k) \<noteq> []"
  shows "case pi_do t (Some (Cmp_requeue_pi a (Some b) n (Count j) w)) m k of (r, k') \<Rightarrow>
    pi_call t m (pi_view_of k) (Cmp_requeue_pi a (Some b) n (Count j) w) r (pi_view_of k')"
proof -
  let ?us = "take_upto (n + j) (on_futex a (sleep_queue k))"
  have "\<not> list_ex (\<lambda>c. c \<noteq> Some b) (targets a (sleep_queue k))"
    using right by (auto simp: list_ex_iff in_targets)
  moreover have us: "chosen (n + j) (sleepers (pi_view_of k) a) (set ?us)" "card (set ?us) = length ?us"
    using chosen_upto [OF n distinct_on_futex, of a "sleep_queue k"] by (simp_all add: sleepers_view)
  moreover have "?us \<noteq> []" using n some by (auto simp: take_upto_def)
  then obtain u us where u: "?us = u # us" by (cases ?us) auto
  moreover from u have "u \<in> set ?us" by simp
  moreover have "sleepers (pi_view_of k) a \<noteq> {}" using some by (simp add: sleepers_view)
  ultimately show ?thesis
    using requeue_free [of m a w n j "pi_view_of k" b "set ?us" u t]
      requeue_held [of m a w n j "pi_view_of k" b "set ?us" t] w n right
    by (cases "lock_holder k b") (simp_all add: view_changes del: set_simps)
qed

lemma pi_do_timeout: "\<not> timeout_valid (op_timeout f) \<Longrightarrow> pi_do t (Some f) m k = (Some (- 1, EINVAL), k)"
  by (cases "(t, Some f, m, k)" rule: pi_do.cases) auto

lemma pi_do_call:
  assumes "pi_call t m (pi_view_of k) f r0 v0"
  shows "case pi_do t (Some f) m k of (r, k') \<Rightarrow> pi_call t m (pi_view_of k) f r (pi_view_of k')"
  using assms
proof cases
  case timeout_refused
  with pi_do_timeout [of f t m k] show ?thesis by (auto intro: pi_call.timeout_refused)
next
  case (wake n a W)
  with chosen_upto [OF wake(4) distinct_on_futex, of a "sleep_queue k"] show ?thesis
    using pi_call.wake [of n "pi_view_of k" a "set (take_upto n (on_futex a (sleep_queue k)))" t m]
    by (simp add: sleepers_view view_changes Let_def)
next
  case (requeue_refused a w u c b n j)
  then have "c \<in> set (targets a (sleep_queue k))" "c \<noteq> Some b" unfolding in_targets by auto
  then have "list_ex (\<lambda>c. c \<noteq> Some b) (targets a (sleep_queue k))" by (auto simp: list_ex_iff)
  with requeue_refused pi_call.requeue_refused [of m a w "pi_view_of k" u c b t n j] show ?thesis by simp
next
  case (requeue_none a w b n j)
  then have "on_futex a (sleep_queue k) = []" by (simp add: sleepers_view)
  with requeue_none pi_call.requeue_none [of m a w "pi_view_of k" t b n j] show ?thesis
    by (simp add: targets_def take_upto_def)
next
  case (requeue_held a w n j b W)
  with pi_do_requeue [of k a b n j m w t] show ?thesis by (simp add: sleepers_view)
next
  case (requeue_free a w n j b W u)
  then have "on_futex a (sleep_queue k) \<noteq> []" by (auto simp: chosen_def sleepers_view)
  with requeue_free pi_do_requeue [of k a b n j m w t] show ?thesis by simp
next
  case (unlock_last b)
  then have "on_futex b (lock_queue k) = []"
    using set_on_futex [of b "lock_queue k"] by auto
  with unlock_last pi_call.unlock_last [of "pi_view_of k" b t m] show ?thesis
    by (simp add: view_changes)
next
  case (unlock_hands_over b u f)
  then have "u \<in> set (on_futex b (lock_queue k))" by (auto simp: set_on_futex)
  then obtain u' us where us: "on_futex b (lock_queue k) = u' # us" by (cases "on_futex b (lock_queue k)") auto
  then have "u' \<in> set (on_futex b (lock_queue k))" by simp
  then obtain f' where "map_of (lock_queue k) u' = Some (b, f')" by (auto simp: set_on_futex)
  with us unlock_hands_over pi_call.unlock_hands_over [of "pi_view_of k" b t u' f' m] show ?thesis
    by (simp add: view_changes)
qed (use assms in \<open>auto simp: view_changes\<close>)

lemma pi_raise_view: "pi_view_of (pi_raise j k) = pi_signal j (pi_view_of k)"
  by (simp add: pi_raise_def pi_signal_def Let_def split: option.splits prod.splits bool.splits)
    (auto simp: pi_view_of_def leave_queues_def map_of_dequeue fun_eq_iff)

lemma pi_kernel_signalled:
  assumes "\<forall>a b. map_of (sleep_queue k) t \<noteq> Some (a, b)" "\<forall>a b. map_of (lock_queue k) t \<noteq> Some (a, b)"
    "signals k t = Some e"
  shows "pi_resume t f (pi_view_of k) (- 1, e) (pi_view_of (k\<lparr>signals := (signals k)(t := None)\<rparr>))"
  using assms resume_signalled [of "pi_view_of k" t e f] by (simp add: view_changes queued_def)

lemma pi_kernel_contract: "pi_contract pi_kernel pi_view_of"
proof -
  have "calls_contract pi_kernel pi_view_of"
    unfolding calls_contract_def
  proof (intro allI impI, elim conjE exE, goal_cases)
    case (1 t c m k f r m' k' r0 v0)
    with pi_do_call [OF 1(3)] show ?case
      by (auto simp: pi_kernel_def same_outside_def split: prod.splits)
  qed
  moreover have "returns_contract pi_kernel pi_view_of"
    by (auto simp: returns_contract_def pi_kernel_def same_outside_def queued_def
        split: option.splits intro: resume_woken pi_kernel_signalled)
  moreover have "quiet_contract pi_kernel pi_view_of"
    by (simp add: quiet_contract_def pi_kernel_def pi_raise_view)
  ultimately show ?thesis by (simp add: pi_contract_def)
qed

text \<open>The same kernel with a clock that is always up: a call that has a timeout and is queued ends with
  \<^verbatim>\<open>ETIMEDOUT\<close> when its turn comes.\<close>

definition expire :: "tid \<Rightarrow> 'a pi_state \<Rightarrow> 'a pi_state" where
  "expire t k = k\<lparr>sleep_queue := dequeue [t] (sleep_queue k), lock_queue := dequeue [t] (lock_queue k)\<rparr>"

definition timer_kernel :: "('a, 'a pi_state) kernel" where
  "timer_kernel = pi_kernel\<lparr>kresume := (\<lambda>t c m k.
     case kresume pi_kernel t c m k of
       Some x \<Rightarrow> Some x
     | None \<Rightarrow>
         (case decode c of
            None \<Rightarrow> None
          | Some f \<Rightarrow> if op_timeout f \<noteq> No_timeout then Some ((- 1, ETIMEDOUT), m, expire t k) else None))\<rparr>"

lemma view_expire: "pi_view_of (expire t k) = leave_queues t (pi_view_of k)"
  by (auto simp: expire_def leave_queues_def pi_view_of_def map_of_dequeue fun_eq_iff)

lemma timer_kernel_quiet:
  "calls_contract timer_kernel view = calls_contract pi_kernel view"
  "quiet_contract timer_kernel view = quiet_contract pi_kernel view"
  by (simp_all add: calls_contract_def quiet_contract_def timer_kernel_def)

lemma timer_kernel_contract: "pi_contract timer_kernel (pi_view_of :: 'a pi_state \<Rightarrow> 'a pi_view)"
  unfolding pi_contract_def
proof (intro conjI)
  note pi = pi_kernel_contract [where ?'a = 'a, unfolded pi_contract_def]
  from pi show "calls_contract timer_kernel (pi_view_of :: 'a pi_state \<Rightarrow> 'a pi_view)"
    "quiet_contract timer_kernel (pi_view_of :: 'a pi_state \<Rightarrow> 'a pi_view)"
    by (simp_all only: timer_kernel_quiet)
  show "returns_contract timer_kernel (pi_view_of :: 'a pi_state \<Rightarrow> 'a pi_view)"
    unfolding returns_contract_def
  proof (intro allI impI)
    fix t :: tid and c :: "'a futex_call" and m k f
    assume f: "decode c = Some f"
    note ret = pi [THEN conjunct2, THEN conjunct1, unfolded returns_contract_def, rule_format, OF f, of k t m]
    show "case kresume timer_kernel t c m k of None \<Rightarrow> queued (pi_view_of k) t
        | Some (r, m', k') \<Rightarrow> pi_resume t f (pi_view_of k) r (pi_view_of k') \<and> same_outside (pi_words f) m m'"
    proof (cases "kresume pi_kernel t c m k")
      case None
      with ret have "queued (pi_view_of k) t" by simp
      with None f resume_timed_out [of "pi_view_of k" t f] show ?thesis
        by (simp add: timer_kernel_def view_expire same_outside_def)
    next
      case (Some x)
      with ret show ?thesis by (simp add: timer_kernel_def split: prod.splits)
    qed
  qed
qed

lemma pi_kernel_writes: "writes_only pi_kernel A"
  by (auto simp: writes_only_def pi_kernel_def split: prod.splits if_splits option.splits)

lemma timer_kernel_writes: "writes_only timer_kernel A"
  by (auto simp: writes_only_def timer_kernel_def pi_kernel_def split: prod.splits if_splits option.splits)

lemma pi_start_idle: "pi_view_of pi_start = pi_idle"
  by (simp add: pi_view_of_def pi_start_def pi_idle_def fun_eq_iff)

end
