(* ===== verification/Pi_Runs.thy ===== *)
theory Pi_Runs
  imports Pi_Futex
begin

text \<open>
  Runs of a functional test on a kernel that keeps \<open>pi_contract\<close>.  \<open>pstep\<close> is \<open>lstep\<close> with the
  contract in place of the unknown kernel: its states are pairs of the state of the test and the
  view of the kernel.  Where the contract says nothing of a call anything may happen (\<open>p_unknown\<close>).
  \<open>mstep_pstep\<close> proves that the machine on such a kernel makes steps of \<open>pstep\<close> only.  The interface
  \<open>pi_program\<close> extends \<open>test_program\<close>: an invariant of \<open>pstep\<close>, which may use the one known for
  any kernel, holds in all runs.
\<close>

section \<open>The machine over the contract\<close>

inductive pstep ::
    "('a, 'l) program \<Rightarrow> ('a, 'l) lstate \<times> 'a pi_view \<Rightarrow> ('a, 'l) lstate \<times> 'a pi_view \<Rightarrow> bool"
  for P where
  p_mem: "lthr s t = Running l \<Longrightarrow> exec_mem (fetch P l) (lmem s) = Some (r, m) \<Longrightarrow>
    pstep P (s, v) (lgoto t (Running (cont P l r)) (s\<lparr>lmem := m\<rparr>), v)"
| p_call: "lthr s t = Running l \<Longrightarrow> fetch P l = Syscall c \<Longrightarrow> decode c = Some f \<Longrightarrow>
    pi_call t (lmem s) v f (Some (r, e)) v' \<Longrightarrow> same_outside (pi_words f) (lmem s) m \<Longrightarrow>
    pstep P (s, v)
      (lgoto t (Running (cont P l (Ret r e))) (s\<lparr>lmem := m, llog := llog s @ [Called t c r e]\<rparr>), v')"
| p_block: "lthr s t = Running l \<Longrightarrow> fetch P l = Syscall c \<Longrightarrow> decode c = Some f \<Longrightarrow>
    pi_call t (lmem s) v f None v' \<Longrightarrow> same_outside (pi_words f) (lmem s) m \<Longrightarrow>
    pstep P (s, v) (lgoto t (Blocked l) (s\<lparr>lmem := m\<rparr>), v')"
| p_resume: "lthr s t = Blocked l \<Longrightarrow> fetch P l = Syscall c \<Longrightarrow> decode c = Some f \<Longrightarrow>
    pi_resume t f v (r, e) v' \<Longrightarrow> same_outside (pi_words f) (lmem s) m \<Longrightarrow>
    pstep P (s, v)
      (lgoto t (Running (cont P l (Ret r e))) (s\<lparr>lmem := m, llog := llog s @ [Called t c r e]\<rparr>), v')"
| p_unknown: "lthr s t = Running l \<or> lthr s t = Blocked l \<Longrightarrow> fetch P l = Syscall c \<Longrightarrow>
    (\<And>f r v'. decode c = Some f \<Longrightarrow> lthr s t = Running l \<and> \<not> pi_call t (lmem s) v f r v') \<Longrightarrow>
    pstep P (s, v) sv"
| p_create: "lthr s t = Running l \<Longrightarrow> fetch P l = Create j l0 \<Longrightarrow> lthr s j = Unborn \<Longrightarrow>
    pstep P (s, v) (lgoto t (Running (cont P l (Ret 0 0)))
      (lgoto j (Running l0) (s\<lparr>llog := llog s @ [Created j 0]\<rparr>)), v)"
| p_create_fail: "lthr s t = Running l \<Longrightarrow> fetch P l = Create j l0 \<Longrightarrow> r \<noteq> 0 \<Longrightarrow>
    pstep P (s, v) (lgoto t (Running (cont P l (Ret r 0))) (s\<lparr>llog := llog s @ [Created j r]\<rparr>), v)"
| p_join: "lthr s t = Running l \<Longrightarrow> fetch P l = Join j \<Longrightarrow> lthr s j = Exited \<Longrightarrow>
    pstep P (s, v) (lgoto t (Running (cont P l (Ret 0 0))) s, v)"
| p_kill: "lthr s t = Running l \<Longrightarrow> fetch P l = Kill j \<Longrightarrow>
    pstep P (s, v)
      (lgoto t (Running (cont P l (Ret 0 0))) (s\<lparr>llog := llog s @ [Signalled j]\<rparr>), pi_signal j v)"
| p_exit: "lthr s t = Running l \<Longrightarrow> fetch P l = Exit \<Longrightarrow> pstep P (s, v) (lgoto t Exited s, v)"
| p_halt: "lthr s t = Running l \<Longrightarrow> fetch P l = Halt \<Longrightarrow> pstep P (s, v) (s\<lparr>lthr := \<lambda>_. Exited\<rparr>, v)"

text \<open>The same by the thread that moves and its instruction.\<close>

definition p_move ::
    "('a, 'l) program \<Rightarrow> tid \<Rightarrow> 'l \<Rightarrow> ('a, 'l) lstate \<Rightarrow> 'a pi_view \<Rightarrow> ('a, 'l) lstate \<Rightarrow> 'a pi_view \<Rightarrow> bool"
  where
  "p_move P t l s v s' v' \<longleftrightarrow>
     (case fetch P l of
        Syscall c \<Rightarrow>
          (case decode c of
             None \<Rightarrow> True
           | Some f \<Rightarrow>
               (lthr s t = Running l \<and> (\<forall>r w. \<not> pi_call t (lmem s) v f r w)) \<or>
               (\<exists>m. same_outside (pi_words f) (lmem s) m \<and>
                  ((lthr s t = Running l \<and> pi_call t (lmem s) v f None v' \<and>
                    s' = lgoto t (Blocked l) (s\<lparr>lmem := m\<rparr>)) \<or>
                   (\<exists>r e. (if lthr s t = Running l then pi_call t (lmem s) v f (Some (r, e)) v'
                          else pi_resume t f v (r, e) v') \<and>
                     s' = lgoto t (Running (cont P l (Ret r e)))
                       (s\<lparr>lmem := m, llog := llog s @ [Called t c r e]\<rparr>)))))
      | Create j l0 \<Rightarrow> v' = v \<and>
          ((lthr s j = Unborn \<and> s' = lgoto t (Running (cont P l (Ret 0 0)))
             (lgoto j (Running l0) (s\<lparr>llog := llog s @ [Created j 0]\<rparr>))) \<or>
           (\<exists>r. r \<noteq> 0 \<and> s' = lgoto t (Running (cont P l (Ret r 0))) (s\<lparr>llog := llog s @ [Created j r]\<rparr>)))
      | Join j \<Rightarrow> v' = v \<and> lthr s j = Exited \<and> s' = lgoto t (Running (cont P l (Ret 0 0))) s
      | Kill j \<Rightarrow> v' = pi_signal j v \<and>
          s' = lgoto t (Running (cont P l (Ret 0 0))) (s\<lparr>llog := llog s @ [Signalled j]\<rparr>)
      | Exit \<Rightarrow> v' = v \<and> s' = lgoto t Exited s
      | Halt \<Rightarrow> v' = v \<and> s' = s\<lparr>lthr := \<lambda>_. Exited\<rparr>
      | i \<Rightarrow> v' = v \<and> (\<exists>r m. exec_mem i (lmem s) = Some (r, m) \<and>
          s' = lgoto t (Running (cont P l r)) (s\<lparr>lmem := m\<rparr>)))"

lemma pstep_move:
  assumes "pstep P (s, v) (s', v')"
  shows "\<exists>t l. (lthr s t = Running l \<or> (lthr s t = Blocked l \<and> (\<exists>c. fetch P l = Syscall c))) \<and>
    p_move P t l s v s' v'"
  using assms
proof cases
  case (p_mem t l r m)
  have "p_move P t l s v s' v'"
    using p_mem by (cases "fetch P l") (auto simp: p_move_def)
  with p_mem show ?thesis by blast
next
  case (p_unknown t l c)
  then have "p_move P t l s v s' v'" by (auto simp: p_move_def split: option.split)
  with p_unknown show ?thesis by blast
next
  case (p_resume t l c f r e m)
  then have "p_move P t l s v s' v'" by (auto simp: p_move_def)
  with p_resume show ?thesis by blast
qed (force simp: p_move_def)+

abbreviation kview :: "('k \<Rightarrow> 'a pi_view) \<Rightarrow> ('a, 'l, 'k \<times> 'a event list) mstate \<Rightarrow> 'a pi_view" where
  "kview view s \<equiv> view (fst (ks s))"

section \<open>The machine makes these steps only\<close>

lemma pi_contractD:
  assumes "pi_contract K view"
  shows "decode c = Some f \<Longrightarrow> kcall K t c m k = (r, m', k') \<Longrightarrow> pi_call t m (view k) f r0 v0 \<Longrightarrow>
      pi_call t m (view k) f r (view k') \<and> same_outside (pi_words f) m m'"
    and "decode c = Some f \<Longrightarrow> kresume K t c m k = Some ((n, e), m', k') \<Longrightarrow>
      pi_resume t f (view k) (n, e) (view k') \<and> same_outside (pi_words f) m m'"
    and "kcreate K j k = (n, k') \<Longrightarrow> view k' = view k"
    and "view (ksignal K j k) = pi_signal j (view k)" "view (ktick K k) = view k"
proof -
  show "decode c = Some f \<Longrightarrow> kcall K t c m k = (r, m', k') \<Longrightarrow> pi_call t m (view k) f r0 v0 \<Longrightarrow>
      pi_call t m (view k) f r (view k') \<and> same_outside (pi_words f) m m'"
    using assms unfolding pi_contract_def calls_contract_def by blast
  show "decode c = Some f \<Longrightarrow> kresume K t c m k = Some ((n, e), m', k') \<Longrightarrow>
      pi_resume t f (view k) (n, e) (view k') \<and> same_outside (pi_words f) m m'"
    using assms unfolding pi_contract_def returns_contract_def
    by (auto dest!: spec [where x = t] spec [where x = c] spec [where x = m] spec [where x = k])
  show "kcreate K j k = (n, k') \<Longrightarrow> view k' = view k"
    using assms unfolding pi_contract_def quiet_contract_def by (metis snd_conv)
qed (use assms in \<open>simp_all add: pi_contract_def quiet_contract_def\<close>)

lemma ks_goto [simp]: "ks (goto t st m k s) = k"
  by (simp add: goto_def)

lemma tstep_pstep_call:
  assumes K: "pi_contract K view" and step: "tstep (logged K) P t s = Some s'"
    and t: "thr s t = Running l" "fetch P l = Syscall c"
  shows "pstep P (log_abs s, kview view s) (log_abs s', kview view s')"
proof (cases "\<exists>f r v'. decode c = Some f \<and> pi_call t (mem s) (kview view s) f r v'")
  case False
  with t show ?thesis by (intro p_unknown [of "log_abs s" t l P c]) auto
next
  case True
  then obtain f r0 v0 where f: "decode c = Some f" "pi_call t (mem s) (kview view s) f r0 v0" by blast
  obtain r m k where call: "kcall (logged K) t c (mem s) (ks s) = (r, m, k)" by (metis prod_cases3)
  from logged_call [OF call] show ?thesis
  proof (elim disjE exE conjE)
    fix n e k0
    assume a: "kcall K t c (mem s) (fst (ks s)) = (Some (n, e), m, k0)" "r = Some (n, e)"
      "k = (k0, klog s @ [Called t c n e])"
    from pi_contractD(1) [OF K f(1) a(1) f(2)] a t step call f(1) show ?thesis
      using p_call [of "log_abs s" t l P c f "kview view s" n e "view k0" m]
      by (auto simp: tstep_def log_abs_goto)
  next
    fix k0
    assume a: "kcall K t c (mem s) (fst (ks s)) = (None, m, k0)" "r = None" "k = (k0, klog s)"
    from pi_contractD(1) [OF K f(1) a(1) f(2)] a t step call f(1) show ?thesis
      using p_block [of "log_abs s" t l P c f "kview view s" "view k0" m]
      by (auto simp: tstep_def log_abs_goto)
  qed
qed

lemma tstep_pstep_blocked:
  assumes K: "pi_contract K view" and step: "tstep (logged K) P t s = Some s'" and t: "thr s t = Blocked l"
  shows "pstep P (log_abs s, kview view s) (log_abs s', kview view s')"
proof -
  from step t obtain c n e m k where c: "fetch P l = Syscall c"
    and res: "kresume (logged K) t c (mem s) (ks s) = Some ((n, e), m, k)"
    and s': "s' = goto t (Running (cont P l (Ret n e))) m k s"
    by (auto simp: tstep_def split: instr.splits option.splits)
  from logged_return [OF res] obtain k0 where
    k0: "kresume K t c (mem s) (fst (ks s)) = Some ((n, e), m, k0)" "k = (k0, klog s @ [Called t c n e])"
    by auto
  show ?thesis
  proof (cases "decode c")
    case None
    with t c show ?thesis by (intro p_unknown [of "log_abs s" t l P c]) auto
  next
    case (Some f)
    from pi_contractD(2) [OF K Some k0(1)] show ?thesis
      using p_resume [of "log_abs s" t l P c f "kview view s" n e "view k0" m] t c s' k0(2) Some
      by (simp add: log_abs_goto)
  qed
qed

lemma tstep_pstep:
  assumes K: "pi_contract K view" and step: "tstep (logged K) P t s = Some s'"
  shows "pstep P (log_abs s, kview view s) (log_abs s', kview view s')"
proof (cases "thr s t")
  case (Blocked l)
  with tstep_pstep_blocked [OF K step] show ?thesis .
next
  case (Running l)
  show ?thesis
  proof (cases "fetch P l")
    case (Syscall c)
    with tstep_pstep_call [OF K step Running] show ?thesis .
  next
    case (Create j l0)
    obtain r k where r: "kcreate K j (fst (ks s)) = (r, k)" by (metis prod.exhaust)
    with pi_contractD(3) [OF K r] Running Create step show ?thesis
      using p_create [of "log_abs s" t l P j l0] p_create_fail [of "log_abs s" t l P j l0 r]
      by (cases "ks s") (auto simp: tstep_def logged_def log_abs_goto split: if_splits)
  next
    case (Join j)
    with Running step show ?thesis
      using p_join [of "log_abs s" t l P j] by (auto simp: tstep_def log_abs_goto split: if_splits)
  next
    case (Kill j)
    with Running step show ?thesis
      using p_kill [of "log_abs s" t l P j] pi_contractD(4) [OF K]
      by (cases "ks s") (auto simp: tstep_def log_abs_goto logged_def)
  next
    case Exit
    with Running step show ?thesis
      using p_exit [of "log_abs s" t l P] by (auto simp: tstep_def log_abs_goto)
  next
    case Halt
    with Running step show ?thesis
      using p_halt [of "log_abs s" t l P] by (auto simp: tstep_def log_abs_def)
  qed (insert Running step p_mem [of "log_abs s" t l P], auto simp: tstep_def log_abs_goto
      futex_atomic_defs sync_defs split: option.splits)
qed (use step in \<open>simp_all add: tstep_def\<close>)

lemma mstep_pstep:
  assumes K: "pi_contract K view" and step: "mstep (logged K) P s s'"
  shows "pstep P (log_abs s, kview view s) (log_abs s', kview view s') \<or>
    (log_abs s' = log_abs s \<and> kview view s' = kview view s)"
  using step
proof cases
  case (mstep_thread t)
  then show ?thesis using tstep_pstep [OF K] by blast
next
  case mstep_tick
  with pi_contractD(5) [OF K] show ?thesis by (cases "ks s") (auto simp: log_abs_def logged_def)
qed

text \<open>A blocked thread stays while it is queued without a timeout, and can return once it is not.\<close>

lemma queued_stays:
  assumes K: "pi_contract K view" and l: "thr s t = Blocked l" "fetch P l = Syscall c" "decode c = Some f"
    and q: "queued (kview view s) t" "op_timeout f = No_timeout"
  shows "tstep (logged K) P t s = None"
proof (rule ccontr)
  assume "tstep (logged K) P t s \<noteq> None"
  with l obtain n e m k where "kresume (logged K) t c (mem s) (ks s) = Some ((n, e), m, k)"
    by (auto simp: tstep_def split: option.splits)
  from logged_return [OF this] obtain k0 where "kresume K t c (mem s) (fst (ks s)) = Some ((n, e), m, k0)" by blast
  from pi_contractD(2) [OF K l(3) this] q show False by (auto elim: pi_resume.cases)
qed

lemma unqueued_returns:
  assumes K: "pi_contract K view" and l: "thr s t = Blocked l" "fetch P l = Syscall c" "decode c = Some f"
    and q: "\<not> queued (kview view s) t"
  shows "\<exists>s'. tstep (logged K) P t s = Some s'"
proof -
  have "kresume K t c (mem s) (fst (ks s)) \<noteq> None"
  proof
    assume "kresume K t c (mem s) (fst (ks s)) = None"
    moreover have "returns_contract K view" using K by (simp add: pi_contract_def)
    ultimately have "queued (kview view s) t"
      unfolding returns_contract_def using l(3) by (metis (no_types, lifting) option.simps(4))
    with q show False by simp
  qed
  then obtain n e m k where "kresume K t c (mem s) (fst (ks s)) = Some ((n, e), m, k)" by auto
  with l show ?thesis by (cases "ks s") (simp add: tstep_def logged_def)
qed

section \<open>Runs on a kernel that keeps the contract\<close>

definition pi_init ::
    "('a, 'k) kernel \<Rightarrow> ('k \<Rightarrow> 'a pi_view) \<Rightarrow> 'a set \<Rightarrow> 'l \<Rightarrow> 'a memory \<Rightarrow>
     ('a, 'l, 'k \<times> 'a event list) mstate \<Rightarrow> bool" where
  "pi_init K view A l0 m0 s \<longleftrightarrow>
     test_init K A l0 m0 s \<and> pi_contract K view \<and> kview view s = pi_idle"

definition pi_reach ::
    "('a, 'k) kernel \<Rightarrow> ('k \<Rightarrow> 'a pi_view) \<Rightarrow> 'a set \<Rightarrow> ('a, 'l) program \<Rightarrow> 'l \<Rightarrow> 'a memory \<Rightarrow>
     ('a, 'l, 'k \<times> 'a event list) mstate \<Rightarrow> bool" where
  "pi_reach K view A P l0 m0 s \<longleftrightarrow> reach (pi_init K view A l0 m0) (mstep (logged K) P) s"

lemma pi_reach_test: "pi_reach K view A P l0 m0 s \<Longrightarrow> test_reach K A P l0 m0 s"
  unfolding pi_reach_def test_reach_def
  by (induction rule: reach.induct) (auto simp: pi_init_def intro: reach.intros)

lemma pi_reach_contract: "pi_reach K view A P l0 m0 s \<Longrightarrow> pi_contract K view"
  unfolding pi_reach_def by (induction rule: reach.induct) (auto simp: pi_init_def)

locale pi_program = test_program +
  fixes pinv
  assumes pinv_start: "linit l0 m0 s \<Longrightarrow> pinv s pi_idle"
    and pinv_kept: "tinv s \<Longrightarrow> pinv s v \<Longrightarrow> pstep P (s, v) (s', v') \<Longrightarrow> pinv s' v'"
begin

lemma pi_reach_pinv:
  assumes "pi_reach K view A P l0 m0 s"
  shows "pinv (log_abs s) (kview view s)"
  using assms unfolding pi_reach_def
proof (induction rule: reach.induct)
  case (reach_start s)
  then show ?case
    using pinv_start [of "log_abs s"] by (simp add: pi_init_def test_init_def linit_def)
next
  case (reach_more s s')
  then have "pi_reach K view A P l0 m0 s" by (simp add: pi_reach_def)
  from test_reach_tinv [OF pi_reach_test [OF this]] mstep_pstep [OF pi_reach_contract [OF this] reach_more(2)]
  show ?case using pinv_kept reach_more(3) by auto
qed

end

text \<open>A scheduled run on \<open>pi_kernel\<close> or \<open>timer_kernel\<close> is such a run.\<close>

lemma scheduled_pi_reach:
  assumes "pi_contract K view" "writes_only K A" "view k = pi_idle" "scheduled K k P l0 m0 ts \<noteq> None"
  shows "pi_reach K view A P l0 m0 (the (scheduled K k P l0 m0 ts))"
proof -
  have "pi_init K view A l0 m0 \<lparr>mem = m0, thr = start_threads l0, ks = (k, [])\<rparr>"
    using assms(1-3) by (simp add: pi_init_def test_init_def)
  with assms(4) show ?thesis
    unfolding scheduled_def pi_reach_def by (auto intro: run_schedule_reach [OF reach_start])
qed

lemmas pi_scheduled_reach = scheduled_pi_reach [OF pi_kernel_contract pi_kernel_writes pi_start_idle]

lemmas timer_scheduled_reach = scheduled_pi_reach [OF timer_kernel_contract timer_kernel_writes pi_start_idle]

text \<open>The threads of a list in turn, without those that cannot move.\<close>

fun turns ::
    "('a, 'k) kernel \<Rightarrow> ('a, 'l) program \<Rightarrow> tid list \<Rightarrow> ('a, 'l, 'k) mstate \<Rightarrow> ('a, 'l, 'k) mstate" where
  "turns K P [] s = s"
| "turns K P (t # ts) s = (case tstep K P t s of None \<Rightarrow> turns K P ts s | Some s' \<Rightarrow> turns K P ts s')"

lemma turns_reach:
  "reach init (mstep K P) s \<Longrightarrow> reach init (mstep K P) (turns K P ts s)"
proof (induction ts arbitrary: s)
  case (Cons t ts)
  show ?case
  proof (cases "tstep K P t s")
    case (Some s')
    with Cons.prems have "reach init (mstep K P) s'" by (blast intro: reach_more mstep_thread)
    with Some Cons.IH show ?thesis by simp
  qed (use Cons in simp)
qed simp

definition in_turns ::
    "('a, 'l) program \<Rightarrow> 'l \<Rightarrow> 'a memory \<Rightarrow> tid list \<Rightarrow> ('a, 'l, 'a pi_state \<times> 'a event list) mstate" where
  "in_turns P l0 m0 ts = turns (logged pi_kernel) P ts \<lparr>mem = m0, thr = start_threads l0, ks = (pi_start, [])\<rparr>"

lemma in_turns_reach: "pi_reach pi_kernel pi_view_of A P l0 m0 (in_turns P l0 m0 ts)"
  unfolding pi_reach_def in_turns_def
  by (intro turns_reach reach_start)
    (simp add: pi_init_def test_init_def pi_kernel_contract pi_kernel_writes pi_start_idle)

end
