(* ===== verification/Wait_Tests.thy ===== *)
theory Wait_Tests
  imports Logged_Runs
begin

text \<open>
  The two single-threaded functional tests, \<^verbatim>\<open>functional/futex_wait_timeout.c\<close> and
  \<^verbatim>\<open>functional/futex_wait_wouldblock.c\<close>: command line, the call they make, and the verdict
  they draw from its result and \<^verbatim>\<open>errno\<close>.  A program is given from the point where the
  options are parsed; \<open>F1\<close> is the local futex \<^verbatim>\<open>f1\<close>.  A verdict is the return value of \<^verbatim>\<open>main\<close>
  with the messages printed to stderr and the result line.
\<close>

datatype wloc = F1

abbreviation f1_init :: "wloc memory" where
  "f1_init \<equiv> (\<lambda>_. FUTEX_INITIALIZER)"

type_synonym verdict = "int \<times> string list \<times> string"

section \<open>futex_wait_timeout.c\<close>

record wt_config =
  timeout_ns :: int
  wt_log :: log_state

definition wt_default :: wt_config where
  "wt_default = \<lparr>timeout_ns = 100000, wt_log = log_init\<rparr>"

definition wait_timeout_usage :: "string \<Rightarrow> string" where
  "wait_timeout_usage prog = usage_prog prog @ usage_color @ usage_help @
     usage_line ''  -t N'' ''Timeout in nanoseconds (default: 100,000)'' @ usage_verbosity"

fun wait_timeout_switch :: "string \<Rightarrow> optev \<Rightarrow> wt_config \<Rightarrow> leave + wt_config" where
  "wait_timeout_switch prog (Opt c optarg) cfg =
     (if c = CHR ''c'' then Inr (cfg\<lparr>wt_log := log_color 1 (wt_log cfg)\<rparr>)
      else if c = CHR ''h'' then Inl (0, wait_timeout_usage prog)
      else if c = CHR ''t'' then Inr (cfg\<lparr>timeout_ns := atoi (optarg_text optarg)\<rparr>)
      else if c = CHR ''v''
        then Inr (cfg\<lparr>wt_log := log_verbosity (atoi (optarg_text optarg)) (wt_log cfg)\<rparr>)
      else Inl (1, wait_timeout_usage prog))"
| "wait_timeout_switch prog Bad cfg = Inl (1, wait_timeout_usage prog)"

interpretation wt_options: option_switch "wait_timeout_switch prog" wt_log "\<lambda>_. wait_timeout_usage prog"
  for prog
proof (unfold_locales, goal_cases)
  case (5 e cfg x)
  then show ?case
    by (cases "(prog, e, cfg)" rule: wait_timeout_switch.cases) (auto split: if_splits)
next
  case (6 e cfg cfg')
  then show ?case
    by (cases "(prog, e, cfg)" rule: wait_timeout_switch.cases) (auto split: if_splits)
qed simp_all

text \<open>The verdict of \<^verbatim>\<open>main\<close>.  The message shows \<^verbatim>\<open>ret\<close>, which still is \<^verbatim>\<open>RET_PASS\<close>, not \<^verbatim>\<open>res\<close>.\<close>

definition wait_timeout_verdict :: "log_state \<Rightarrow> int \<Rightarrow> int \<Rightarrow> verdict" where
  "wait_timeout_verdict st res errno =
     (let ret = RET_PASS
      in if res = 0 \<or> errno \<noteq> ETIMEDOUT
         then (RET_FAIL,
               fail_msg st (''futex_wait returned '' @ show_int (if ret < 0 then errno else ret) @ newline),
               print_result st RET_FAIL)
         else (ret, [], print_result st ret))"

text \<open>Shared by both tests: evaluate the arguments, call, return.\<close>

datatype wait_pc = Read_val | Wait_call u32 | Return verdict

fun wait_timeout_fetch :: "int \<Rightarrow> wait_pc \<Rightarrow> (wloc, wait_pc) instr" where
  "wait_timeout_fetch ns Read_val = Load F1"
| "wait_timeout_fetch ns (Wait_call v) =
     Syscall (futex_wait F1 v (Some \<lparr>tv_sec = 0, tv_nsec = ns\<rparr>) FUTEX_PRIVATE_FLAG)"
| "wait_timeout_fetch ns (Return v) = Halt"

fun wait_timeout_cont :: "log_state \<Rightarrow> wait_pc \<Rightarrow> resp \<Rightarrow> wait_pc" where
  "wait_timeout_cont st Read_val r = Wait_call (resp_val r)"
| "wait_timeout_cont st (Wait_call v) r =
     Return (wait_timeout_verdict st (resp_ret r) (resp_errno r))"
| "wait_timeout_cont st (Return v) r = Return v"

definition wait_timeout :: "wt_config \<Rightarrow> (wloc, wait_pc) program" where
  "wait_timeout cfg =
     \<lparr>fetch = wait_timeout_fetch (timeout_ns cfg), cont = wait_timeout_cont (wt_log cfg)\<rparr>"

definition wait_timeout_main :: "string list \<Rightarrow> leave + (string \<times> (wloc, wait_pc) program)" where
  "wait_timeout_main argv =
     (let prog = basename (hd argv)
      in case run_getopt ''cht:v:'' (wait_timeout_switch prog) (tl argv) wt_default of
           Inl x \<Rightarrow> Inl x
         | Inr cfg \<Rightarrow>
             Inr (prog @ '': Block on a futex and wait for timeout'' @ newline @ tab @
                  ''Arguments: timeout='' @ show_int (timeout_ns cfg) @ ''ns'' @ newline,
                  wait_timeout cfg))"

section \<open>futex_wait_wouldblock.c\<close>

definition wait_wouldblock_verdict :: "(int \<Rightarrow> string) \<Rightarrow> log_state \<Rightarrow> int \<Rightarrow> int \<Rightarrow> verdict" where
  "wait_wouldblock_verdict strerror st res errno =
     (if res = 0 \<or> errno \<noteq> EWOULDBLOCK
      then (RET_FAIL,
            fail_msg st (''futex_wait returned: '' @ show_int (if res \<noteq> 0 then errno else res) @ '' '' @
              (if res \<noteq> 0 then strerror errno else []) @ newline),
            print_result st RET_FAIL)
      else (RET_PASS, [], print_result st RET_PASS))"

fun wait_wouldblock_fetch :: "wait_pc \<Rightarrow> (wloc, wait_pc) instr" where
  "wait_wouldblock_fetch Read_val = Load F1"
| "wait_wouldblock_fetch (Wait_call v) =
     Syscall (futex_wait F1 v (Some \<lparr>tv_sec = 0, tv_nsec = 100000\<rparr>) FUTEX_PRIVATE_FLAG)"
| "wait_wouldblock_fetch (Return v) = Halt"

fun wait_wouldblock_cont :: "(int \<Rightarrow> string) \<Rightarrow> log_state \<Rightarrow> wait_pc \<Rightarrow> resp \<Rightarrow> wait_pc" where
  "wait_wouldblock_cont strerror st Read_val r = Wait_call (resp_val r + 1)"
| "wait_wouldblock_cont strerror st (Wait_call v) r =
     Return (wait_wouldblock_verdict strerror st (resp_ret r) (resp_errno r))"
| "wait_wouldblock_cont strerror st (Return v) r = Return v"

definition wait_wouldblock :: "(int \<Rightarrow> string) \<Rightarrow> log_state \<Rightarrow> (wloc, wait_pc) program" where
  "wait_wouldblock strerror st =
     \<lparr>fetch = wait_wouldblock_fetch, cont = wait_wouldblock_cont strerror st\<rparr>"

text \<open>The option string names \<^verbatim>\<open>-t\<close>, the switch does not know it.\<close>

definition wait_wouldblock_usage :: "string \<Rightarrow> string" where
  "wait_wouldblock_usage prog = usage_prog prog @ usage_color @ usage_help @ usage_verbosity"

definition wait_wouldblock_main ::
    "(int \<Rightarrow> string) \<Rightarrow> string list \<Rightarrow> leave + (string \<times> (wloc, wait_pc) program)" where
  "wait_wouldblock_main strerror argv =
     (let prog = basename (hd argv)
      in case run_getopt ''cht:v:'' (log_switch (wait_wouldblock_usage prog)) (tl argv) log_init of
           Inl x \<Rightarrow> Inl x
         | Inr st \<Rightarrow>
             Inr (prog @ '': Test the unexpected futex value in FUTEX_WAIT'' @ newline,
                  wait_wouldblock strerror st))"

section \<open>Verdicts\<close>

text \<open>A run of either test: nothing is logged before the call, its answer after it.\<close>

fun wait_ok :: "(int \<Rightarrow> int \<Rightarrow> verdict) \<Rightarrow> (u32 \<Rightarrow> wloc futex_call) \<Rightarrow> wloc event list \<Rightarrow> wait_pc tstatus \<Rightarrow> bool"
  where
  "wait_ok vd call log (Running (Return w)) = (\<exists>v r e. log = [Called 0 (call v) r e] \<and> w = vd r e)"
| "wait_ok vd call log (Running p) = (log = [])"
| "wait_ok vd call log (Blocked p) = (log = [])"
| "wait_ok vd call log Exited = True"
| "wait_ok vd call log Unborn = False"

definition wait_inv ::
    "(int \<Rightarrow> int \<Rightarrow> verdict) \<Rightarrow> (u32 \<Rightarrow> wloc futex_call) \<Rightarrow> (wloc, wait_pc) lstate \<Rightarrow> bool" where
  "wait_inv vd call s \<longleftrightarrow> wait_ok vd call (llog s) (lthr s 0) \<and>
     (\<forall>t>0. lthr s t = Unborn \<or> lthr s t = Exited)"

text \<open>What the two programs have in common.\<close>

locale wait_test =
  fixes P :: "(wloc, wait_pc) program" and vd :: "int \<Rightarrow> int \<Rightarrow> verdict" and call :: "u32 \<Rightarrow> wloc futex_call"
  assumes fetch_read: "fetch P Read_val = Load F1"
    and fetch_call: "fetch P (Wait_call v) = Syscall (call v)"
    and fetch_return: "fetch P (Return w) = Halt"
    and cont_read: "\<exists>v. cont P Read_val r = Wait_call v"
    and cont_call: "cont P (Wait_call v) (Ret n e) = Return (vd n e)"
begin

lemma wait_inv_kept:
  assumes inv: "wait_inv vd call s" and step: "lstep P A s s'"
  shows "wait_inv vd call s'"
proof -
  have t0: "t = 0" if "lthr s t = Running l \<or> lthr s t = Blocked l" for t l
    using inv that by (cases "t = 0") (auto simp: wait_inv_def dest!: spec [of _ t])
  from step show ?thesis
  proof cases
    case (l_mem t l r m)
    with t0 [of t l] have t: "t = 0" by blast
    with l_mem inv cont_read [of r] show ?thesis
      by (cases l) (auto simp: wait_inv_def fetch_call fetch_return)
  next
    case (l_call t l c m r e)
    with t0 [of t l] have t: "t = 0" by blast
    with l_call inv show ?thesis
      by (cases l) (auto simp: wait_inv_def fetch_call fetch_read fetch_return cont_call)
  next
    case (l_block t l c m)
    with t0 [of t l] have t: "t = 0" by blast
    with l_block inv show ?thesis
      by (cases l) (auto simp: wait_inv_def fetch_read fetch_return)
  next
    case (l_halt t l)
    then show ?thesis by (simp add: wait_inv_def)
  next
    case (l_create t l j l0)
    then show ?thesis by (cases l) (auto simp: fetch_call fetch_read fetch_return)
  next
    case (l_create_fail t l j l0 r)
    then show ?thesis by (cases l) (auto simp: fetch_call fetch_read fetch_return)
  next
    case (l_join t l j)
    then show ?thesis by (cases l) (auto simp: fetch_call fetch_read fetch_return)
  next
    case (l_kill t l j)
    then show ?thesis by (cases l) (auto simp: fetch_call fetch_read fetch_return)
  next
    case (l_exit t l)
    then show ?thesis by (cases l) (auto simp: fetch_call fetch_read fetch_return)
  qed
qed

end

sublocale wait_test \<subseteq> runs: test_program P A Read_val f1_init "wait_inv vd call" for A
  by unfold_locales (simp add: wait_inv_def linit_def start_threads_def, rule wait_inv_kept)

abbreviation wt_call :: "int \<Rightarrow> u32 \<Rightarrow> wloc futex_call" where
  "wt_call ns v \<equiv> futex_wait F1 v (Some \<lparr>tv_sec = 0, tv_nsec = ns\<rparr>) FUTEX_PRIVATE_FLAG"

interpretation wt: wait_test "wait_timeout cfg" "wait_timeout_verdict (wt_log cfg)" "wt_call (timeout_ns cfg)"
  for cfg
  by unfold_locales (simp_all add: wait_timeout_def)

interpretation wb: wait_test "wait_wouldblock strerror st" "wait_wouldblock_verdict strerror st" "wt_call 100000"
  for strerror st
  by unfold_locales (simp_all add: wait_wouldblock_def)

text \<open>The verdict of \<^verbatim>\<open>futex_wait_timeout\<close>.  When \<^verbatim>\<open>main\<close> returns, on any kernel, it has made one
  call, a private \<^verbatim>\<open>FUTEX_WAIT\<close> with the requested timeout, and it returns \<^verbatim>\<open>RET_PASS\<close> exactly if
  that call failed with \<^verbatim>\<open>ETIMEDOUT\<close>, \<^verbatim>\<open>RET_FAIL\<close> otherwise, and prints that result.\<close>

theorem wait_timeout_sound:
  assumes "test_reach K A (wait_timeout cfg) Read_val f1_init s" "thr s 0 = Running (Return (ret, err, out))"
  shows "\<exists>v r e. klog s = [Called 0 (wt_call (timeout_ns cfg) v) r e] \<and>
    ret = (if r \<noteq> 0 \<and> e = ETIMEDOUT then RET_PASS else RET_FAIL) \<and> out = print_result (wt_log cfg) ret"
proof -
  obtain v r e where "klog s = [Called 0 (wt_call (timeout_ns cfg) v) r e]"
    "(ret, err, out) = wait_timeout_verdict (wt_log cfg) r e"
    using wt.runs.test_reach_tinv [OF assms(1)] assms(2) by (auto simp: wait_inv_def)
  then show ?thesis by (auto simp: wait_timeout_verdict_def Let_def split: if_splits)
qed

definition timed_out_state where
  "timed_out_state = the (scripted (wait_timeout wt_default) Read_val f1_init [(- 1, ETIMEDOUT)] [0, 0])"

lemma timed_out_reach: "test_reach script_kernel A (wait_timeout wt_default) Read_val f1_init timed_out_state"
  unfolding timed_out_state_def by (rule scripted_reach) code_simp

lemma timed_out_facts:
  "thr timed_out_state 0 = Running (Return (RET_PASS, [], print_result log_init RET_PASS))"
  by code_simp

theorem wait_timeout_sound_witness:
  "\<exists>v r e. klog timed_out_state = [Called 0 (wt_call (timeout_ns wt_default) v) r e] \<and> r \<noteq> 0 \<and> e = ETIMEDOUT"
  using wait_timeout_sound [OF timed_out_reach timed_out_facts] by (auto simp: ret_defs split: if_splits)

lemma show_int_0: "show_int 0 = ''0''"
  by code_simp

text \<open>The failure message of \<^verbatim>\<open>futex_wait_timeout\<close> never tells what happened: whatever the call
  returned, the message shows 0.\<close>

theorem wait_timeout_message:
  assumes "res = 0 \<or> errno \<noteq> ETIMEDOUT"
  shows "fst (snd (wait_timeout_verdict st res errno)) = fail_msg st (''futex_wait returned 0'' @ newline)"
  using assms by (auto simp: wait_timeout_verdict_def Let_def RET_PASS_def show_int_0)

theorem wait_timeout_message_witness:
  "fst (snd (wait_timeout_verdict log_init (- 1) EINVAL)) = fail_msg log_init (''futex_wait returned 0'' @ newline)"
  by (rule wait_timeout_message) (simp add: errno_defs)

text \<open>The verdict of \<^verbatim>\<open>futex_wait_wouldblock\<close>.  When \<^verbatim>\<open>main\<close> returns, on any kernel, it returns
  \<^verbatim>\<open>RET_PASS\<close> exactly if its one \<^verbatim>\<open>FUTEX_WAIT\<close> failed with \<^verbatim>\<open>EWOULDBLOCK\<close>, \<^verbatim>\<open>RET_FAIL\<close> otherwise.\<close>

theorem wait_wouldblock_sound:
  assumes "test_reach K A (wait_wouldblock strerror st) Read_val f1_init s"
    "thr s 0 = Running (Return (ret, err, out))"
  shows "\<exists>v r e. klog s = [Called 0 (wt_call 100000 v) r e] \<and>
    ret = (if r \<noteq> 0 \<and> e = EWOULDBLOCK then RET_PASS else RET_FAIL) \<and> out = print_result st ret"
proof -
  obtain v r e where "klog s = [Called 0 (wt_call 100000 v) r e]"
    "(ret, err, out) = wait_wouldblock_verdict strerror st r e"
    using wb.runs.test_reach_tinv [OF assms(1)] assms(2) by (auto simp: wait_inv_def)
  then show ?thesis by (auto simp: wait_wouldblock_verdict_def split: if_splits)
qed

definition blocked_state where
  "blocked_state = the (scripted (wait_wouldblock (\<lambda>_. []) log_init) Read_val f1_init [(0, 0)] [0, 0])"

lemma blocked_reach:
  "test_reach script_kernel A (wait_wouldblock (\<lambda>_. []) log_init) Read_val f1_init blocked_state"
  unfolding blocked_state_def by (rule scripted_reach) code_simp

lemma blocked_facts: "\<exists>err. thr blocked_state 0 = Running (Return (RET_FAIL, err, print_result log_init RET_FAIL))"
  by (rule exI [of _ "fail_msg log_init (''futex_wait returned: 0 '' @ newline)"]) code_simp

theorem wait_wouldblock_sound_witness:
  "\<exists>v r e. klog blocked_state = [Called 0 (wt_call 100000 v) r e] \<and> \<not> (r \<noteq> 0 \<and> e = EWOULDBLOCK)"
proof -
  obtain err where "thr blocked_state 0 = Running (Return (RET_FAIL, err, print_result log_init RET_FAIL))"
    using blocked_facts by blast
  from wait_wouldblock_sound [OF blocked_reach this] show ?thesis by (auto simp: ret_defs split: if_splits)
qed

text \<open>C34: a conforming kernel passes \<^verbatim>\<open>futex_wait_wouldblock\<close>.  If \<^verbatim>\<open>FUTEX_WAIT\<close> behaves as documented,
  the program runs straight to its end and returns \<^verbatim>\<open>RET_PASS\<close>, whatever its options.\<close>

theorem wait_wouldblock_passes:
  assumes "wait_contract K" "thr s = start_threads Read_val" "mem s = f1_init"
  shows "\<exists>s'. run_schedule K (wait_wouldblock strerror st) [0, 0] s = Some s' \<and>
    thr s' 0 = Running (Return (RET_PASS, [], print_result st RET_PASS))"
proof -
  obtain r m k where call: "kcall K 0 (wt_call 100000 1) f1_init (ks s) = (r, m, k)" by (metis prod_cases3)
  have "r = Some (- 1, EWOULDBLOCK)"
    using assms(1) [unfolded wait_contract_def, rule_format, where t = 0 and m = f1_init and k = "ks s",
        OF decode_futex_wait [OF opflags_private, where a = F1 and v = 1 and t = "Some \<lparr>tv_sec = 0, tv_nsec = 100000\<rparr>"]] call
    by (simp add: FUTEX_INITIALIZER_def timespec_arg_def)
  with assms(2,3) call show ?thesis
    by (simp add: wait_wouldblock_def tstep_def goto_def start_threads_def FUTEX_INITIALIZER_def
        wait_wouldblock_verdict_def errno_defs)
qed

theorem wait_wouldblock_passes_witness:
  "\<exists>s'. run_schedule fifo_kernel (wait_wouldblock (\<lambda>_. []) log_init) [0, 0]
      \<lparr>mem = f1_init, thr = start_threads Read_val, ks = \<lparr>queue = [], budget = 0\<rparr>\<rparr> = Some s' \<and>
    thr s' 0 = Running (Return (RET_PASS, [], print_result log_init RET_PASS))"
  by (rule wait_wouldblock_passes) (simp_all add: fifo_wait)

text \<open>\<^verbatim>\<open>futex_wait_wouldblock\<close> refuses an option its option string announces: with \<^verbatim>\<open>-t\<close> and an
  argument it exits with status 1.\<close>

theorem wait_wouldblock_timeout_option:
  assumes "argv = [prog, ''-t'', v]"
  shows "wait_wouldblock_main strerror argv = Inl (1, wait_wouldblock_usage (basename prog))"
  using assms by (simp add: wait_wouldblock_main_def run_getopt_def Let_def)

theorem wait_wouldblock_timeout_option_witness:
  "wait_wouldblock_main (\<lambda>_. []) [''./futex_wait_wouldblock'', ''-t'', ''100''] =
     Inl (1, wait_wouldblock_usage ''futex_wait_wouldblock'')"
  using wait_wouldblock_timeout_option [OF refl, of "\<lambda>_. []" "''./futex_wait_wouldblock''" "''100''"]
  by (simp add: basename_def)

end
