(* ===== verification/Wait_Conf.thy ===== *)
theory Wait_Conf
  imports Pi_Runs Wait_Tests
begin

text \<open>
  \<^verbatim>\<open>functional/futex_wait_timeout.c\<close> on a kernel that keeps \<open>pi_contract\<close>.  Nobody wakes its only thread,
  so a call with a proper timeout can only time out, and the test passes.  The number of \<^verbatim>\<open>-t\<close> is stored
  in \<^verbatim>\<open>tv_nsec\<close> as it is: for a second or more, and for negative numbers, the timespec is improper, the
  kernel refuses it, and the test fails.
\<close>

definition wt_proper :: "wt_config \<Rightarrow> bool" where
  "wt_proper cfg \<longleftrightarrow> 0 \<le> timeout_ns cfg \<and> timeout_ns cfg < 10 ^ 9"

definition wt_asleep :: "wloc pi_view" where
  "wt_asleep = pi_idle\<lparr>waits := [0 \<mapsto> (F1, None)]\<rparr>"

abbreviation wt_op :: "wt_config \<Rightarrow> wloc futex_op" where
  "wt_op cfg \<equiv> Wait F1 0 (Timeout \<lparr>tv_sec = 0, tv_nsec = timeout_ns cfg\<rparr>)"

lemma wt_decode [simp]: "decode (wt_call ns v) = Some (Wait F1 v (Timeout \<lparr>tv_sec = 0, tv_nsec = ns\<rparr>))"
  by (simp add: timespec_arg_def)

lemma wt_asleepI: "pi_idle\<lparr>waits := (waits pi_idle)(0 \<mapsto> (F1, None))\<rparr> = wt_asleep"
  by (simp add: wt_asleep_def pi_idle_def)

lemma wt_outcome:
  assumes "m F1 = 0"
  shows "pi_call 0 m pi_idle (wt_op cfg) r v' \<longleftrightarrow>
    (if wt_proper cfg then r = None \<and> v' = wt_asleep else r = Some (- 1, EINVAL) \<and> v' = pi_idle)"
  using assms wait_blocks [of "Timeout \<lparr>tv_sec = 0, tv_nsec = timeout_ns cfg\<rparr>" m F1 0 0 pi_idle]
    timeout_refused [of "wt_op cfg" 0 m pi_idle]
  unfolding wt_asleepI by (auto simp: wt_proper_def wt_asleepI elim!: pi_call.cases)

lemma wt_resume:
  "pi_resume 0 (wt_op cfg) wt_asleep (r, e) v' \<Longrightarrow> r = - 1 \<and> e = ETIMEDOUT"
  by (auto simp: wt_asleep_def queued_def elim: pi_resume.cases)

text \<open>The state of the kernel and what is to come, by the control point.\<close>

definition wt_result :: "wt_config \<Rightarrow> verdict" where
  "wt_result cfg = wait_timeout_verdict (wt_log cfg) (- 1) (if wt_proper cfg then ETIMEDOUT else EINVAL)"

fun wt_stage :: "wt_config \<Rightarrow> wait_pc tstatus \<Rightarrow> wloc pi_view \<Rightarrow> bool" where
  "wt_stage cfg (Running Read_val) v \<longleftrightarrow> v = pi_idle"
| "wt_stage cfg (Running (Wait_call w)) v \<longleftrightarrow> w = 0 \<and> v = pi_idle"
| "wt_stage cfg (Blocked (Wait_call w)) v \<longleftrightarrow> w = 0 \<and> v = wt_asleep \<and> wt_proper cfg"
| "wt_stage cfg (Running (Return w)) v \<longleftrightarrow> w = wt_result cfg"
| "wt_stage cfg Exited v \<longleftrightarrow> True"
| "wt_stage cfg _ v \<longleftrightarrow> False"

definition wt_conf :: "wt_config \<Rightarrow> (wloc, wait_pc) lstate \<Rightarrow> wloc pi_view \<Rightarrow> bool" where
  "wt_conf cfg s v \<longleftrightarrow> lmem s F1 = 0 \<and> wt_stage cfg (lthr s 0) v"

lemma wt_conf_kept:
  assumes inv: "wait_inv (wait_timeout_verdict (wt_log cfg)) (wt_call (timeout_ns cfg)) s" "wt_conf cfg s v"
    and step: "pstep (wait_timeout cfg) (s, v) (s', v')"
  shows "wt_conf cfg s' v'"
proof -
  from pstep_move [OF step] obtain t l where t: "lthr s t = Running l \<or> lthr s t = Blocked l"
    and move: "p_move (wait_timeout cfg) t l s v s' v'" by blast
  from inv(1) t have "t = 0" by (cases "t = 0") (auto simp: wait_inv_def dest!: spec [of _ t])
  with t move have t: "lthr s 0 = Running l \<or> lthr s 0 = Blocked l" and move: "p_move (wait_timeout cfg) 0 l s v s' v'"
    by simp_all
  show ?thesis
  proof (cases l)
    case Read_val
    with t move inv(2) show ?thesis by (auto simp: p_move_def wt_conf_def wait_timeout_def)
  next
    case (Wait_call w)
    with t inv(2) have w: "w = 0" "lmem s F1 = 0" by (auto simp: wt_conf_def)
    from t show ?thesis
    proof
      assume r: "lthr s 0 = Running l"
      with Wait_call inv(2) have "v = pi_idle" by (simp add: wt_conf_def)
      with r Wait_call w move wt_outcome [of "lmem s" cfg] show ?thesis
        by (auto simp: p_move_def wt_conf_def wait_timeout_def wt_result_def same_outside_def split: if_splits)
    next
      assume b: "lthr s 0 = Blocked l"
      with Wait_call inv(2) have "v = wt_asleep" "wt_proper cfg" by (simp_all add: wt_conf_def)
      with b Wait_call w move show ?thesis
        by (auto simp: p_move_def wt_conf_def wait_timeout_def wt_result_def same_outside_def dest!: wt_resume)
    qed
  next
    case (Return w)
    with t move inv(2) show ?thesis by (auto simp: p_move_def wt_conf_def wait_timeout_def)
  qed
qed

interpretation wt_pi: pi_program "wait_timeout cfg" A Read_val f1_init
  "wait_inv (wait_timeout_verdict (wt_log cfg)) (wt_call (timeout_ns cfg))" "wt_conf cfg" for cfg A
  by unfold_locales
    (simp add: wt_conf_def linit_def start_threads_def FUTEX_INITIALIZER_def, rule wt_conf_kept)

text \<open>C35: \<^verbatim>\<open>futex_wait_timeout\<close> on a kernel that keeps the contract.  When \<^verbatim>\<open>main\<close> returns, the result is
  \<^verbatim>\<open>RET_PASS\<close> if the timeout is less than a second and not negative, and \<^verbatim>\<open>RET_FAIL\<close> otherwise, although the
  kernel is not at fault: the nanoseconds are not split into seconds and nanoseconds.\<close>

theorem wait_timeout_conforming:
  assumes "pi_reach K view A (wait_timeout cfg) Read_val f1_init s" "thr s 0 = Running (Return (ret, err, out))"
  shows "ret = (if 0 \<le> timeout_ns cfg \<and> timeout_ns cfg < 10 ^ 9 then RET_PASS else RET_FAIL) \<and>
    out = print_result (wt_log cfg) ret"
  using wt_pi.pi_reach_pinv [OF assms(1)] assms(2)
  by (auto simp: wt_conf_def wt_result_def wait_timeout_verdict_def wt_proper_def Let_def errno_defs)

definition wt_expired where
  "wt_expired = the (scheduled timer_kernel pi_start (wait_timeout wt_default) Read_val f1_init [0, 0, 0])"

lemma wt_expired_reach:
  "pi_reach timer_kernel pi_view_of A (wait_timeout wt_default) Read_val f1_init wt_expired"
  unfolding wt_expired_def by (rule timer_scheduled_reach) code_simp

lemma wt_expired_facts:
  "thr wt_expired 0 = Running (Return (RET_PASS, [], print_result log_init RET_PASS))"
  by code_simp

theorem wait_timeout_conforming_witness:
  "RET_PASS = (if 0 \<le> timeout_ns wt_default \<and> timeout_ns wt_default < 10 ^ 9 then RET_PASS else RET_FAIL)"
  using wait_timeout_conforming [OF wt_expired_reach wt_expired_facts] by simp

text \<open>The run of \<^verbatim>\<open>-t 1000000000\<close>, a timeout of one second.\<close>

definition wt_second where
  "wt_second = the (scheduled timer_kernel pi_start (wait_timeout (wt_default\<lparr>timeout_ns := 1000000000\<rparr>))
     Read_val f1_init [0, 0])"

lemma wt_second_fails: "\<exists>err out. thr wt_second 0 = Running (Return (RET_FAIL, err, out))"
  by (intro exI [of _ "fail_msg log_init (''futex_wait returned 0'' @ newline)"] exI [of _ "print_result log_init RET_FAIL"])
    code_simp

end
