(* ===== verification/Uninit_Heap.thy ===== *)
theory Uninit_Heap
  imports Logged_Runs
begin

text \<open>
  \<^verbatim>\<open>functional/futex_wait_uninitialized_heap.c\<close>: thread 1 waits for the value 1 on a fresh anonymous
  mapping, whose first word is 0, so the call has to return at once; the main thread looks after
  five seconds whether it did.  \<^verbatim>\<open>usleep\<close> is a step without effect; the messages are in theory
  \<open>Uninit_Told\<close>.  The result of \<^verbatim>\<open>mmap\<close> is an argument of \<open>uninit_heap_main\<close>.
\<close>

datatype uh_loc = Buf | Child_blocked | Child_ret

definition uh_memory :: "uh_loc memory" where
  "uh_memory = (\<lambda>_. 0)(Child_blocked := 1)"

section \<open>The program\<close>

datatype uh_pc =
    Create_waiter | Uh_sleep | Read_blocked | Read_ret | Uh_done int
  | Set_pass | Uh_wait | Clear_blocked int int | Set_error | Uh_exit

definition uh_wait_call :: "uh_loc futex_call" where
  "uh_wait_call = futex_wait Buf 1 None 0"

fun uninit_heap_fetch :: "uh_pc \<Rightarrow> (uh_loc, uh_pc) instr" where
  "uninit_heap_fetch Create_waiter = Create 1 Set_pass"
| "uninit_heap_fetch Uh_sleep = Nop"
| "uninit_heap_fetch Read_blocked = Load Child_blocked"
| "uninit_heap_fetch Read_ret = Load Child_ret"
| "uninit_heap_fetch (Uh_done ret) = Halt"
| "uninit_heap_fetch Set_pass = Store Child_ret (u32_of_int RET_PASS)"
| "uninit_heap_fetch Uh_wait = Syscall uh_wait_call"
| "uninit_heap_fetch (Clear_blocked res errno) = Store Child_blocked 0"
| "uninit_heap_fetch Set_error = Store Child_ret (u32_of_int RET_ERROR)"
| "uninit_heap_fetch Uh_exit = Exit"

fun uninit_heap_cont :: "uh_pc \<Rightarrow> resp \<Rightarrow> uh_pc" where
  "uninit_heap_cont Create_waiter r = (if resp_ret r \<noteq> 0 then Uh_done RET_ERROR else Uh_sleep)"
| "uninit_heap_cont Uh_sleep r = Read_blocked"
| "uninit_heap_cont Read_blocked r = (if resp_val r \<noteq> 0 then Uh_done RET_FAIL else Read_ret)"
| "uninit_heap_cont Read_ret r = Uh_done (int_of_u32 (resp_val r))"
| "uninit_heap_cont (Uh_done ret) r = Uh_done ret"
| "uninit_heap_cont Set_pass r = Uh_wait"
| "uninit_heap_cont Uh_wait r = Clear_blocked (resp_ret r) (resp_errno r)"
| "uninit_heap_cont (Clear_blocked res errno) r =
     (if res \<noteq> 0 \<and> errno \<noteq> EWOULDBLOCK then Set_error else Uh_exit)"
| "uninit_heap_cont Set_error r = Uh_exit"
| "uninit_heap_cont Uh_exit r = Uh_exit"

definition uninit_heap :: "(uh_loc, uh_pc) program" where
  "uninit_heap = \<lparr>fetch = uninit_heap_fetch, cont = uninit_heap_cont\<rparr>"

definition uninit_heap_usage :: "string \<Rightarrow> string" where
  "uninit_heap_usage prog = usage_prog prog @ usage_color @ usage_help @ usage_verbosity"

text \<open>\<^verbatim>\<open>main\<close> maps the page after its option loop and before its first line; \<open>mapped\<close> is whether
  \<^verbatim>\<open>mmap\<close> succeeded.\<close>

definition uninit_heap_main ::
    "bool \<Rightarrow> string list \<Rightarrow> leave + (string \<times> (uh_loc, uh_pc) program \<times> (int \<Rightarrow> string))" where
  "uninit_heap_main mapped argv =
     (case test_main uninit_heap_usage ''Test the uninitialized futex value in FUTEX_WAIT'' uninit_heap argv of
        Inl x \<Rightarrow> Inl x
      | Inr run \<Rightarrow> if \<not> mapped then Inl (1, []) else Inr run)"

lemma uninit_heap_simps [simp]:
  "fetch uninit_heap = uninit_heap_fetch" "cont uninit_heap = uninit_heap_cont"
  by (simp_all add: uninit_heap_def)

section \<open>Verdict and answers\<close>

definition waited :: "uh_loc event list \<Rightarrow> int \<Rightarrow> int \<Rightarrow> bool" where
  "waited log r e \<longleftrightarrow> answers 1 log = [Called 1 uh_wait_call r e]"

text \<open>The errors of the wait the test reports.\<close>

definition wait_failed :: "int \<Rightarrow> int \<Rightarrow> bool" where
  "wait_failed r e \<longleftrightarrow> r \<noteq> 0 \<and> e \<noteq> EWOULDBLOCK"

definition creation_failed :: "uh_loc event list \<Rightarrow> bool" where
  "creation_failed log \<longleftrightarrow> (\<exists>r. r \<noteq> 0 \<and> Created 1 r \<in> set log)"

definition uh_verdict_ok :: "uh_loc event list \<Rightarrow> int \<Rightarrow> bool" where
  "uh_verdict_ok log ret \<longleftrightarrow>
     (ret = RET_PASS \<and> (\<exists>r e. waited log r e)) \<or>
     (ret = RET_ERROR \<and> (\<exists>r e. waited log r e \<and> wait_failed r e)) \<or>
     (ret = RET_ERROR \<and> creation_failed log) \<or>
     ret = RET_FAIL"

definition uh_exit_ok :: "uh_loc event list \<Rightarrow> u32 \<Rightarrow> bool" where
  "uh_exit_ok log cr \<longleftrightarrow>
     (\<exists>r e. waited log r e \<and> cr = u32_of_int (if wait_failed r e then RET_ERROR else RET_PASS))"

text \<open>What the child leaves in \<^verbatim>\<open>child_blocked\<close> and \<^verbatim>\<open>child_ret\<close>.\<close>

fun uh_child_ok :: "uh_loc event list \<Rightarrow> u32 \<Rightarrow> u32 \<Rightarrow> uh_pc tstatus \<Rightarrow> bool" where
  "uh_child_ok log b cr Unborn = (answers 1 log = [] \<and> b = 1)"
| "uh_child_ok log b cr (Running Set_pass) = (answers 1 log = [] \<and> b = 1)"
| "uh_child_ok log b cr (Running Uh_wait) = (answers 1 log = [] \<and> b = 1 \<and> cr = u32_of_int RET_PASS)"
| "uh_child_ok log b cr (Blocked Uh_wait) = (answers 1 log = [] \<and> b = 1 \<and> cr = u32_of_int RET_PASS)"
| "uh_child_ok log b cr (Running (Clear_blocked r e)) =
     (waited log r e \<and> b = 1 \<and> cr = u32_of_int RET_PASS)"
| "uh_child_ok log b cr (Running Set_error) =
     ((\<exists>r e. waited log r e \<and> wait_failed r e) \<and> b = 0 \<and> cr = u32_of_int RET_PASS)"
| "uh_child_ok log b cr (Running Uh_exit) =
     (b = 0 \<and> uh_exit_ok log cr)"
| "uh_child_ok log b cr Exited =
     (b = 0 \<and> uh_exit_ok log cr)"
| "uh_child_ok log b cr _ = False"

fun uh_main_ok :: "uh_loc event list \<Rightarrow> u32 \<Rightarrow> uh_pc tstatus \<Rightarrow> uh_pc tstatus \<Rightarrow> bool" where
  "uh_main_ok log b child (Running Create_waiter) = (child = Unborn)"
| "uh_main_ok log b child (Running Uh_sleep) = (child \<noteq> Unborn)"
| "uh_main_ok log b child (Running Read_blocked) = (child \<noteq> Unborn)"
| "uh_main_ok log b child (Running Read_ret) = (child \<noteq> Unborn \<and> b = 0)"
| "uh_main_ok log b child (Running (Uh_done ret)) = uh_verdict_ok log ret"
| "uh_main_ok log b child _ = False"

definition uh_inv :: "(uh_loc, uh_pc) lstate \<Rightarrow> bool" where
  "uh_inv s \<longleftrightarrow> lthr s 0 = Exited \<or>
     (uh_main_ok (llog s) (lmem s Child_blocked) (lthr s 1) (lthr s 0) \<and>
      uh_child_ok (llog s) (lmem s Child_blocked) (lmem s Child_ret) (lthr s 1) \<and>
      (\<forall>t>1. lthr s t = Unborn))"

lemma uh_exit_okI:
  "waited log r e \<Longrightarrow> wait_failed r e \<Longrightarrow> uh_exit_ok log (u32_of_int RET_ERROR)"
  "waited log r e \<Longrightarrow> \<not> wait_failed r e \<Longrightarrow> uh_exit_ok log (u32_of_int RET_PASS)"
  by (auto simp: uh_exit_ok_def)

lemma clear_blocked_cont [simp]:
  "uninit_heap_cont (Clear_blocked res errno) r = (if wait_failed res errno then Set_error else Uh_exit)"
  by (simp add: wait_failed_def)

lemma uh_main_cong: "uh_main_ok log b child st \<Longrightarrow> (child = Unborn \<longleftrightarrow> child' = Unborn) \<Longrightarrow> b = b' \<or> b' = 0 \<Longrightarrow>
    uh_main_ok log b' child' st"
  by (cases "(log, b, child, st)" rule: uh_main_ok.cases) auto

lemma uh_verdict_more:
  assumes "uh_verdict_ok log ret" "answers 1 log = []"
  shows "uh_verdict_ok (log @ [Called 1 c r e]) ret"
  using assms by (auto simp: uh_verdict_ok_def waited_def creation_failed_def)

lemma uh_main_more: "uh_main_ok log b child st \<Longrightarrow> answers 1 log = [] \<Longrightarrow> child \<noteq> Unborn \<Longrightarrow>
    child' \<noteq> Unborn \<Longrightarrow> uh_main_ok (log @ [Called 1 c r e]) b child' st"
  by (cases "(log, b, child, st)" rule: uh_main_ok.cases)
    (auto simp del: One_nat_def intro: uh_verdict_more)

lemma uh_read_ret:
  assumes "uh_child_ok log 0 cr child"
  shows "uh_verdict_ok log (int_of_u32 cr)"
proof -
  from assms obtain r e where "waited log r e" "cr = u32_of_int RET_PASS \<or>
      (wait_failed r e \<and> cr = u32_of_int RET_ERROR)"
    by (cases "(log, 0 :: u32, cr, child)" rule: uh_child_ok.cases)
      (auto simp: uh_exit_ok_def split: if_splits)
  then show ?thesis
    by (auto simp: uh_verdict_ok_def sint_u32_of_int ret_defs s32_id INT_MIN_def INT_MAX_def)
qed

lemma uh_inv_kept:
  assumes inv: "uh_inv s" and step: "lstep uninit_heap {Buf} s s'"
  shows "uh_inv s'"
proof (cases "lthr s 0 = Exited")
  case True
  from exited_stays [OF step True] show ?thesis by (simp add: uh_inv_def)
next
  case False
  then have two: "lthr s t = Running l \<or> lthr s t = Blocked l \<Longrightarrow> t = 0 \<or> t = 1" for t l
    using inv two_threads [of s t l] by (auto simp: uh_inv_def)
  from step show ?thesis
  proof cases
    case (l_mem t l r m)
    with two [of t l] inv False show ?thesis
      by (cases l) (auto simp: uh_inv_def uh_verdict_ok_def [of _ RET_FAIL] simp del: uninit_heap_cont.simps(8)
          intro: uh_main_cong uh_read_ret uh_exit_okI, blast)
  next
    case (l_call t l c m r e)
    with two [of t l] inv False show ?thesis
      by (cases l) (auto simp: uh_inv_def waited_def simp del: One_nat_def intro: uh_main_more)
  next
    case (l_block t l c m)
    with two [of t l] inv False show ?thesis
      by (cases l) (auto simp: uh_inv_def intro: uh_main_cong)
  next
    case (l_create t l j l0)
    with two [of t l] inv False show ?thesis by (cases l) (auto simp: uh_inv_def)
  next
    case (l_create_fail t l j l0 r)
    with two [of t l] inv False show ?thesis
      by (cases l) (auto simp: uh_inv_def uh_verdict_ok_def creation_failed_def)
  next
    case (l_join t l j)
    then show ?thesis by (auto elim: uninit_heap_fetch.elims)
  next
    case (l_kill t l j)
    then show ?thesis by (auto elim: uninit_heap_fetch.elims)
  next
    case (l_exit t l)
    with two [of t l] inv False show ?thesis
      by (cases l) (auto simp: uh_inv_def intro: uh_main_cong)
  next
    case (l_halt t l)
    then show ?thesis by (simp add: uh_inv_def)
  qed
qed

interpretation uh: test_program uninit_heap "{Buf}" Create_waiter uh_memory uh_inv
  by unfold_locales (simp add: uh_inv_def linit_def start_threads_def uh_memory_def, rule uh_inv_kept)

section \<open>Properties\<close>

text \<open>C31: what a result of \<^verbatim>\<open>futex_wait_uninitialized_heap\<close> says.  On any kernel that writes to the futex
  only, \<^verbatim>\<open>RET_PASS\<close> means the wait of the child returned, \<^verbatim>\<open>RET_ERROR\<close> that the child could not be
  created or its wait failed with another error than \<^verbatim>\<open>EWOULDBLOCK\<close>, and the only other result is
  \<^verbatim>\<open>RET_FAIL\<close>.\<close>

theorem uninit_heap_verdict:
  assumes "test_reach K {Buf} uninit_heap Create_waiter uh_memory s" "thr s 0 = Running (Uh_done ret)"
  shows "(ret = RET_PASS \<and> (\<exists>r e. waited (klog s) r e)) \<or>
    (ret = RET_ERROR \<and> (creation_failed (klog s) \<or> (\<exists>r e. waited (klog s) r e \<and> wait_failed r e))) \<or>
    ret = RET_FAIL"
  using uh.test_reach_tinv [OF assms(1)] assms(2)
  by (auto simp: uh_inv_def uh_verdict_ok_def)

definition uh_error_state where
  "uh_error_state = the (scripted uninit_heap Create_waiter uh_memory [(- 1, EINVAL)]
     [0, 0, 1, 1, 1, 1, 1, 0, 0])"

lemma uh_error_reach: "test_reach script_kernel {Buf} uninit_heap Create_waiter uh_memory uh_error_state"
  unfolding uh_error_state_def by (rule scripted_reach) code_simp

lemma uh_error_facts: "thr uh_error_state 0 = Running (Uh_done RET_ERROR)"
  "klog uh_error_state = [Created 1 0, Called 1 uh_wait_call (- 1) EINVAL]"
  by code_simp+

theorem uninit_heap_verdict_witness: "\<exists>r e. waited (klog uh_error_state) r e \<and> wait_failed r e"
  using uninit_heap_verdict [OF uh_error_reach uh_error_facts(1)]
  by (simp add: uh_error_facts(2) creation_failed_def ret_defs)

text \<open>The verdict is exact once the child is done.  If the child has exited when the main thread
  looks, the test passes exactly if the wait returned 0 or failed with \<^verbatim>\<open>EWOULDBLOCK\<close>, and it ends
  with \<^verbatim>\<open>RET_ERROR\<close> otherwise.\<close>

theorem uninit_heap_exact:
  assumes "test_reach K {Buf} uninit_heap Create_waiter uh_memory s"
    "thr s 0 = Running Read_blocked" "thr s 1 = Exited"
  shows "\<exists>r e s'. waited (klog s) r e \<and> run_schedule (logged K) uninit_heap [0, 0] s = Some s' \<and>
    thr s' 0 = Running (Uh_done (if r = 0 \<or> e = EWOULDBLOCK then RET_PASS else RET_ERROR))"
proof -
  from uh.test_reach_tinv [OF assms(1)] assms(2,3) obtain r e where
    log: "waited (klog s) r e" and mem: "mem s Child_blocked = 0"
      "mem s Child_ret = u32_of_int (if wait_failed r e then RET_ERROR else RET_PASS)"
    by (auto simp: uh_inv_def uh_exit_ok_def)
  show ?thesis
    by (rule exI [of _ r], rule exI [of _ e])
      (use assms(2) log mem in \<open>auto simp: tstep_def goto_def wait_failed_def ret_defs\<close>)
qed

definition uh_looking_state where
  "uh_looking_state = the (scheduled fifo_kernel \<lparr>queue = [], budget = 1\<rparr> uninit_heap Create_waiter uh_memory
     [0, 1, 1, 1, 1, 0])"

lemma uh_looking_reach:
  "test_reach fifo_kernel {Buf} uninit_heap Create_waiter uh_memory uh_looking_state"
  unfolding uh_looking_state_def by (rule scheduled_reach [OF fifo_writes]) code_simp

lemma uh_looking_facts:
  "thr uh_looking_state 0 = Running Read_blocked" "thr uh_looking_state 1 = Exited"
  "klog uh_looking_state = [Created 1 0, Called 1 uh_wait_call (- 1) EWOULDBLOCK]"
  by code_simp+

theorem uninit_heap_exact_witness:
  "\<exists>s'. run_schedule (logged fifo_kernel) uninit_heap [0, 0] uh_looking_state = Some s' \<and>
     thr s' 0 = Running (Uh_done RET_PASS)"
  using uninit_heap_exact [OF uh_looking_reach uh_looking_facts(1,2)]
  by (auto simp: waited_def uh_looking_facts(3) answers_def)



text \<open>C36: the child reports too late.  It clears \<^verbatim>\<open>child_blocked\<close> before it stores its error, so there
  is a run in which its wait fails with \<^verbatim>\<open>EINVAL\<close> and the test passes.\<close>

theorem uninit_heap_race:
  "\<exists>s. test_reach script_kernel {Buf} uninit_heap Create_waiter uh_memory s \<and>
     answers 1 (klog s) = [Called 1 uh_wait_call (- 1) EINVAL] \<and>
     thr s 0 = Running (Uh_done RET_PASS)"
proof -
  let ?s = "the (scripted uninit_heap Create_waiter uh_memory [(- 1, EINVAL)] [0, 0, 1, 1, 1, 0, 0])"
  have "test_reach script_kernel {Buf} uninit_heap Create_waiter uh_memory ?s"
    by (rule scripted_reach) code_simp
  moreover have "answers 1 (klog ?s) = [Called 1 uh_wait_call (- 1) EINVAL]"
    "thr ?s 0 = Running (Uh_done RET_PASS)" by code_simp+
  ultimately show ?thesis by blast
qed

end
