(* ===== verification/Uninit_Told.thy ===== *)
theory Uninit_Told
  imports Complaints Uninit_Heap
begin

text \<open>
  What \<^verbatim>\<open>functional/futex_wait_uninitialized_heap.c\<close> prints to \<^verbatim>\<open>stderr\<close> (\<open>uninit_heap_says\<close>) and how it
  agrees with the result: a result other than \<^verbatim>\<open>RET_PASS\<close> is explained, and a pass with a complaint is
  the race of the child with \<^verbatim>\<open>main\<close>.
\<close>

section \<open>Its messages\<close>

fun uninit_heap_says :: "uh_pc voice" where
  "uninit_heap_says Create_waiter r =
     (if resp_ret r \<noteq> 0 then [Error_line (''pthread_create'' @ newline) (resp_errno r)] else [])"
| "uninit_heap_says Read_blocked r =
     (if resp_val r \<noteq> 0 then [Fail_line (''child blocked in kernel'' @ newline)] else [])"
| "uninit_heap_says (Clear_blocked res errno) r =
     (if res \<noteq> 0 \<and> errno \<noteq> EWOULDBLOCK then [Error_line (''futex failure'' @ newline) errno] else [])"
| "uninit_heap_says _ r = []"

text \<open>\<open>b\<close>: whether the thread has said something; \<open>b'\<close>: whether the child has.\<close>

fun uh_main_told :: "bool \<Rightarrow> bool \<Rightarrow> uh_pc tstatus \<Rightarrow> bool" where
  "uh_main_told b b' (Running (Uh_done ret)) \<longleftrightarrow> (if b then ret \<noteq> RET_PASS else ret \<noteq> RET_PASS \<longrightarrow> b')"
| "uh_main_told b b' (Running l) \<longleftrightarrow> \<not> b"
| "uh_main_told b b' st \<longleftrightarrow> True"

fun uh_child_told :: "bool \<Rightarrow> uh_loc event list \<Rightarrow> uh_pc tstatus \<Rightarrow> bool" where
  "uh_child_told b log (Running Set_error) \<longleftrightarrow> b"
| "uh_child_told b log (Running Uh_exit) \<longleftrightarrow> (b \<longleftrightarrow> (\<exists>r e. waited log r e \<and> wait_failed r e))"
| "uh_child_told b log Exited \<longleftrightarrow> (b \<longleftrightarrow> (\<exists>r e. waited log r e \<and> wait_failed r e))"
| "uh_child_told b log st \<longleftrightarrow> \<not> b"

definition uh_told :: "(uh_loc, uh_pc) lstate \<Rightarrow> (tid \<times> complaint) list \<Rightarrow> bool" where
  "uh_told s out \<longleftrightarrow> lthr s 0 = Exited \<or>
     (uh_main_told (said out 0) (said out 1) (lthr s 0) \<and>
      uh_child_told (said out 1) (llog s) (lthr s 1) \<and> (\<forall>t>1. \<not> said out t))"

text \<open>What \<^verbatim>\<open>main\<close> reads from \<^verbatim>\<open>child_ret\<close> after it saw \<^verbatim>\<open>child_blocked\<close> cleared.\<close>

lemma uh_read_told:
  assumes "uh_child_ok log 0 cr child" "uh_child_told b log child" "int_of_u32 cr \<noteq> RET_PASS"
  shows b
  using assms by (cases "(log, 0 :: u32, cr, child)" rule: uh_child_ok.cases)
    (auto simp: uh_exit_ok_def sint_u32_of_int ret_defs s32_id INT_MIN_def INT_MAX_def split: if_splits)

lemma uh_main_told_cong: "uh_main_told b c st \<Longrightarrow> (c \<Longrightarrow> c') \<Longrightarrow> uh_main_told b c' st"
  by (cases "(b, c, st)" rule: uh_main_told.cases) (auto split: if_splits)

lemma uh_told_kept:
  assumes inv: "uh_inv s" and out: "uh_told s out" and step: "lmove uninit_heap {Buf} t ro s s'"
  shows "uh_told s' (out @ utter uninit_heap_says t (lthr s t) ro)"
proof (cases "lthr s 0 = Exited")
  case True
  from exited_stays [OF lmove_lstep [OF step] True] show ?thesis by (simp add: uh_told_def)
next
  case False
  then have two: "lthr s t = Running l \<or> lthr s t = Blocked l \<Longrightarrow> t = 0 \<or> t = 1" for l
    using inv two_threads [of s t l] by (auto simp: uh_inv_def)
  from step show ?thesis
  proof cases
    case (m_mem l r m)
    with two [of l] inv out False show ?thesis
      by (cases l) (auto simp: uh_told_def uh_inv_def waited_def wait_failed_def ret_defs
          intro: uh_main_told_cong uh_read_told [unfolded RET_PASS_def])
  next
    case (m_call l c m r e)
    with two [of l] inv out False show ?thesis
      by (cases l) (auto simp: uh_told_def uh_inv_def)
  next
    case (m_block l c m)
    with two [of l] inv out False show ?thesis by (cases l) (auto simp: uh_told_def uh_inv_def)
  next
    case (m_create l j l0)
    with two [of l] inv out False show ?thesis by (cases l) (auto simp: uh_told_def uh_inv_def)
  next
    case (m_create_fail l j l0 r)
    with two [of l] inv out False show ?thesis
      by (cases l) (auto simp: uh_told_def uh_inv_def ret_defs)
  next
    case (m_join l j)
    then show ?thesis by (auto elim: uninit_heap_fetch.elims)
  next
    case (m_kill l j)
    then show ?thesis by (auto elim: uninit_heap_fetch.elims)
  next
    case (m_exit l)
    with two [of l] inv out False show ?thesis by (cases l) (auto simp: uh_told_def uh_inv_def)
  next
    case (m_halt l)
    then show ?thesis by (simp add: uh_told_def)
  qed
qed

interpretation uh_out: telling_program uninit_heap "{Buf}" Create_waiter uh_memory uh_inv
  uninit_heap_says uh_told
  by unfold_locales (simp add: uh_told_def linit_def start_threads_def, rule uh_told_kept)

section \<open>Properties\<close>

text \<open>The messages of \<^verbatim>\<open>futex_wait_uninitialized_heap\<close> and its result.  On any kernel, at any verbosity from
  \<^verbatim>\<open>VCRITICAL\<close> on, a result other than \<^verbatim>\<open>RET_PASS\<close> is explained on \<^verbatim>\<open>stderr\<close>, and a pass with a line on
  \<^verbatim>\<open>stderr\<close> is one whose wait failed.\<close>

theorem uninit_heap_explained:
  assumes "told K {Buf} uninit_heap uninit_heap_says Create_waiter uh_memory s out"
    "thr s 0 = Running (Uh_done ret)" "VCRITICAL \<le> verbose st"
  shows "(ret \<noteq> RET_PASS \<longrightarrow> stderr_lines strerror st out \<noteq> []) \<and>
    (ret = RET_PASS \<longrightarrow> stderr_lines strerror st out \<noteq> [] \<longrightarrow> (\<exists>r e. waited (klog s) r e \<and> wait_failed r e))"
proof -
  from uh.test_reach_tinv [OF told_test [OF assms(1)]] assms(2)
  have inv: "uh_child_ok (klog s) (mem s Child_blocked) (mem s Child_ret) (thr s 1)" by (auto simp: uh_inv_def)
  from uh_out.told_oinv [OF assms(1)] assms(2)
  have told: "if said out 0 then ret \<noteq> RET_PASS else ret \<noteq> RET_PASS \<longrightarrow> said out 1"
    "uh_child_told (said out 1) (klog s) (thr s 1)" "\<forall>t>1. \<not> said out t" by (auto simp: uh_told_def)
  have "\<exists>r e. waited (klog s) r e \<and> wait_failed r e" if "said out 1"
    using inv told(2) that
    by (cases "(klog s, mem s Child_blocked, mem s Child_ret, thr s 1)" rule: uh_child_ok.cases) auto
  moreover have "out \<noteq> [] \<longleftrightarrow> said out 0 \<or> said out 1"
    using told(3) unfolding nobody_said by (metis less_one linorder_neqE_nat)
  ultimately show ?thesis
    using told(1) stderr_silent [OF assms(3), of strerror out] by (auto split: if_splits)
qed

definition uh_raced where
  "uh_raced = tell_script uninit_heap uninit_heap_says Create_waiter uh_memory [(- 1, EINVAL)] [0, 0, 1, 1, 1, 0, 0]"

lemma uh_raced_told: "told script_kernel {Buf} uninit_heap uninit_heap_says Create_waiter uh_memory
    (fst uh_raced) (snd uh_raced)"
  unfolding uh_raced_def by (rule tell_script_told) code_simp

lemma uh_raced_facts: "thr (fst uh_raced) 0 = Running (Uh_done RET_PASS)" "VCRITICAL \<le> verbose log_init"
  "stderr_lines (\<lambda>_. ''Invalid argument'') log_init (snd uh_raced) =
    [tab @ ''ERROR: Invalid argument: futex failure'' @ newline]"
  by code_simp+

theorem uninit_heap_explained_witness: "\<exists>r e. waited (klog (fst uh_raced)) r e \<and> wait_failed r e"
  using uninit_heap_explained [OF uh_raced_told uh_raced_facts(1,2), of "\<lambda>_. ''Invalid argument''"]
  by (simp add: uh_raced_facts(3))

end
