(* ===== verification/Mismatched_Ops.thy ===== *)
theory Mismatched_Ops
  imports Logged_Runs
begin

text \<open>
  \<^verbatim>\<open>functional/futex_requeue_pi_mismatched_ops.c\<close>: the main thread (thread 0) asks the kernel to
  requeue a child (thread 1) that waits with \<^verbatim>\<open>FUTEX_WAIT\<close>, which the kernel has to refuse with
  \<^verbatim>\<open>EINVAL\<close>, and wakes the child again.  The control points are the accesses to shared memory
  and the calls of \<^verbatim>\<open>main\<close> and \<^verbatim>\<open>blocking_child\<close>; \<^verbatim>\<open>sleep\<close> is a step without effect.  The
  messages to \<^verbatim>\<open>stderr\<close> are in theory \<open>Mismatched_Told\<close>.
\<close>

datatype mo_loc = Mo_f1 | Mo_f2 | Child_ret

abbreviation mo_memory :: "mo_loc memory" where
  "mo_memory \<equiv> (\<lambda>_. 0)"

section \<open>The program\<close>

datatype mo_pc =
    Create_child | Sleep | Read_f1 | Requeue u32 | Wake_child | Join_child int | Read_child_ret
  | Main_done int
  | Child_read | Child_wait u32 | Child_store int int | Child_check int | Child_error int | Child_done

definition mo_requeue :: "u32 \<Rightarrow> mo_loc futex_call" where
  "mo_requeue v = futex_cmp_requeue_pi Mo_f1 v Mo_f2 1 0 FUTEX_PRIVATE_FLAG"

definition mo_wake :: "mo_loc futex_call" where
  "mo_wake = futex_wake Mo_f1 1 FUTEX_PRIVATE_FLAG"

definition mo_wait :: "u32 \<Rightarrow> mo_loc futex_call" where
  "mo_wait v = futex_wait Mo_f1 v None FUTEX_PRIVATE_FLAG"

fun mismatched_ops_fetch :: "mo_pc \<Rightarrow> (mo_loc, mo_pc) instr" where
  "mismatched_ops_fetch Create_child = Create 1 Child_read"
| "mismatched_ops_fetch Sleep = Nop"
| "mismatched_ops_fetch Read_f1 = Load Mo_f1"
| "mismatched_ops_fetch (Requeue v) = Syscall (mo_requeue v)"
| "mismatched_ops_fetch Wake_child = Syscall mo_wake"
| "mismatched_ops_fetch (Join_child ret) = Join 1"
| "mismatched_ops_fetch Read_child_ret = Load Child_ret"
| "mismatched_ops_fetch (Main_done ret) = Halt"
| "mismatched_ops_fetch Child_read = Load Mo_f1"
| "mismatched_ops_fetch (Child_wait v) = Syscall (mo_wait v)"
| "mismatched_ops_fetch (Child_store res errno) = Store Child_ret (u32_of_int res)"
| "mismatched_ops_fetch (Child_check errno) = Load Child_ret"
| "mismatched_ops_fetch (Child_error errno) = Store Child_ret (u32_of_int (- errno))"
| "mismatched_ops_fetch Child_done = Exit"

text \<open>Where \<^verbatim>\<open>main\<close> goes from the answer to its requeue call, and from the number of threads
  \<^verbatim>\<open>futex_wake\<close> woke.\<close>

definition after_requeue :: "int \<Rightarrow> int \<Rightarrow> mo_pc" where
  "after_requeue ret errno =
     (if ret < 0 then (if errno = EINVAL then Wake_child else Join_child RET_ERROR)
      else if ret > 0 then Join_child RET_FAIL
      else Join_child RET_ERROR)"

definition after_wake :: "int \<Rightarrow> mo_pc" where
  "after_wake ret =
     (if ret = 1 then Join_child RET_PASS
      else if ret < 0 then Join_child RET_ERROR
      else Join_child RET_ERROR)"

fun mismatched_ops_cont :: "mo_pc \<Rightarrow> resp \<Rightarrow> mo_pc" where
  "mismatched_ops_cont Create_child r = (if resp_ret r \<noteq> 0 then Main_done RET_ERROR else Sleep)"
| "mismatched_ops_cont Sleep r = Read_f1"
| "mismatched_ops_cont Read_f1 r = Requeue (resp_val r)"
| "mismatched_ops_cont (Requeue v) r = after_requeue (resp_ret r) (resp_errno r)"
| "mismatched_ops_cont Wake_child r = after_wake (resp_ret r)"
| "mismatched_ops_cont (Join_child ret) r = (if ret = 0 then Read_child_ret else Main_done ret)"
| "mismatched_ops_cont Read_child_ret r = Main_done (int_of_u32 (resp_val r))"
| "mismatched_ops_cont (Main_done ret) r = Main_done ret"
| "mismatched_ops_cont Child_read r = Child_wait (resp_val r)"
| "mismatched_ops_cont (Child_wait v) r = Child_store (resp_ret r) (resp_errno r)"
| "mismatched_ops_cont (Child_store res errno) r = Child_check errno"
| "mismatched_ops_cont (Child_check errno) r =
     (if int_of_u32 (resp_val r) < 0 then Child_error errno else Child_done)"
| "mismatched_ops_cont (Child_error errno) r = Child_done"
| "mismatched_ops_cont Child_done r = Child_done"

definition mismatched_ops :: "(mo_loc, mo_pc) program" where
  "mismatched_ops = \<lparr>fetch = mismatched_ops_fetch, cont = mismatched_ops_cont\<rparr>"

definition mismatched_ops_usage :: "string \<Rightarrow> string" where
  "mismatched_ops_usage prog = usage_prog prog @ usage_color @ usage_help @ usage_verbosity"

definition mismatched_ops_main ::
    "string list \<Rightarrow> leave + (string \<times> (mo_loc, mo_pc) program \<times> (int \<Rightarrow> string))" where
  "mismatched_ops_main = test_main mismatched_ops_usage ''Detect mismatched requeue_pi operations'' mismatched_ops"

section \<open>Verdict and answers\<close>

text \<open>The result the answers of the kernel call for: those \<^verbatim>\<open>main\<close> got, and the one the child got.\<close>

fun main_verdict :: "mo_loc event list \<Rightarrow> int" where
  "main_verdict [Called t c r e] = (if r > 0 then RET_FAIL else RET_ERROR)"
| "main_verdict [Called t c r e, Called t' c' r' e'] = (if r' = 1 then RET_PASS else RET_ERROR)"
| "main_verdict _ = RET_ERROR"

definition child_value :: "int \<Rightarrow> int \<Rightarrow> int" where
  "child_value res errno = s32 (if s32 res < 0 then - errno else res)"

text \<open>The calls \<^verbatim>\<open>main\<close> has made when it joins the child.\<close>

definition main_calls :: "mo_loc event list \<Rightarrow> bool" where
  "main_calls log \<longleftrightarrow>
     (\<exists>v r e. \<not> (r < 0 \<and> e = EINVAL) \<and> log = [Called 0 (mo_requeue v) r e]) \<or>
     (\<exists>v r r' e'. r < 0 \<and> log = [Called 0 (mo_requeue v) r EINVAL, Called 0 mo_wake r' e'])"

fun main_ok :: "mo_loc event list \<Rightarrow> mo_pc tstatus \<Rightarrow> mo_pc tstatus \<Rightarrow> bool" where
  "main_ok log child (Running Create_child) = (answers 0 log = [] \<and> child = Unborn)"
| "main_ok log child (Running Sleep) = (answers 0 log = [] \<and> child \<noteq> Unborn)"
| "main_ok log child (Running Read_f1) = (answers 0 log = [] \<and> child \<noteq> Unborn)"
| "main_ok log child (Running (Requeue v)) = (answers 0 log = [] \<and> child \<noteq> Unborn)"
| "main_ok log child (Blocked (Requeue v)) = (answers 0 log = [] \<and> child \<noteq> Unborn)"
| "main_ok log child (Running Wake_child) =
     ((\<exists>v r. r < 0 \<and> answers 0 log = [Called 0 (mo_requeue v) r EINVAL]) \<and> child \<noteq> Unborn)"
| "main_ok log child (Blocked Wake_child) =
     ((\<exists>v r. r < 0 \<and> answers 0 log = [Called 0 (mo_requeue v) r EINVAL]) \<and> child \<noteq> Unborn)"
| "main_ok log child (Running (Join_child ret)) =
     (main_calls (answers 0 log) \<and> ret = main_verdict (answers 0 log) \<and> child \<noteq> Unborn)"
| "main_ok log child (Running Read_child_ret) =
     (main_calls (answers 0 log) \<and> main_verdict (answers 0 log) = 0 \<and> child = Exited)"
| "main_ok log child (Running (Main_done ret)) =
     ((child = Unborn \<and> ret = RET_ERROR \<and> answers 0 log = []) \<or>
      (main_calls (answers 0 log) \<and> child = Exited \<and>
       (\<exists>v r e. answers 1 log = [Called 1 (mo_wait v) r e] \<and>
          ret = (if main_verdict (answers 0 log) = 0 then child_value r e else main_verdict (answers 0 log)))))"
| "main_ok log child _ = False"

fun child_ok :: "u32 \<Rightarrow> mo_loc event list \<Rightarrow> mo_pc tstatus \<Rightarrow> bool" where
  "child_ok w log Unborn = (log = [])"
| "child_ok w log (Running Child_read) = (log = [])"
| "child_ok w log (Running (Child_wait v)) = (log = [])"
| "child_ok w log (Blocked (Child_wait v)) = (log = [])"
| "child_ok w log (Running (Child_store res errno)) = (\<exists>v. log = [Called 1 (mo_wait v) res errno])"
| "child_ok w log (Running (Child_check errno)) =
     (\<exists>v res. log = [Called 1 (mo_wait v) res errno] \<and> w = u32_of_int res)"
| "child_ok w log (Running (Child_error errno)) =
     (\<exists>v res. log = [Called 1 (mo_wait v) res errno] \<and> s32 res < 0)"
| "child_ok w log (Running Child_done) =
     (\<exists>v r e. log = [Called 1 (mo_wait v) r e] \<and> int_of_u32 w = child_value r e)"
| "child_ok w log Exited =
     (\<exists>v r e. log = [Called 1 (mo_wait v) r e] \<and> int_of_u32 w = child_value r e)"
| "child_ok w log _ = False"

definition mo_inv :: "(mo_loc, mo_pc) lstate \<Rightarrow> bool" where
  "mo_inv s \<longleftrightarrow> lthr s 0 = Exited \<or>
     (main_ok (llog s) (lthr s 1) (lthr s 0) \<and>
      child_ok (lmem s Child_ret) (answers 1 (llog s)) (lthr s 1) \<and> (\<forall>t>1. lthr s t = Unborn))"

lemma mismatched_ops_simps [simp]:
  "fetch mismatched_ops = mismatched_ops_fetch" "cont mismatched_ops = mismatched_ops_cont"
  by (simp_all add: mismatched_ops_def)

lemma mo_thread:
  assumes "mo_inv s" "lthr s t = Running l \<or> lthr s t = Blocked l" "lthr s 0 \<noteq> Exited"
  shows "t = 0 \<or> t = 1"
  using two_threads [of s t l] assms by (auto simp: mo_inv_def)

lemma mo_calls_inject [simp]:
  "mo_requeue v = mo_requeue v' \<longleftrightarrow> v = v'" "mo_wait v = mo_wait v' \<longleftrightarrow> v = v'"
  by (auto simp: mo_requeue_def mo_wait_def wrapper_defs futex_def)

lemma child_value_error: "s32 r < 0 \<Longrightarrow> child_value r e = s32 (- e)"
  and child_value_ok: "\<not> s32 r < 0 \<Longrightarrow> child_value r e = s32 r"
  by (simp_all add: child_value_def)

lemma sint_minus_u32: "int_of_u32 (- u32_of_int x) = s32 (- x)"
  using sint_u32_of_int [of "- x"] by simp

lemma main_ok_cong: "main_ok log child st \<Longrightarrow> answers 0 log' = answers 0 log \<Longrightarrow>
    (child = Unborn \<longleftrightarrow> child' = Unborn) \<Longrightarrow> child \<noteq> Exited \<Longrightarrow> main_ok log' child' st"
  by (cases "(log, child, st)" rule: main_ok.cases) auto

lemma mo_call:
  assumes "mo_inv s" "lthr s 0 \<noteq> Exited" and l: "lthr s t = Running l \<or> lthr s t = Blocked l"
    and c: "mismatched_ops_fetch l = Syscall c" and m: "m Child_ret = lmem s Child_ret"
  shows "mo_inv (lgoto t (Running (mismatched_ops_cont l (Ret r e)))
    (s\<lparr>lmem := m, llog := llog s @ [Called t c r e]\<rparr>))"
proof -
  consider "t = 0" | "t = 1" using mo_thread [OF assms(1) l assms(2)] by blast
  then show ?thesis
  proof cases
    case 1
    with assms show ?thesis
      by (cases l) (auto simp: mo_inv_def after_requeue_def after_wake_def main_calls_def)
  next
    case 2
    with assms show ?thesis
      by (cases l) (auto simp: mo_inv_def intro: main_ok_cong)
  qed
qed

lemma mo_mem:
  assumes "mo_inv s" "lthr s 0 \<noteq> Exited" and l: "lthr s t = Running l"
    and c: "exec_mem (mismatched_ops_fetch l) (lmem s) = Some (r, m)"
  shows "mo_inv (lgoto t (Running (mismatched_ops_cont l r)) (s\<lparr>lmem := m\<rparr>))"
proof -
  consider "t = 0" | "t = 1" using mo_thread [OF assms(1) disjI1 [OF l] assms(2)] by blast
  then show ?thesis
  proof cases
    case 1
    with assms show ?thesis by (cases l) (auto simp: mo_inv_def)
  next
    case 2
    with assms show ?thesis
      by (cases l) (auto simp: mo_inv_def child_value_error child_value_ok sint_u32_of_int sint_minus_u32
          intro: main_ok_cong)
  qed
qed

lemma mo_inv_kept:
  assumes inv: "mo_inv s" and step: "lstep mismatched_ops {Mo_f1, Mo_f2} s s'"
  shows "mo_inv s'"
proof (cases "lthr s 0 = Exited")
  case True
  from exited_stays [OF step True] show ?thesis by (simp add: mo_inv_def)
next
  case False
  from step show ?thesis
  proof cases
    case (l_mem t l r m)
    with mo_mem [OF inv False] show ?thesis by simp
  next
    case (l_call t l c m r e)
    with mo_call [OF inv False l_call(2)] show ?thesis by simp
  next
    case (l_block t l c m)
    with mo_thread [OF inv _ False, of t l] inv False show ?thesis
      by (cases l) (auto simp: mo_inv_def intro: main_ok_cong)
  next
    case (l_create t l j l0)
    with mo_thread [OF inv _ False, of t l] inv False show ?thesis
      by (cases l) (auto simp: mo_inv_def)
  next
    case (l_create_fail t l j l0 r)
    with mo_thread [OF inv _ False, of t l] inv False show ?thesis
      by (cases l) (auto simp: mo_inv_def)
  next
    case (l_join t l j)
    with mo_thread [OF inv _ False, of t l] inv False show ?thesis
      by (cases l) (auto simp: mo_inv_def)
  next
    case (l_kill t l j)
    with mo_thread [OF inv _ False, of t l] show ?thesis by (cases l) auto
  next
    case (l_exit t l)
    with mo_thread [OF inv _ False, of t l] inv False show ?thesis
      by (cases l) (auto simp: mo_inv_def intro: main_ok_cong)
  next
    case (l_halt t l)
    then show ?thesis by (simp add: mo_inv_def)
  qed
qed

interpretation mo: test_program mismatched_ops "{Mo_f1, Mo_f2}" Create_child mo_memory mo_inv
  by unfold_locales (simp add: mo_inv_def linit_def start_threads_def, rule mo_inv_kept)

section \<open>Properties\<close>

lemma main_verdict_pass:
  "main_calls log \<Longrightarrow> main_verdict log = 0 \<longleftrightarrow>
    (\<exists>v r e'. r < 0 \<and> log = [Called 0 (mo_requeue v) r EINVAL, Called 0 mo_wake 1 e'])"
  by (auto simp: main_calls_def ret_defs split: if_splits)

text \<open>C24: the verdict of \<^verbatim>\<open>futex_requeue_pi_mismatched_ops\<close>.  On any kernel that writes to the two
  futexes only, \<^verbatim>\<open>main\<close> returns \<^verbatim>\<open>RET_PASS\<close> exactly if the kernel refused the requeue with
  \<^verbatim>\<open>EINVAL\<close>, the wake-up woke one thread, and the child's wait returned without error.\<close>

theorem mismatched_ops_pass:
  assumes "test_reach K {Mo_f1, Mo_f2} mismatched_ops Create_child mo_memory s"
    "thr s 0 = Running (Main_done ret)"
  shows "ret = RET_PASS \<longleftrightarrow>
    (\<exists>v r e'. r < 0 \<and>
       answers 0 (klog s) = [Called 0 (mo_requeue v) r EINVAL, Called 0 mo_wake 1 e']) \<and>
    (\<exists>v r e. answers 1 (klog s) = [Called 1 (mo_wait v) r e] \<and> child_value r e = 0)"
proof (cases "thr s 1 = Unborn")
  case True
  with mo.test_reach_tinv [OF assms(1)] assms(2) show ?thesis by (auto simp: mo_inv_def ret_defs)
next
  case False
  with mo.test_reach_tinv [OF assms(1)] assms(2) obtain v r e where
    calls: "main_calls (answers 0 (klog s))" and child: "answers 1 (klog s) = [Called 1 (mo_wait v) r e]"
    and ret: "ret = (if main_verdict (answers 0 (klog s)) = 0 then child_value r e
      else main_verdict (answers 0 (klog s)))"
    by (auto simp: mo_inv_def)
  show ?thesis
    unfolding main_verdict_pass [OF calls, symmetric] child ret by (auto simp: RET_PASS_def)
qed

definition detected_state where
  "detected_state = the (scripted mismatched_ops Create_child mo_memory [(- 1, EINVAL), (1, 0), (0, 0)]
     [0, 0, 0, 0, 0, 1, 1, 1, 1, 1, 0, 0])"

lemma detected_reach:
  "test_reach script_kernel {Mo_f1, Mo_f2} mismatched_ops Create_child mo_memory detected_state"
  unfolding detected_state_def by (rule scripted_reach) code_simp

lemma detected_facts: "thr detected_state 0 = Running (Main_done RET_PASS)"
  by code_simp

theorem mismatched_ops_pass_witness:
  "\<exists>v r e. answers 1 (klog detected_state) = [Called 1 (mo_wait v) r e] \<and> child_value r e = 0"
  using mismatched_ops_pass [OF detected_reach detected_facts] by blast

text \<open>A kernel that misses the mismatch fails.  If the requeue call moved or woke a thread, \<^verbatim>\<open>main\<close>
  returns \<^verbatim>\<open>RET_FAIL\<close>.\<close>

theorem mismatched_ops_fail:
  assumes "test_reach K {Mo_f1, Mo_f2} mismatched_ops Create_child mo_memory s"
    "thr s 0 = Running (Main_done ret)" "answers 0 (klog s) = [Called 0 (mo_requeue v) r e]" "0 < r"
  shows "ret = RET_FAIL"
  using mo.test_reach_tinv [OF assms(1)] assms(2-4)
  by (auto simp: mo_inv_def main_calls_def ret_defs split: if_splits)

definition missed_state where
  "missed_state = the (scripted mismatched_ops Create_child mo_memory [(1, 0), (0, 0)]
     [0, 0, 0, 0, 1, 1, 1, 1, 1, 0])"

lemma missed_reach:
  "test_reach script_kernel {Mo_f1, Mo_f2} mismatched_ops Create_child mo_memory missed_state"
  unfolding missed_state_def by (rule scripted_reach) code_simp

lemma missed_facts:
  "thr missed_state 0 = Running (Main_done (- 2))"
  "answers 0 (klog missed_state) = [Called 0 (mo_requeue 0) 1 0]"
  by code_simp+

theorem mismatched_ops_fail_witness: "RET_FAIL = - 2 \<and> thr missed_state 0 = Running (Main_done RET_FAIL)"
  using mismatched_ops_fail [OF missed_reach missed_facts] missed_facts(1) by simp

text \<open>A wait of the child that fails becomes the result of the test unchanged: with the kernel
  right about the mismatch, the test ends with the negative \<^verbatim>\<open>errno\<close> of the child, which is none
  of the three results.\<close>

theorem mismatched_ops_child_errno:
  "\<exists>s. test_reach script_kernel {Mo_f1, Mo_f2} mismatched_ops Create_child mo_memory s \<and>
     thr s 0 = Running (Main_done (- EAGAIN)) \<and>
     print_result log_init (- EAGAIN) = ''Result: Unknown return code'' @ newline"
proof -
  let ?s = "the (scripted mismatched_ops Create_child mo_memory [(- 1, EINVAL), (1, 0), (- 1, EAGAIN)]
     [0, 0, 0, 0, 0, 1, 1, 1, 1, 1, 1, 0, 0])"
  have "test_reach script_kernel {Mo_f1, Mo_f2} mismatched_ops Create_child mo_memory ?s"
    by (rule scripted_reach) code_simp
  moreover have "thr ?s 0 = Running (Main_done (- EAGAIN))" by code_simp
  moreover have "print_result log_init (- EAGAIN) = ''Result: Unknown return code'' @ newline"
    by code_simp
  ultimately show ?thesis by blast
qed

end
