(* ===== verification/Mismatched_Told.thy ===== *)
theory Mismatched_Told
  imports Complaints Mismatched_Ops
begin

text \<open>
  What \<^verbatim>\<open>functional/futex_requeue_pi_mismatched_ops.c\<close> prints to \<^verbatim>\<open>stderr\<close> (\<open>mismatched_ops_says\<close>), and
  that it agrees with the result: something is printed exactly if the result is negative.

  \<^verbatim>\<open>pthread_create\<close> does not set \<^verbatim>\<open>errno\<close>; the \<^verbatim>\<open>errno\<close> printed after it is the one from before, 0 as no
  call was made.
\<close>

section \<open>Its messages\<close>

definition says_requeue :: "int \<Rightarrow> int \<Rightarrow> complaint list" where
  "says_requeue ret errno =
     (if ret < 0 then (if errno = EINVAL then [] else [Error_line (''futex_cmp_requeue_pi'' @ newline) errno])
      else if ret > 0 then [Fail_line (''futex_cmp_requeue_pi failed to detect the mismatch'' @ newline)]
      else [Error_line (''futex_cmp_requeue_pi found no waiters'' @ newline) 0])"

definition says_wake :: "int \<Rightarrow> int \<Rightarrow> complaint list" where
  "says_wake ret errno =
     (if ret = 1 then []
      else if ret < 0 then [Error_line (''futex_wake'' @ newline) errno]
      else [Error_line (''futex_wake did not wake the child'' @ newline) 0])"

fun mismatched_ops_says :: "mo_pc voice" where
  "mismatched_ops_says Create_child r =
     (if resp_ret r \<noteq> 0 then [Error_line (''pthread_create'' @ newline) (resp_errno r)] else [])"
| "mismatched_ops_says (Requeue v) r = says_requeue (resp_ret r) (resp_errno r)"
| "mismatched_ops_says Wake_child r = says_wake (resp_ret r) (resp_errno r)"
| "mismatched_ops_says (Child_error errno) r = [Error_line (''futex_wait'' @ newline) errno]"
| "mismatched_ops_says _ r = []"

text \<open>\<open>b\<close>: whether the thread has said something.\<close>

fun mo_main_told :: "bool \<Rightarrow> u32 \<Rightarrow> mo_pc tstatus \<Rightarrow> mo_pc tstatus \<Rightarrow> bool" where
  "mo_main_told b w child (Running (Join_child ret)) \<longleftrightarrow> (b \<longleftrightarrow> ret \<noteq> RET_PASS) \<and> ret \<le> 0"
| "mo_main_told b w child (Running (Main_done ret)) \<longleftrightarrow>
     (if b then ret < 0 else child = Exited \<and> ret = int_of_u32 w)"
| "mo_main_told b w child st \<longleftrightarrow> \<not> b"

definition wait_error :: "mo_loc event list \<Rightarrow> bool" where
  "wait_error evs \<longleftrightarrow> (\<exists>v r e. evs = [Called 1 (mo_wait v) r e] \<and> s32 r < 0)"

fun mo_child_told :: "bool \<Rightarrow> mo_loc event list \<Rightarrow> mo_pc tstatus \<Rightarrow> bool" where
  "mo_child_told b evs (Running Child_done) \<longleftrightarrow> (b \<longleftrightarrow> wait_error evs)"
| "mo_child_told b evs Exited \<longleftrightarrow> (b \<longleftrightarrow> wait_error evs)"
| "mo_child_told b evs st \<longleftrightarrow> \<not> b"

definition mo_told :: "(mo_loc, mo_pc) lstate \<Rightarrow> (tid \<times> complaint) list \<Rightarrow> bool" where
  "mo_told s out \<longleftrightarrow> lthr s 0 = Exited \<or>
     (mo_main_told (said out 0) (lmem s Child_ret) (lthr s 1) (lthr s 0) \<and>
      mo_child_told (said out 1) (answers 1 (llog s)) (lthr s 1) \<and> (\<forall>t>1. \<not> said out t))"

lemma mo_main_told_cong: "mo_main_told b w child st \<Longrightarrow> child \<noteq> Exited \<Longrightarrow> mo_main_told b w' child' st"
  by (cases "(b, w, child, st)" rule: mo_main_told.cases) (auto split: if_splits)

lemma mo_told_kept:
  assumes inv: "mo_inv s" and out: "mo_told s out" and step: "lmove mismatched_ops {Mo_f1, Mo_f2} t ro s s'"
  shows "mo_told s' (out @ utter mismatched_ops_says t (lthr s t) ro)"
proof (cases "lthr s 0 = Exited")
  case True
  from exited_stays [OF lmove_lstep [OF step] True] show ?thesis by (simp add: mo_told_def)
next
  case False
  from step show ?thesis
  proof cases
    case (m_mem l r m)
    with mo_thread [OF inv _ False, of t l] inv out False show ?thesis
      by (cases l) (auto simp: mo_told_def mo_inv_def wait_error_def sint_u32_of_int intro: mo_main_told_cong)
  next
    case (m_call l c m r e)
    with mo_thread [OF inv m_call(3) False] inv out False show ?thesis
      by (cases l) (auto simp: mo_told_def mo_inv_def says_requeue_def says_wake_def after_requeue_def
          after_wake_def ret_defs intro: mo_main_told_cong)
  next
    case (m_block l c m)
    with mo_thread [OF inv _ False, of t l] inv out False show ?thesis
      by (cases l) (auto simp: mo_told_def mo_inv_def intro: mo_main_told_cong)
  next
    case (m_create l j l0)
    with mo_thread [OF inv _ False, of t l] inv out False show ?thesis
      by (cases l) (auto simp: mo_told_def mo_inv_def)
  next
    case (m_create_fail l j l0 r)
    with mo_thread [OF inv _ False, of t l] inv out False show ?thesis
      by (cases l) (auto simp: mo_told_def mo_inv_def ret_defs)
  next
    case (m_join l j)
    with mo_thread [OF inv _ False, of t l] inv out False show ?thesis
      by (cases l) (auto simp: mo_told_def mo_inv_def ret_defs)
  next
    case (m_kill l j)
    with mo_thread [OF inv _ False, of t l] show ?thesis by (cases l) auto
  next
    case (m_exit l)
    with mo_thread [OF inv _ False, of t l] inv out False show ?thesis
      by (cases l) (auto simp: mo_told_def mo_inv_def intro: mo_main_told_cong)
  next
    case (m_halt l)
    then show ?thesis by (simp add: mo_told_def)
  qed
qed

interpretation mo_out: telling_program mismatched_ops "{Mo_f1, Mo_f2}" Create_child mo_memory mo_inv
  mismatched_ops_says mo_told
  by unfold_locales (simp add: mo_told_def linit_def start_threads_def, rule mo_told_kept)

section \<open>Properties\<close>

lemma child_value_sign: "errno_ok (Called t c r e) \<Longrightarrow> child_value r e < 0 \<longleftrightarrow> s32 r < 0"
  by (auto simp: child_value_def s32_id INT_MIN_def INT_MAX_def)

text \<open>C27: the messages of \<^verbatim>\<open>futex_requeue_pi_mismatched_ops\<close> and its result agree.  On any kernel whose
  failing calls set \<^verbatim>\<open>errno\<close>, at any verbosity from \<^verbatim>\<open>VCRITICAL\<close> on, \<^verbatim>\<open>main\<close> returns a negative result
  exactly if an ERROR or FAIL line was printed, by \<^verbatim>\<open>main\<close> or by the child.\<close>

theorem mismatched_ops_explained:
  assumes "told K {Mo_f1, Mo_f2} mismatched_ops mismatched_ops_says Create_child mo_memory s out"
    "thr s 0 = Running (Main_done ret)" "list_all errno_ok (klog s)" "VCRITICAL \<le> verbose st"
  shows "stderr_lines strerror st out \<noteq> [] \<longleftrightarrow> ret < 0"
proof -
  from mo.test_reach_tinv [OF told_test [OF assms(1)]] assms(2)
  have inv: "thr s 1 = Unborn \<or> thr s 1 = Exited" "child_ok (mem s Child_ret) (answers 1 (klog s)) (thr s 1)"
    by (auto simp: mo_inv_def)
  from mo_out.told_oinv [OF assms(1)] assms(2)
  have told: "if said out 0 then ret < 0 else thr s 1 = Exited \<and> ret = int_of_u32 (mem s Child_ret)"
    "mo_child_told (said out 1) (answers 1 (klog s)) (thr s 1)" "\<forall>t>1. \<not> said out t"
    by (auto simp: mo_told_def)
  have "ret < 0 \<longleftrightarrow> said out 1" if "\<not> said out 0"
  proof -
    from that told(1) inv(2) obtain v r e where r: "answers 1 (klog s) = [Called 1 (mo_wait v) r e]"
      and ret: "ret = child_value r e" by auto
    from r have "Called 1 (mo_wait v) r e \<in> set (klog s)" by (auto simp: answers_def dest: filter_eq_ConsD)
    with assms(3) have "errno_ok (Called 1 (mo_wait v) r e)" by (auto simp: list_all_iff)
    from child_value_sign [OF this] that told r ret show ?thesis by (auto simp: wait_error_def)
  qed
  moreover have "out \<noteq> [] \<longleftrightarrow> said out 0 \<or> said out 1"
    using told(3) unfolding nobody_said by (metis less_one linorder_neqE_nat)
  ultimately show ?thesis
    using told(1) stderr_silent [OF assms(4), of strerror out] by (cases "said out 0") simp_all
qed

definition mo_missed where
  "mo_missed = tell_script mismatched_ops mismatched_ops_says Create_child mo_memory [(1, 0), (0, 0)]
     [0, 0, 0, 0, 1, 1, 1, 1, 1, 0]"

lemma mo_missed_told: "told script_kernel {Mo_f1, Mo_f2} mismatched_ops mismatched_ops_says Create_child mo_memory
    (fst mo_missed) (snd mo_missed)"
  unfolding mo_missed_def by (rule tell_script_told) code_simp

lemma mo_missed_facts: "thr (fst mo_missed) 0 = Running (Main_done (- 2))" "list_all errno_ok (klog (fst mo_missed))"
  "VCRITICAL \<le> verbose log_init"
  by code_simp+

theorem mismatched_ops_explained_witness: "stderr_lines (\<lambda>_. []) log_init (snd mo_missed) \<noteq> []"
  using mismatched_ops_explained [OF mo_missed_told mo_missed_facts] by simp

end
