(* ===== verification/Private_Mapped.thy ===== *)
theory Private_Mapped
  imports Logged_Runs
begin

text \<open>
  \<^verbatim>\<open>functional/futex_wait_private_mapped_file.c\<close>: thread 1 waits on a word of the data segment
  with a timeout of five seconds, the main thread changes the word after three seconds and
  wakes it.  The waiter ends the whole process when its wait fails with an unexpected error;
  \<^verbatim>\<open>usleep\<close> is a step without effect; the messages are in theory \<open>Private_Told\<close>.  \<^verbatim>\<open>ret\<close> is part of the
  control points because \<^verbatim>\<open>main\<close> keeps the result of \<^verbatim>\<open>pthread_create\<close> in it.
\<close>

datatype pm_loc = Pm_val

abbreviation pm_memory :: "pm_loc memory" where
  "pm_memory \<equiv> (\<lambda>_. 1)"

section \<open>The program\<close>

datatype pm_pc =
    Create_waiter | Pm_sleep int | Store_val int | Pm_wake int | Pm_join int | Pm_done int
  | Thr_wait | Thr_exit int | Thr_return

definition pm_wait_call :: "pm_loc futex_call" where
  "pm_wait_call = futex_wait Pm_val 1 (Some \<lparr>tv_sec = 5, tv_nsec = 0\<rparr>) 0"

definition pm_wake_call :: "pm_loc futex_call" where
  "pm_wake_call = futex_wake Pm_val 1 0"

fun private_mapped_fetch :: "pm_pc \<Rightarrow> (pm_loc, pm_pc) instr" where
  "private_mapped_fetch Create_waiter = Create 1 Thr_wait"
| "private_mapped_fetch (Pm_sleep ret) = Nop"
| "private_mapped_fetch (Store_val ret) = Store Pm_val 2"
| "private_mapped_fetch (Pm_wake ret) = Syscall pm_wake_call"
| "private_mapped_fetch (Pm_join ret) = Join 1"
| "private_mapped_fetch (Pm_done ret) = Halt"
| "private_mapped_fetch Thr_wait = Syscall pm_wait_call"
| "private_mapped_fetch (Thr_exit status) = Halt"
| "private_mapped_fetch Thr_return = Exit"

text \<open>\<^verbatim>\<open>thr_futex_wait\<close> after its call: an unexpected error ends the process, a timeout only gives a
  message.\<close>

definition thr_futex_wait_cont :: "int \<Rightarrow> int \<Rightarrow> pm_pc" where
  "thr_futex_wait_cont ret errno =
     (if ret \<noteq> 0 \<and> errno \<noteq> EWOULDBLOCK \<and> errno \<noteq> ETIMEDOUT then Thr_exit RET_ERROR else Thr_return)"

fun private_mapped_cont :: "pm_pc \<Rightarrow> resp \<Rightarrow> pm_pc" where
  "private_mapped_cont Create_waiter r =
     (if resp_ret r < 0 then Pm_done RET_ERROR else Pm_sleep (resp_ret r))"
| "private_mapped_cont (Pm_sleep ret) r = Store_val ret"
| "private_mapped_cont (Store_val ret) r = Pm_wake ret"
| "private_mapped_cont (Pm_wake ret) r = Pm_join (if resp_ret r \<noteq> 1 then RET_FAIL else ret)"
| "private_mapped_cont (Pm_join ret) r = Pm_done ret"
| "private_mapped_cont (Pm_done ret) r = Pm_done ret"
| "private_mapped_cont Thr_wait r = thr_futex_wait_cont (resp_ret r) (resp_errno r)"
| "private_mapped_cont (Thr_exit status) r = Thr_exit status"
| "private_mapped_cont Thr_return r = Thr_return"

definition private_mapped :: "(pm_loc, pm_pc) program" where
  "private_mapped = \<lparr>fetch = private_mapped_fetch, cont = private_mapped_cont\<rparr>"

definition private_mapped_usage :: "string \<Rightarrow> string" where
  "private_mapped_usage prog = usage_prog prog @ usage_color @ usage_help @ usage_verbosity"

definition private_mapped_main ::
    "string list \<Rightarrow> leave + (string \<times> (pm_loc, pm_pc) program \<times> (int \<Rightarrow> string))" where
  "private_mapped_main = test_main private_mapped_usage
     ''Test the futex value of private file mappings in FUTEX_WAIT'' private_mapped"

lemma private_mapped_simps [simp]:
  "fetch private_mapped = private_mapped_fetch" "cont private_mapped = private_mapped_cont"
  by (simp_all add: private_mapped_def)

section \<open>Verdict and answers\<close>

text \<open>Before its wake-up call \<^verbatim>\<open>ret\<close> is the result of the creation of the waiter.\<close>

definition created :: "int \<Rightarrow> pm_pc tstatus \<Rightarrow> bool" where
  "created ret child \<longleftrightarrow> (ret = 0 \<and> child \<noteq> Unborn) \<or> (0 < ret \<and> child = Unborn)"

definition wake_answer :: "pm_loc event list \<Rightarrow> int \<Rightarrow> bool" where
  "wake_answer log r \<longleftrightarrow> (\<exists>e. log = [Called 0 pm_wake_call r e])"

fun pm_main_ok :: "pm_loc event list \<Rightarrow> pm_pc tstatus \<Rightarrow> pm_pc tstatus \<Rightarrow> bool" where
  "pm_main_ok log child (Running Create_waiter) = (log = [] \<and> child = Unborn)"
| "pm_main_ok log child (Running (Pm_sleep ret)) = (log = [] \<and> created ret child)"
| "pm_main_ok log child (Running (Store_val ret)) = (log = [] \<and> created ret child)"
| "pm_main_ok log child (Running (Pm_wake ret)) = (log = [] \<and> created ret child)"
| "pm_main_ok log child (Blocked (Pm_wake ret)) = (log = [] \<and> created ret child)"
| "pm_main_ok log child (Running (Pm_join ret)) =
     (\<exists>r. wake_answer log r \<and> (if r = 1 then created ret child else ret = RET_FAIL))"
| "pm_main_ok log child (Running (Pm_done ret)) =
     ((log = [] \<and> ret = RET_ERROR \<and> child = Unborn) \<or>
      (child = Exited \<and> (\<exists>r. wake_answer log r \<and> ret = (if r = 1 then RET_PASS else RET_FAIL))))"
| "pm_main_ok log child _ = False"

fun pm_child_ok :: "pm_loc event list \<Rightarrow> pm_pc tstatus \<Rightarrow> bool" where
  "pm_child_ok log Unborn = (log = [])"
| "pm_child_ok log (Running Thr_wait) = (log = [])"
| "pm_child_ok log (Blocked Thr_wait) = (log = [])"
| "pm_child_ok log (Running (Thr_exit status)) =
     (\<exists>r e. log = [Called 1 pm_wait_call r e] \<and> r \<noteq> 0 \<and> e \<notin> {EWOULDBLOCK, ETIMEDOUT})"
| "pm_child_ok log (Running Thr_return) =
     (\<exists>r e. log = [Called 1 pm_wait_call r e] \<and> (r = 0 \<or> e \<in> {EWOULDBLOCK, ETIMEDOUT}))"
| "pm_child_ok log Exited =
     (\<exists>r e. log = [Called 1 pm_wait_call r e] \<and> (r = 0 \<or> e \<in> {EWOULDBLOCK, ETIMEDOUT}))"
| "pm_child_ok log _ = False"

definition pm_inv :: "(pm_loc, pm_pc) lstate \<Rightarrow> bool" where
  "pm_inv s \<longleftrightarrow> lthr s 0 = Exited \<or>
     (pm_main_ok (answers 0 (llog s)) (lthr s 1) (lthr s 0) \<and>
      pm_child_ok (answers 1 (llog s)) (lthr s 1) \<and> (\<forall>t>1. lthr s t = Unborn))"

lemma pm_main_cong: "pm_main_ok log child st \<Longrightarrow> (child = Unborn \<longleftrightarrow> child' = Unborn) \<Longrightarrow> child \<noteq> Exited \<Longrightarrow>
    pm_main_ok log child' st"
  by (cases "(log, child, st)" rule: pm_main_ok.cases) (auto simp: created_def split: if_splits)

lemma pm_inv_kept:
  assumes inv: "pm_inv s" and step: "lstep private_mapped {Pm_val} s s'"
  shows "pm_inv s'"
proof (cases "lthr s 0 = Exited")
  case True
  from exited_stays [OF step True] show ?thesis by (simp add: pm_inv_def)
next
  case False
  then have two: "lthr s t = Running l \<or> lthr s t = Blocked l \<Longrightarrow> t = 0 \<or> t = 1" for t l
    using inv two_threads [of s t l] by (auto simp: pm_inv_def)
  from step show ?thesis
  proof cases
    case (l_mem t l r m)
    with two [of t l] inv False show ?thesis by (cases l) (auto simp: pm_inv_def)
  next
    case (l_call t l c m r e)
    with two [of t l] inv False show ?thesis
      by (cases l) (auto simp: pm_inv_def wake_answer_def thr_futex_wait_cont_def intro: pm_main_cong)
  next
    case (l_block t l c m)
    with two [of t l] inv False show ?thesis
      by (cases l) (auto simp: pm_inv_def intro: pm_main_cong)
  next
    case (l_create t l j l0)
    with two [of t l] inv False show ?thesis by (cases l) (auto simp: pm_inv_def created_def)
  next
    case (l_create_fail t l j l0 r)
    with two [of t l] inv False show ?thesis by (cases l) (auto simp: pm_inv_def created_def)
  next
    case (l_join t l j)
    with two [of t l] inv False show ?thesis
      by (cases l) (auto simp: pm_inv_def created_def RET_PASS_def split: if_splits)
  next
    case (l_kill t l j)
    then show ?thesis by (cases l) (auto split: if_splits)
  next
    case (l_exit t l)
    with two [of t l] inv False show ?thesis
      by (cases l) (auto simp: pm_inv_def intro: pm_main_cong)
  next
    case (l_halt t l)
    then show ?thesis by (simp add: pm_inv_def)
  qed
qed

interpretation pm: test_program private_mapped "{Pm_val}" Create_waiter pm_memory pm_inv
  by unfold_locales (simp add: pm_inv_def linit_def start_threads_def, rule pm_inv_kept)

section \<open>Properties\<close>

text \<open>C28: the verdict of \<^verbatim>\<open>futex_wait_private_mapped_file\<close>.  On any kernel that writes to the futex only,
  \<^verbatim>\<open>main\<close> returns \<^verbatim>\<open>RET_PASS\<close> exactly if its \<^verbatim>\<open>futex_wake\<close> woke one thread, \<^verbatim>\<open>RET_FAIL\<close> if it woke
  another number, and no call has been made when it returns \<^verbatim>\<open>RET_ERROR\<close>.\<close>

theorem private_mapped_verdict:
  assumes "test_reach K {Pm_val} private_mapped Create_waiter pm_memory s" "thr s 0 = Running (Pm_done ret)"
  shows "(ret = RET_PASS \<longleftrightarrow> wake_answer (answers 0 (klog s)) 1) \<and>
    (ret = RET_FAIL \<longleftrightarrow> (\<exists>r. r \<noteq> 1 \<and> wake_answer (answers 0 (klog s)) r)) \<and>
    (ret = RET_ERROR \<longleftrightarrow> answers 0 (klog s) = [])"
  using pm.test_reach_tinv [OF assms(1)] assms(2)
  by (auto simp: pm_inv_def wake_answer_def ret_defs split: if_splits)

definition pm_woken_state where
  "pm_woken_state = the (scripted private_mapped Create_waiter pm_memory [(1, 0), (0, 0)] [0, 0, 0, 0, 1, 1, 0])"

lemma pm_woken_reach: "test_reach script_kernel {Pm_val} private_mapped Create_waiter pm_memory pm_woken_state"
  unfolding pm_woken_state_def by (rule scripted_reach) code_simp

lemma pm_woken_facts: "thr pm_woken_state 0 = Running (Pm_done RET_PASS)"
  by code_simp

theorem private_mapped_verdict_witness:
  "thr pm_woken_state 0 = Running (Pm_done RET_PASS) \<and> wake_answer (answers 0 (klog pm_woken_state)) 1"
  using private_mapped_verdict [OF pm_woken_reach pm_woken_facts] pm_woken_facts by blast

text \<open>The wake-up finds the waiter.  On a kernel whose \<^verbatim>\<open>FUTEX_WAKE\<close> behaves as documented, if the
  waiter sleeps on the word when the main thread calls \<^verbatim>\<open>futex_wake\<close>, the test goes on to pass.\<close>

theorem private_mapped_wakes:
  assumes "wake_contract K" "thr s 0 = Running (Pm_wake 0)" "kwaiting K (ks s) = [1 \<mapsto> Pm_val]"
  shows "\<exists>s'. tstep K private_mapped 0 s = Some s' \<and> thr s' 0 = Running (Pm_join 0) \<and>
    kwaiting K (ks s') = Map.empty"
proof -
  obtain r m k where call: "kcall K 0 pm_wake_call (mem s) (ks s) = (r, m, k)" by (metis prod_cases3)
  have "decode pm_wake_call = Some (Wake Pm_val 1)" by (simp add: pm_wake_call_def)
  from wake_contractD [OF assms(1) this _ call] obtain W where W: "r = Some (int (card W), 0)"
    "W \<subseteq> {u. kwaiting K (ks s) u = Some Pm_val}"
    "W = {u. kwaiting K (ks s) u = Some Pm_val} \<or> int (card W) = 1"
    "kwaiting K k = (\<lambda>u. if u \<in> W then None else kwaiting K (ks s) u)" by auto
  have "{u. kwaiting K (ks s) u = Some Pm_val} = {1}" by (simp add: assms(3))
  with W(2,3) have "W = {1}" by (auto simp: card_1_singleton_iff)
  with W(1,4) call assms(2,3) show ?thesis
    by (auto simp: tstep_def goto_def fun_eq_iff)
qed

theorem private_mapped_wakes_witness:
  "\<exists>s'. tstep fifo_kernel private_mapped 0 \<lparr>mem = (\<lambda>_. 2),
       thr = (\<lambda>_. Unborn)(0 := Running (Pm_wake 0), 1 := Blocked Thr_wait),
       ks = \<lparr>queue = [(1, Pm_val)], budget = 0\<rparr>\<rparr> = Some s' \<and>
     thr s' 0 = Running (Pm_join 0) \<and> kwaiting fifo_kernel (ks s') = Map.empty"
  by (rule private_mapped_wakes)
    (simp_all add: fifo_contract [unfolded futex_contract_def])

text \<open>A waiter that times out does not fail the test: there are runs in which its wait ended with
  \<^verbatim>\<open>ETIMEDOUT\<close> and \<^verbatim>\<open>main\<close> returns \<^verbatim>\<open>RET_PASS\<close>.\<close>

theorem private_mapped_timeout_passes:
  "\<exists>s. test_reach script_kernel {Pm_val} private_mapped Create_waiter pm_memory s \<and>
     thr s 0 = Running (Pm_done RET_PASS) \<and>
     answers 1 (klog s) = [Called 1 pm_wait_call (- 1) ETIMEDOUT]"
proof -
  let ?s = "the (scripted private_mapped Create_waiter pm_memory [(- 1, ETIMEDOUT), (1, 0)] [0, 1, 1, 0, 0, 0, 0])"
  have "test_reach script_kernel {Pm_val} private_mapped Create_waiter pm_memory ?s"
    by (rule scripted_reach) code_simp
  moreover have "thr ?s 0 = Running (Pm_done RET_PASS)"
    "answers 1 (klog ?s) = [Called 1 pm_wait_call (- 1) ETIMEDOUT]" by code_simp+
  ultimately show ?thesis by blast
qed






end
