(* ===== verification/Private_Told.thy ===== *)
theory Private_Told
  imports Complaints Private_Mapped
begin

text \<open>
  What \<^verbatim>\<open>functional/futex_wait_private_mapped_file.c\<close> prints to \<^verbatim>\<open>stderr\<close> (\<open>private_mapped_says\<close>) and how
  it agrees with the result: nothing is printed exactly if the test passes and the wait did not
  time out.
\<close>

section \<open>Its messages\<close>

definition thr_futex_wait_says :: "int \<Rightarrow> int \<Rightarrow> complaint list" where
  "thr_futex_wait_says ret errno =
     (if ret \<noteq> 0 \<and> errno \<noteq> EWOULDBLOCK \<and> errno \<noteq> ETIMEDOUT
      then [Error_line (''futex error.'' @ newline) errno]
      else if ret \<noteq> 0 \<and> errno = ETIMEDOUT then [Fail_line (''waiter timedout'' @ newline)]
      else [])"

fun private_mapped_says :: "pm_pc voice" where
  "private_mapped_says Create_waiter r =
     (if resp_ret r < 0 then [Plain_line (''pthread_create error'' @ newline)] else [])"
| "private_mapped_says (Pm_wake ret) r =
     (if resp_ret r \<noteq> 1 then [Fail_line (''FUTEX_WAKE didn't find the waiting thread.'' @ newline)] else [])"
| "private_mapped_says Thr_wait r = thr_futex_wait_says (resp_ret r) (resp_errno r)"
| "private_mapped_says _ r = []"

definition timed_out :: "pm_loc event list \<Rightarrow> bool" where
  "timed_out evs \<longleftrightarrow> (\<exists>r. evs = [Called 1 pm_wait_call r ETIMEDOUT] \<and> r \<noteq> 0)"

text \<open>\<open>b\<close>: whether the thread has said something.\<close>

fun pm_main_told :: "bool \<Rightarrow> pm_pc tstatus \<Rightarrow> bool" where
  "pm_main_told b (Running (Pm_join ret)) \<longleftrightarrow> (b \<longleftrightarrow> ret < 0)"
| "pm_main_told b (Running (Pm_done ret)) \<longleftrightarrow> (b \<longleftrightarrow> ret < 0)"
| "pm_main_told b (Running l) \<longleftrightarrow> \<not> b"
| "pm_main_told b (Blocked l) \<longleftrightarrow> \<not> b"
| "pm_main_told b _ \<longleftrightarrow> True"

fun pm_child_told :: "bool \<Rightarrow> pm_loc event list \<Rightarrow> pm_pc tstatus \<Rightarrow> bool" where
  "pm_child_told b evs (Running Thr_return) \<longleftrightarrow> (b \<longleftrightarrow> timed_out evs)"
| "pm_child_told b evs Exited \<longleftrightarrow> (b \<longleftrightarrow> timed_out evs)"
| "pm_child_told b evs (Running (Thr_exit status)) \<longleftrightarrow> b"
| "pm_child_told b evs st \<longleftrightarrow> \<not> b"

definition pm_told :: "(pm_loc, pm_pc) lstate \<Rightarrow> (tid \<times> complaint) list \<Rightarrow> bool" where
  "pm_told s out \<longleftrightarrow> lthr s 0 = Exited \<or>
     (pm_main_told (said out 0) (lthr s 0) \<and>
      pm_child_told (said out 1) (answers 1 (llog s)) (lthr s 1) \<and> (\<forall>t>1. \<not> said out t))"

lemma pm_told_kept:
  assumes inv: "pm_inv s" and out: "pm_told s out" and step: "lmove private_mapped {Pm_val} t ro s s'"
  shows "pm_told s' (out @ utter private_mapped_says t (lthr s t) ro)"
proof (cases "lthr s 0 = Exited")
  case True
  from exited_stays [OF lmove_lstep [OF step] True] show ?thesis by (simp add: pm_told_def)
next
  case False
  then have two: "lthr s t = Running l \<or> lthr s t = Blocked l \<Longrightarrow> t = 0 \<or> t = 1" for l
    using inv two_threads [of s t l] by (auto simp: pm_inv_def)
  from step show ?thesis
  proof cases
    case (m_mem l r m)
    with two [of l] inv out False show ?thesis by (cases l) (auto simp: pm_told_def pm_inv_def)
  next
    case (m_call l c m r e)
    with two [of l] inv out False show ?thesis
      by (cases l) (auto simp: pm_told_def pm_inv_def thr_futex_wait_says_def thr_futex_wait_cont_def
          timed_out_def created_def ret_defs errno_defs)
  next
    case (m_block l c m)
    with two [of l] inv out False show ?thesis by (cases l) (auto simp: pm_told_def pm_inv_def)
  next
    case (m_create l j l0)
    with two [of l] inv out False show ?thesis by (cases l) (auto simp: pm_told_def pm_inv_def)
  next
    case (m_create_fail l j l0 r)
    with two [of l] inv out False show ?thesis
      by (cases l) (auto simp: pm_told_def pm_inv_def ret_defs)
  next
    case (m_join l j)
    with two [of l] inv out False show ?thesis by (cases l) (auto simp: pm_told_def pm_inv_def)
  next
    case (m_kill l j)
    then show ?thesis by (cases l) (auto split: if_splits)
  next
    case (m_exit l)
    with two [of l] inv out False show ?thesis by (cases l) (auto simp: pm_told_def pm_inv_def)
  next
    case (m_halt l)
    then show ?thesis by (simp add: pm_told_def)
  qed
qed

interpretation pm_out: telling_program private_mapped "{Pm_val}" Create_waiter pm_memory pm_inv
  private_mapped_says pm_told
  by unfold_locales (simp add: pm_told_def linit_def start_threads_def, rule pm_told_kept)

section \<open>Properties\<close>

text \<open>The messages of \<^verbatim>\<open>futex_wait_private_mapped_file\<close> and its result.  On any kernel, at any verbosity
  from \<^verbatim>\<open>VCRITICAL\<close> on, \<^verbatim>\<open>stderr\<close> stays empty exactly if \<^verbatim>\<open>main\<close> returns \<^verbatim>\<open>RET_PASS\<close> and the wait did not
  time out: every failure is explained, and the timeout that does not fail the test is at least
  shown.\<close>

theorem private_mapped_explained:
  assumes "told K {Pm_val} private_mapped private_mapped_says Create_waiter pm_memory s out"
    "thr s 0 = Running (Pm_done ret)" "VCRITICAL \<le> verbose st"
  shows "stderr_lines strerror st out = [] \<longleftrightarrow> ret = RET_PASS \<and> \<not> timed_out (answers 1 (klog s))"
proof -
  from pm.test_reach_tinv [OF told_test [OF assms(1)]] assms(2)
  have inv: "ret \<le> 0" "thr s 1 = Unborn \<and> ret < 0 \<or> thr s 1 = Exited"
    by (auto simp: pm_inv_def ret_defs)
  from pm_out.told_oinv [OF assms(1)] assms(2)
  have told: "said out 0 \<longleftrightarrow> ret < 0" "pm_child_told (said out 1) (answers 1 (klog s)) (thr s 1)"
    "\<forall>t>1. \<not> said out t" by (auto simp: pm_told_def)
  have "out \<noteq> [] \<longleftrightarrow> said out 0 \<or> said out 1"
    using told(3) unfolding nobody_said by (metis less_one linorder_neqE_nat)
  with inv told(1,2) stderr_silent [OF assms(3), of strerror out] show ?thesis
    by (auto simp: RET_PASS_def)
qed

definition pm_late where
  "pm_late = tell_script private_mapped private_mapped_says Create_waiter pm_memory
     [(- 1, ETIMEDOUT), (1, 0)] [0, 1, 1, 0, 0, 0, 0]"

lemma pm_late_told: "told script_kernel {Pm_val} private_mapped private_mapped_says Create_waiter pm_memory
    (fst pm_late) (snd pm_late)"
  unfolding pm_late_def by (rule tell_script_told) code_simp

lemma pm_late_facts: "thr (fst pm_late) 0 = Running (Pm_done RET_PASS)" "VCRITICAL \<le> verbose log_init"
  "answers 1 (klog (fst pm_late)) = [Called 1 pm_wait_call (- 1) ETIMEDOUT]"
  by code_simp+

theorem private_mapped_explained_witness:
  "thr (fst pm_late) 0 = Running (Pm_done RET_PASS) \<and> stderr_lines (\<lambda>_. []) log_init (snd pm_late) \<noteq> []"
  using private_mapped_explained [OF pm_late_told pm_late_facts(1,2)] pm_late_facts
  by (simp add: timed_out_def)

end
