(* ===== verification/Rt_Threads.thy ===== *)
theory Rt_Threads
  imports Complaints
begin

text \<open>
  \<^verbatim>\<open>create_rt_thread\<close>, which \<^verbatim>\<open>futex_requeue_pi.c\<close> and \<^verbatim>\<open>futex_requeue_pi_signal_restart.c\<close> have in
  the same form: three attribute calls of libpthread, then \<^verbatim>\<open>pthread_create\<close>; the first that fails
  gives the message and the result -1.

  What the attribute calls return for the policy and priority of the suite is the parameter
  \<open>rt_attr\<close>; \<^verbatim>\<open>pthread_create\<close> is the \<open>Create\<close> instruction of the machine, made only if they
  succeed.
\<close>

record rt_attr =
  setinheritsched :: int
  setschedpolicy :: int
  setschedparam :: int

text \<open>The value returned and the message with its error number.\<close>

definition create_rt_thread :: "rt_attr \<Rightarrow> int \<Rightarrow> int \<times> (string \<times> int) option" where
  "create_rt_thread a created =
     (if setinheritsched a \<noteq> 0 then (- 1, Some (''pthread_attr_setinheritsched'', setinheritsched a))
      else if setschedpolicy a \<noteq> 0 then (- 1, Some (''pthread_attr_setschedpolicy'', setschedpolicy a))
      else if setschedparam a \<noteq> 0 then (- 1, Some (''pthread_attr_setschedparam'', setschedparam a))
      else if created \<noteq> 0 then (- 1, Some (''pthread_create'', created))
      else (0, None))"

definition attr_ok :: "rt_attr \<Rightarrow> bool" where
  "attr_ok a \<longleftrightarrow> setinheritsched a = 0 \<and> setschedpolicy a = 0 \<and> setschedparam a = 0"

text \<open>The call as a step of the caller; its result is \<open>rt_result\<close>.\<close>

definition rt_create :: "rt_attr \<Rightarrow> tid \<Rightarrow> 'l \<Rightarrow> ('a, 'l) instr" where
  "rt_create a j l0 = (if attr_ok a then Create j l0 else Nop)"

definition rt_result :: "rt_attr \<Rightarrow> resp \<Rightarrow> int" where
  "rt_result a r = fst (create_rt_thread a (resp_ret r))"

definition rt_granted :: rt_attr where
  "rt_granted = \<lparr>setinheritsched = 0, setschedpolicy = 0, setschedparam = 0\<rparr>"

lemma attr_ok_granted [simp]: "attr_ok rt_granted"
  by (simp add: attr_ok_def rt_granted_def)

lemma rt_create_simps [simp]:
  "attr_ok a \<Longrightarrow> rt_create a j l0 = Create j l0" "\<not> attr_ok a \<Longrightarrow> rt_create a j l0 = Nop"
  "rt_create a j l0 \<noteq> Exit" "rt_create a j l0 \<noteq> Halt" "rt_create a j l0 \<noteq> Syscall c"
  "rt_create a j l0 \<noteq> Kill i" "Kill i \<noteq> rt_create a j l0" "rt_create a j l0 \<noteq> Join i" "Exit \<noteq> rt_create a j l0" "Halt \<noteq> rt_create a j l0"
  "Syscall c \<noteq> rt_create a j l0" "Join i \<noteq> rt_create a j l0"
  by (simp_all add: rt_create_def)

lemma rt_create_Create [simp]: "rt_create a j l0 = Create i l1 \<longleftrightarrow> attr_ok a \<and> i = j \<and> l1 = l0"
  by (auto simp: rt_create_def)

lemma exec_rt_create [simp]:
  "exec_mem (rt_create a j l0) m = (if attr_ok a then None else Some (Val 0, m))"
  by (simp add: rt_create_def)

lemma rt_result_simps [simp]:
  "\<not> attr_ok a \<Longrightarrow> rt_result a r = - 1"
  "attr_ok a \<Longrightarrow> rt_result a (Ret n e) = (if n = 0 then 0 else - 1)"
  by (auto simp: rt_result_def create_rt_thread_def attr_ok_def)

text \<open>The message of \<^verbatim>\<open>create_rt_thread\<close>; the caller prints its own after it.\<close>

definition rt_says :: "rt_attr \<Rightarrow> resp \<Rightarrow> complaint list" where
  "rt_says a r =
     (case snd (create_rt_thread a (resp_ret r)) of
        None \<Rightarrow> []
      | Some (message, err) \<Rightarrow> [Error_line (message @ newline) err])"

lemma rt_says_silent: "rt_says a r = [] \<longleftrightarrow> rt_result a r = 0"
  by (simp add: rt_says_def rt_result_def create_rt_thread_def)

text \<open>The result is 0 exactly if the thread was started, -1 otherwise, and then the message
  names the first call that failed.\<close>

lemma create_rt_thread_result:
  "(fst (create_rt_thread a created) = 0 \<longleftrightarrow> attr_ok a \<and> created = 0) \<and>
   fst (create_rt_thread a created) \<in> {0, - 1} \<and>
   (case snd (create_rt_thread a created) of
      None \<Rightarrow> fst (create_rt_thread a created) = 0
    | Some (message, err) \<Rightarrow> fst (create_rt_thread a created) = - 1 \<and> err \<noteq> 0)"
  by (simp add: create_rt_thread_def attr_ok_def)

end
