(* ===== verification/Signal_Restart.thy ===== *)
theory Signal_Restart
  imports Rt_Threads
begin

text \<open>
  \<^verbatim>\<open>functional/futex_requeue_pi_signal_restart.c\<close>: the main thread signals a waiter (thread 1) and
  requeues it until the requeue succeeds, signals it once more, and expects the wait of the waiter
  to end with \<^verbatim>\<open>EWOULDBLOCK\<close>.

  \<^verbatim>\<open>pthread_kill\<close> tells the kernel of the signal; the handler \<^verbatim>\<open>handle_signal\<close> only prints, and what the
  signal does to a blocked call is the kernel's and is seen in the answer to that call.  \<^verbatim>\<open>usleep\<close> is a
  step without effect.  \<open>resp_errno\<close> is \<^verbatim>\<open>errno\<close> after the call, which the waiter reads whatever
  the call returned.  The messages are in theory \<open>Signal_Told\<close>.
\<close>

datatype sr_loc = F1 | F2 | Requeued | Waiter_ret

abbreviation sr_memory :: "sr_loc memory" where
  "sr_memory \<equiv> (\<lambda>_. 0)"

section \<open>The program\<close>

datatype sr_pc =
    Sr_create | Sr_lock | Sr_kill | Sr_usleep | Sr_read | Sr_requeue u32 | Sr_set
  | Sr_kill_again int | Sr_join int | Sr_unlock int | Sr_out int | Sr_ret | Sr_done int
  | W_start | W_read | W_wait u32 | W_check int int | W_unlock | W_fail | W_exit

definition sr_lock_call :: "sr_loc futex_call" where
  "sr_lock_call = futex_lock_pi F2 None 0 FUTEX_PRIVATE_FLAG"

definition sr_unlock_call :: "sr_loc futex_call" where
  "sr_unlock_call = futex_unlock_pi F2 FUTEX_PRIVATE_FLAG"

definition sr_requeue_call :: "u32 \<Rightarrow> sr_loc futex_call" where
  "sr_requeue_call old_val = futex_cmp_requeue_pi F1 old_val F2 1 0 FUTEX_PRIVATE_FLAG"

definition sr_wait_call :: "u32 \<Rightarrow> sr_loc futex_call" where
  "sr_wait_call old_val = futex_wait_requeue_pi F1 old_val F2 None FUTEX_PRIVATE_FLAG"

fun signal_restart_fetch :: "rt_attr \<Rightarrow> sr_pc \<Rightarrow> (sr_loc, sr_pc) instr" where
  "signal_restart_fetch a Sr_create = rt_create a 1 W_start"
| "signal_restart_fetch a Sr_lock = Syscall sr_lock_call"
| "signal_restart_fetch a Sr_kill = Kill 1"
| "signal_restart_fetch a Sr_usleep = Nop"
| "signal_restart_fetch a Sr_read = Load F1"
| "signal_restart_fetch a (Sr_requeue old_val) = Syscall (sr_requeue_call old_val)"
| "signal_restart_fetch a Sr_set = Store Requeued 1"
| "signal_restart_fetch a (Sr_kill_again ret) = Kill 1"
| "signal_restart_fetch a (Sr_join ret) = Join 1"
| "signal_restart_fetch a (Sr_unlock ret) = Syscall sr_unlock_call"
| "signal_restart_fetch a (Sr_out ret) = (if ret = RET_PASS then Load Waiter_ret else Nop)"
| "signal_restart_fetch a Sr_ret = Load Waiter_ret"
| "signal_restart_fetch a (Sr_done ret) = Halt"
| "signal_restart_fetch a W_start = Store Waiter_ret (u32_of_int RET_PASS)"
| "signal_restart_fetch a W_read = Load F1"
| "signal_restart_fetch a (W_wait old_val) = Syscall (sr_wait_call old_val)"
| "signal_restart_fetch a (W_check res errno) = Load Requeued"
| "signal_restart_fetch a W_unlock = Syscall sr_unlock_call"
| "signal_restart_fetch a W_fail = Store Waiter_ret (u32_of_int RET_FAIL)"
| "signal_restart_fetch a W_exit = Exit"

text \<open>What the handler of the signal prints, from the value of \<^verbatim>\<open>requeued\<close> when it runs.\<close>

definition handle_signal :: "log_state \<Rightarrow> u32 \<Rightarrow> string list" where
  "handle_signal st w =
     info_msg st (''signal received '' @ (if w \<noteq> 0 then ''after'' else ''prior to'') @ '' requeue'' @ newline)"

text \<open>The end of the loop body, and the check of the waiter.\<close>

definition sr_after_requeue :: "int \<Rightarrow> sr_pc" where
  "sr_after_requeue res =
     (if res > 0 then Sr_set
      else if res > 0 then Sr_kill_again RET_ERROR
      else Sr_kill)"

definition waiter_check :: "u32 \<Rightarrow> int \<Rightarrow> int \<Rightarrow> sr_pc" where
  "waiter_check requeued res errno =
     (if requeued = 0 \<or> errno \<noteq> EWOULDBLOCK then (if res = 0 then W_unlock else W_fail) else W_exit)"

fun signal_restart_cont :: "rt_attr \<Rightarrow> sr_pc \<Rightarrow> resp \<Rightarrow> sr_pc" where
  "signal_restart_cont a Sr_create r = (if rt_result a r \<noteq> 0 then Sr_out RET_ERROR else Sr_lock)"
| "signal_restart_cont a Sr_lock r = Sr_kill"
| "signal_restart_cont a Sr_kill r = Sr_usleep"
| "signal_restart_cont a Sr_usleep r = Sr_read"
| "signal_restart_cont a Sr_read r = Sr_requeue (resp_val r)"
| "signal_restart_cont a (Sr_requeue old_val) r = sr_after_requeue (resp_ret r)"
| "signal_restart_cont a Sr_set r = Sr_kill_again RET_PASS"
| "signal_restart_cont a (Sr_kill_again ret) r = Sr_join ret"
| "signal_restart_cont a (Sr_join ret) r = Sr_unlock ret"
| "signal_restart_cont a (Sr_unlock ret) r = Sr_out ret"
| "signal_restart_cont a (Sr_out ret) r = (if ret = RET_PASS \<and> resp_val r \<noteq> 0 then Sr_ret else Sr_done ret)"
| "signal_restart_cont a Sr_ret r = Sr_done (int_of_u32 (resp_val r))"
| "signal_restart_cont a (Sr_done ret) r = Sr_done ret"
| "signal_restart_cont a W_start r = W_read"
| "signal_restart_cont a W_read r = W_wait (resp_val r)"
| "signal_restart_cont a (W_wait old_val) r = W_check (resp_ret r) (resp_errno r)"
| "signal_restart_cont a (W_check res errno) r = waiter_check (resp_val r) res errno"
| "signal_restart_cont a W_unlock r = W_fail"
| "signal_restart_cont a W_fail r = W_exit"
| "signal_restart_cont a W_exit r = W_exit"

definition signal_restart :: "rt_attr \<Rightarrow> (sr_loc, sr_pc) program" where
  "signal_restart a = \<lparr>fetch = signal_restart_fetch a, cont = signal_restart_cont a\<rparr>"

definition signal_restart_usage :: "string \<Rightarrow> string" where
  "signal_restart_usage prog = usage_prog prog @ usage_color @ usage_help @ usage_verbosity"

text \<open>\<^verbatim>\<open>main\<close> leaves with status 1 if \<^verbatim>\<open>sigaction\<close> fails, after its first two lines; \<open>armed\<close> is
  whether it succeeded.\<close>

definition signal_restart_main ::
    "rt_attr \<Rightarrow> bool \<Rightarrow> string list \<Rightarrow> leave + (string \<times> (sr_loc, sr_pc) program \<times> (int \<Rightarrow> string))" where
  "signal_restart_main a armed argv =
     (case test_main signal_restart_usage ''Test signal handling during requeue_pi'' (signal_restart a) argv of
        Inl x \<Rightarrow> Inl x
      | Inr (banner, P, out) \<Rightarrow>
          (let lines = banner @ tab @ ''Arguments: <none>'' @ newline
           in if armed then Inr (lines, P, out) else Inl (1, lines)))"

lemma signal_restart_simps [simp]:
  "fetch (signal_restart a) = signal_restart_fetch a" "cont (signal_restart a) = signal_restart_cont a"
  by (simp_all add: signal_restart_def)

section \<open>Verdict and answers\<close>

text \<open>What \<^verbatim>\<open>main\<close> did, its calls and its signals, in its loop (each round a signal to the waiter and a
  requeue call that did not succeed), after the loop, and at the end.\<close>

fun main_event :: "sr_loc event \<Rightarrow> bool" where
  "main_event (Called t c r e) \<longleftrightarrow> t = 0"
| "main_event (Created j r) \<longleftrightarrow> False"
| "main_event (Signalled j) \<longleftrightarrow> True"

definition main_events :: "sr_loc event list \<Rightarrow> sr_loc event list" where
  "main_events log = filter main_event log"

fun rounds :: "sr_loc event list \<Rightarrow> bool" where
  "rounds [] \<longleftrightarrow> True"
| "rounds (Signalled j # Called t c r e # evs) \<longleftrightarrow>
     j = 1 \<and> (\<exists>v. c = sr_requeue_call v) \<and> r \<le> 0 \<and> rounds evs"
| "rounds _ \<longleftrightarrow> False"

definition looping :: "sr_loc event list \<Rightarrow> bool" where
  "looping evs \<longleftrightarrow> (\<exists>r e qs. evs = Called 0 sr_lock_call r e # qs \<and> rounds qs)"

definition signalled :: "(sr_loc event list \<Rightarrow> bool) \<Rightarrow> sr_loc event list \<Rightarrow> bool" where
  "signalled before evs \<longleftrightarrow> (\<exists>pre. evs = pre @ [Signalled 1] \<and> before pre)"

definition requeued_once :: "sr_loc event list \<Rightarrow> bool" where
  "requeued_once evs \<longleftrightarrow>
     (\<exists>pre v r e. evs = pre @ [Called 0 (sr_requeue_call v) r e] \<and> signalled looping pre \<and> 0 < r)"

definition completed :: "sr_loc event list \<Rightarrow> bool" where
  "completed evs \<longleftrightarrow>
     (\<exists>pre r e. evs = pre @ [Called 0 sr_unlock_call r e] \<and> signalled requeued_once pre)"

text \<open>The first answer the waiter got.\<close>

definition waiter_answer :: "sr_loc event list \<Rightarrow> int \<Rightarrow> int \<Rightarrow> bool" where
  "waiter_answer log r e \<longleftrightarrow> (\<exists>v qs. answers 1 log = Called 1 (sr_wait_call v) r e # qs)"

definition not_created :: "sr_loc event list \<Rightarrow> bool" where
  "not_created log \<longleftrightarrow> main_events log = [] \<and> Created 1 0 \<notin> set log"

text \<open>What the waiter reports, from its answer: a pass needs \<^verbatim>\<open>EWOULDBLOCK\<close>.\<close>

definition waiter_report :: "sr_loc event list \<Rightarrow> int \<Rightarrow> bool" where
  "waiter_report log w \<longleftrightarrow>
     (\<exists>r e. waiter_answer log r e \<and> ((w = RET_PASS \<and> e = EWOULDBLOCK) \<or> w = RET_FAIL))"

fun sr_main_ok :: "sr_loc event list \<Rightarrow> sr_pc tstatus \<Rightarrow> sr_pc tstatus \<Rightarrow> bool" where
  "sr_main_ok log child (Running Sr_create) = (not_created log \<and> child = Unborn)"
| "sr_main_ok log child (Running Sr_lock) = (main_events log = [] \<and> child \<noteq> Unborn)"
| "sr_main_ok log child (Blocked Sr_lock) = (main_events log = [] \<and> child \<noteq> Unborn)"
| "sr_main_ok log child (Running Sr_kill) = (looping (main_events log) \<and> child \<noteq> Unborn)"
| "sr_main_ok log child (Running Sr_usleep) = (signalled looping (main_events log) \<and> child \<noteq> Unborn)"
| "sr_main_ok log child (Running Sr_read) = (signalled looping (main_events log) \<and> child \<noteq> Unborn)"
| "sr_main_ok log child (Running (Sr_requeue v)) = (signalled looping (main_events log) \<and> child \<noteq> Unborn)"
| "sr_main_ok log child (Blocked (Sr_requeue v)) = (signalled looping (main_events log) \<and> child \<noteq> Unborn)"
| "sr_main_ok log child (Running Sr_set) = (requeued_once (main_events log) \<and> child \<noteq> Unborn)"
| "sr_main_ok log child (Running (Sr_kill_again ret)) =
     (requeued_once (main_events log) \<and> child \<noteq> Unborn \<and> ret = RET_PASS)"
| "sr_main_ok log child (Running (Sr_join ret)) =
     (signalled requeued_once (main_events log) \<and> child \<noteq> Unborn \<and> ret = RET_PASS)"
| "sr_main_ok log child (Running (Sr_unlock ret)) =
     (signalled requeued_once (main_events log) \<and> child = Exited \<and> ret = RET_PASS)"
| "sr_main_ok log child (Blocked (Sr_unlock ret)) =
     (signalled requeued_once (main_events log) \<and> child = Exited \<and> ret = RET_PASS)"
| "sr_main_ok log child (Running (Sr_out ret)) =
     ((not_created log \<and> child = Unborn \<and> ret = RET_ERROR) \<or>
      (completed (main_events log) \<and> child = Exited \<and> ret = RET_PASS))"
| "sr_main_ok log child (Running Sr_ret) = (completed (main_events log) \<and> child = Exited)"
| "sr_main_ok log child (Running (Sr_done ret)) =
     ((not_created log \<and> child = Unborn \<and> ret = RET_ERROR) \<or>
      (completed (main_events log) \<and> child = Exited \<and> waiter_report log ret))"
| "sr_main_ok log child _ = False"

fun sr_child_ok :: "sr_loc event list \<Rightarrow> u32 \<Rightarrow> sr_pc tstatus \<Rightarrow> bool" where
  "sr_child_ok log w Unborn = (answers 1 log = [])"
| "sr_child_ok log w (Running W_start) = (answers 1 log = [])"
| "sr_child_ok log w (Running W_read) = (answers 1 log = [] \<and> int_of_u32 w = RET_PASS)"
| "sr_child_ok log w (Running (W_wait v)) = (answers 1 log = [] \<and> int_of_u32 w = RET_PASS)"
| "sr_child_ok log w (Blocked (W_wait v)) = (answers 1 log = [] \<and> int_of_u32 w = RET_PASS)"
| "sr_child_ok log w (Running (W_check r e)) = (waiter_answer log r e \<and> int_of_u32 w = RET_PASS)"
| "sr_child_ok log w (Running W_unlock) = (\<exists>r e. waiter_answer log r e)"
| "sr_child_ok log w (Blocked W_unlock) = (\<exists>r e. waiter_answer log r e)"
| "sr_child_ok log w (Running W_fail) = (\<exists>r e. waiter_answer log r e)"
| "sr_child_ok log w (Running W_exit) = waiter_report log (int_of_u32 w)"
| "sr_child_ok log w Exited = waiter_report log (int_of_u32 w)"
| "sr_child_ok log w _ = False"

definition sr_inv :: "(sr_loc, sr_pc) lstate \<Rightarrow> bool" where
  "sr_inv s \<longleftrightarrow>
     (if lthr s 0 = Exited
      then (\<forall>t. lthr s t = Exited) \<and> (not_created (llog s) \<or> completed (main_events (llog s)))
      else sr_main_ok (llog s) (lthr s 1) (lthr s 0) \<and>
        sr_child_ok (llog s) (lmem s Waiter_ret) (lthr s 1) \<and> (\<forall>t>1. lthr s t = Unborn))"

section \<open>The invariant is kept\<close>

lemma sr_call_inject [simp]: "sr_requeue_call v = sr_requeue_call v' \<longleftrightarrow> v = v'"
  "sr_wait_call v = sr_wait_call v' \<longleftrightarrow> v = v'"
  by (auto simp: sr_requeue_call_def sr_wait_call_def wrapper_defs futex_def)

lemma main_events_simps [simp]:
  "main_events [] = []" "main_events (log @ evs) = main_events log @ main_events evs"
  "main_events [Called t c r e] = (if t = 0 then [Called t c r e] else [])"
  "main_events [Created j r] = []" "main_events [Signalled j] = [Signalled j]"
  by (simp_all add: main_events_def)

lemma rounds_more: "rounds evs \<Longrightarrow> r \<le> 0 \<Longrightarrow>
    rounds (evs @ [Signalled 1, Called 0 (sr_requeue_call v) r e])"
  by (induction evs rule: rounds.induct) auto

lemma looping_start: "looping [Called 0 sr_lock_call r e]"
  by (simp add: looping_def)

lemma looping_more: "signalled looping evs \<Longrightarrow> r \<le> 0 \<Longrightarrow>
    looping (evs @ [Called 0 (sr_requeue_call v) r e])"
  by (auto simp: looping_def signalled_def simp del: One_nat_def intro: rounds_more)

lemma signalledI: "before evs \<Longrightarrow> signalled before (evs @ [Signalled 1])"
  by (simp add: signalled_def)

lemma requeued_onceI: "signalled looping evs \<Longrightarrow> 0 < r \<Longrightarrow>
    requeued_once (evs @ [Called 0 (sr_requeue_call v) r e])"
  by (auto simp: requeued_once_def)

lemma completedI: "signalled requeued_once evs \<Longrightarrow> completed (evs @ [Called 0 sr_unlock_call r e])"
  by (auto simp: completed_def)

lemmas calls_intros = looping_start looping_more signalledI requeued_onceI completedI

lemma waiter_answer_first: "answers 1 log = [] \<Longrightarrow> waiter_answer (log @ [Called 1 (sr_wait_call v) r e]) r e"
  by (simp add: waiter_answer_def)

lemma waiter_answer_more: "waiter_answer log r e \<Longrightarrow> waiter_answer (log @ [Called t c r' e']) r e"
  by (auto simp: waiter_answer_def)

lemma waiter_answer_signal [simp]: "waiter_answer (log @ [Signalled j]) r e \<longleftrightarrow> waiter_answer log r e"
  by (simp add: waiter_answer_def)

lemma waiter_answer_not_empty: "waiter_answer log r e \<Longrightarrow> answers 1 log \<noteq> []"
  by (auto simp: waiter_answer_def)

lemma sr_main_cong: "sr_main_ok log child st \<Longrightarrow> main_events log' = main_events log \<Longrightarrow>
    Created 1 0 \<in> set log' \<longleftrightarrow> Created 1 0 \<in> set log \<Longrightarrow> (child = Unborn \<longleftrightarrow> child' = Unborn) \<Longrightarrow>
    child \<noteq> Exited \<Longrightarrow> sr_main_ok log' child' st"
  by (cases "(log, child, st)" rule: sr_main_ok.cases) (auto simp: not_created_def)

lemma sr_child_signal: "sr_child_ok log w st \<Longrightarrow> sr_child_ok (log @ [Signalled j]) w st"
  by (cases "(log, w, st)" rule: sr_child_ok.cases)
    (auto simp: waiter_report_def intro: waiter_answer_signal [THEN iffD2])

lemma sr_child_more: "sr_child_ok log w st \<Longrightarrow> sr_child_ok (log @ [Called 0 c r e]) w st"
  by (cases "(log, w, st)" rule: sr_child_ok.cases)
    (auto simp: waiter_report_def intro: waiter_answer_more)

lemma waiter_report_intros:
  "waiter_answer log r e \<Longrightarrow> waiter_report log RET_FAIL"
  "waiter_answer log r EWOULDBLOCK \<Longrightarrow> waiter_report log RET_PASS"
  by (auto simp: waiter_report_def)

lemma sint_ret [simp]: "sint (u32_of_int RET_PASS) = RET_PASS" "sint (u32_of_int RET_FAIL) = RET_FAIL"
  by (simp_all add: sint_u32_of_int ret_defs s32_id INT_MIN_def INT_MAX_def)

text \<open>What the steps of the two threads do to their parts of the invariant.\<close>

lemma sr_main_mem:
  assumes "sr_main_ok log child (Running l)" "exec_mem (signal_restart_fetch a l) m = Some (r, m')"
    "sr_child_ok log (m Waiter_ret) child"
  shows "sr_main_ok log child (Running (signal_restart_cont a l r))" "m' Waiter_ret = m Waiter_ret"
  using assms by (cases l; auto simp: ret_defs split: if_splits)+

lemma sr_main_call:
  assumes "sr_main_ok log child (Running l) \<or> sr_main_ok log child (Blocked l)"
    "signal_restart_fetch a l = Syscall c"
  shows "sr_main_ok (log @ [Called 0 c r e]) child (Running (signal_restart_cont a l (Ret r e)))"
  using assms by (cases l) (auto simp: sr_after_requeue_def split: if_splits intro: calls_intros)

lemma sr_main_kill:
  assumes "sr_main_ok log child (Running l)" "signal_restart_fetch a l = Kill j"
  shows "j = 1 \<and> sr_main_ok (log @ [Signalled j]) child (Running (signal_restart_cont a l r))"
  using assms by (cases l) (auto simp del: One_nat_def split: if_splits intro: calls_intros)

lemma sr_main_block:
  "sr_main_ok log child (Running l) \<Longrightarrow> signal_restart_fetch a l = Syscall c \<Longrightarrow> sr_main_ok log child (Blocked l)"
  by (cases l) (auto split: if_splits)

lemma sr_waiter_mem:
  assumes "sr_child_ok log (m Waiter_ret) (Running l)" "exec_mem (signal_restart_fetch a l) m = Some (r, m')"
  shows "sr_child_ok log (m' Waiter_ret) (Running (signal_restart_cont a l r))"
  using assms by (cases l) (auto simp: waiter_check_def intro: waiter_report_intros)

lemma sr_waiter_call:
  assumes "sr_child_ok log w (Running l) \<or> sr_child_ok log w (Blocked l)"
    "signal_restart_fetch a l = Syscall c"
  shows "sr_child_ok (log @ [Called 1 c r e]) w (Running (signal_restart_cont a l (Ret r e)))"
  using assms by (cases l) (auto simp del: One_nat_def intro: waiter_answer_first waiter_answer_more)

lemma sr_waiter_block:
  "sr_child_ok log w (Running l) \<Longrightarrow> signal_restart_fetch a l = Syscall c \<Longrightarrow> sr_child_ok log w (Blocked l)"
  by (cases l) auto

lemma sr_fetch_cases:
  "signal_restart_fetch a l = Create j l0 \<Longrightarrow> l = Sr_create \<and> j = 1 \<and> l0 = W_start \<and> attr_ok a"
  "signal_restart_fetch a l = Join j \<Longrightarrow> (\<exists>ret. l = Sr_join ret) \<and> j = 1"
  "signal_restart_fetch a l = Kill j \<Longrightarrow> l = Sr_kill \<or> (\<exists>ret. l = Sr_kill_again ret)"
  "signal_restart_fetch a l = Exit \<Longrightarrow> l = W_exit"
  "signal_restart_fetch a l = Halt \<Longrightarrow> \<exists>ret. l = Sr_done ret"
  by (cases l; auto split: if_splits)+

text \<open>The whole invariant, by the thread that moves.\<close>

definition sr_active :: "(sr_loc, sr_pc) lstate \<Rightarrow> bool" where
  "sr_active s \<longleftrightarrow> lthr s 0 \<noteq> Exited \<and> sr_main_ok (llog s) (lthr s 1) (lthr s 0) \<and>
     sr_child_ok (llog s) (lmem s Waiter_ret) (lthr s 1) \<and> (\<forall>t>1. lthr s t = Unborn)"

lemma sr_activeD:
  assumes "sr_inv s" "lthr s t = Running l \<or> lthr s t = Blocked l"
  shows "sr_active s" "t = 0 \<or> t = 1"
proof -
  have "lthr s 0 \<noteq> Exited"
  proof
    assume "lthr s 0 = Exited"
    with assms(1) have "lthr s t = Exited" unfolding sr_inv_def by simp
    with assms(2) show False by simp
  qed
  with assms(1) show *: "sr_active s" by (simp add: sr_inv_def sr_active_def)
  then have "\<forall>t>1. lthr s t = Unborn" by (simp add: sr_active_def)
  from two_threads [OF this assms(2)] show "t = 0 \<or> t = 1" .
qed

lemma sr_active_inv: "sr_active s \<Longrightarrow> sr_inv s"
  by (simp add: sr_active_def sr_inv_def)

lemma sr_main_step:
  assumes "sr_active s" "st \<noteq> Exited" "sr_main_ok log (lthr s 1) st" "m Waiter_ret = lmem s Waiter_ret"
    "log = llog s \<or> (\<exists>c r e. log = llog s @ [Called 0 c r e]) \<or> (\<exists>j. log = llog s @ [Signalled j])"
  shows "sr_inv (lgoto 0 st (s\<lparr>lmem := m, llog := log\<rparr>))"
  using assms by (intro sr_active_inv) (auto simp: sr_active_def intro: sr_child_more sr_child_signal)

lemma sr_waiter_step:
  assumes "sr_active s" "lthr s 1 = Running l \<or> lthr s 1 = Blocked l" "st \<noteq> Unborn"
    "log = llog s \<or> (\<exists>c r e. log = llog s @ [Called 1 c r e])" "sr_child_ok log (m Waiter_ret) st"
  shows "sr_inv (lgoto 1 st (s\<lparr>lmem := m, llog := log\<rparr>))"
proof -
  have "sr_main_ok (llog s) (lthr s 1) (lthr s 0)" using assms(1) by (simp add: sr_active_def)
  moreover have "main_events log = main_events (llog s)"
    "Created 1 0 \<in> set log \<longleftrightarrow> Created 1 0 \<in> set (llog s)" using assms(4) by auto
  moreover have "lthr s 1 = Unborn \<longleftrightarrow> st = Unborn" "lthr s 1 \<noteq> Exited" using assms(2,3) by auto
  ultimately have "sr_main_ok log st (lthr s 0)" by (rule sr_main_cong)
  with assms(1,5) show ?thesis by (intro sr_active_inv) (simp add: sr_active_def)
qed

lemma sr_step_call:
  assumes "sr_active s" "t = 0 \<or> t = 1" "lthr s t = Running l \<or> lthr s t = Blocked l"
    and x: "signal_restart_fetch a l = Syscall c" "m Waiter_ret = lmem s Waiter_ret"
  shows "sr_inv (lgoto t (Running (signal_restart_cont a l (Ret r e)))
    (s\<lparr>lmem := m, llog := llog s @ [Called t c r e]\<rparr>))"
proof (cases "t = 0")
  case True
  have "sr_main_ok (llog s) (lthr s 1) (lthr s 0)" using assms(1) by (simp add: sr_active_def)
  with True assms(3) have
    "sr_main_ok (llog s @ [Called 0 c r e]) (lthr s 1) (Running (signal_restart_cont a l (Ret r e)))"
    by (intro sr_main_call [OF _ x(1)]) auto
  with True x(2) show ?thesis by (simp add: sr_main_step [OF assms(1)])
next
  case False
  have "sr_child_ok (llog s) (lmem s Waiter_ret) (lthr s 1)" using assms(1) by (simp add: sr_active_def)
  with False assms(2,3) x have
    "sr_child_ok (llog s @ [Called 1 c r e]) (m Waiter_ret) (Running (signal_restart_cont a l (Ret r e)))"
    by (intro sr_waiter_call [OF _ x(1)]) auto
  with sr_waiter_step [OF assms(1), of l "Running (signal_restart_cont a l (Ret r e))" "llog s @ [Called 1 c r e]" m]
  show ?thesis using False assms(2,3) by auto
qed

lemma sr_step_mem:
  assumes act: "sr_active s" "t = 0 \<or> t = 1" and l: "lthr s t = Running l"
    and x: "exec_mem (signal_restart_fetch a l) (lmem s) = Some (r, m)"
  shows "sr_inv (lgoto t (Running (signal_restart_cont a l r)) (s\<lparr>lmem := m\<rparr>))"
proof (cases "t = 0")
  case True
  with act l x sr_main_mem [of "llog s" "lthr s 1" l a "lmem s" r m]
    sr_main_step [OF act(1), of "Running (signal_restart_cont a l r)" "llog s" m]
  show ?thesis by (simp add: sr_active_def)
next
  case False
  with act l x sr_waiter_mem [of "llog s" "lmem s" l a r m]
    sr_waiter_step [OF act(1), of l "Running (signal_restart_cont a l r)" "llog s" m]
  show ?thesis by (simp add: sr_active_def)
qed

lemma sr_step_block:
  assumes act: "sr_active s" "t = 0 \<or> t = 1" and l: "lthr s t = Running l"
    and x: "signal_restart_fetch a l = Syscall c" "m Waiter_ret = lmem s Waiter_ret"
  shows "sr_inv (lgoto t (Blocked l) (s\<lparr>lmem := m\<rparr>))"
proof (cases "t = 0")
  case True
  with act l x sr_main_block [of "llog s" "lthr s 1" l a c]
    sr_main_step [OF act(1), of "Blocked l" "llog s" m]
  show ?thesis by (simp add: sr_active_def)
next
  case False
  with act l x sr_waiter_block [of "llog s" "lmem s Waiter_ret" l a c]
    sr_waiter_step [OF act(1), of l "Blocked l" "llog s" m]
  show ?thesis by (simp add: sr_active_def)
qed

lemma sr_inv_kept:
  assumes inv: "sr_inv s" and step: "lstep (signal_restart a) {F1, F2} s s'"
  shows "sr_inv s'"
  using step
proof cases
  case (l_mem t l r m)
  with sr_step_mem [OF sr_activeD [OF inv disjI1 [OF l_mem(2)]] l_mem(2), of a r m] show ?thesis by simp
next
  case (l_call t l c m r e)
  with sr_step_call [OF sr_activeD [OF inv l_call(2)] l_call(2), of a c m r e] show ?thesis by simp
next
  case (l_block t l c m)
  with sr_step_block [OF sr_activeD [OF inv disjI1 [OF l_block(2)]] l_block(2), of a c m] show ?thesis by simp
next
  case (l_create t l j l0)
  note act = sr_activeD [OF inv disjI1 [OF l_create(2)]]
  from l_create(3) have "l = Sr_create" "j = 1" "l0 = W_start" "attr_ok a"
    by (auto dest: sr_fetch_cases)
  with act l_create show ?thesis by (intro sr_active_inv) (auto simp: sr_active_def not_created_def)
next
  case (l_create_fail t l j l0 r)
  note act = sr_activeD [OF inv disjI1 [OF l_create_fail(2)]]
  from l_create_fail(3) have "l = Sr_create" "j = 1" "l0 = W_start" "attr_ok a"
    by (auto dest: sr_fetch_cases)
  with act l_create_fail show ?thesis by (intro sr_active_inv) (auto simp: sr_active_def not_created_def)
next
  case (l_join t l j)
  note act = sr_activeD [OF inv disjI1 [OF l_join(2)]]
  from l_join(3) obtain ret where "l = Sr_join ret" "j = 1"
    by (auto dest: sr_fetch_cases)
  with act l_join show ?thesis by (intro sr_active_inv) (auto simp: sr_active_def)
next
  case (l_kill t l j)
  note act = sr_activeD [OF inv disjI1 [OF l_kill(2)]]
  from l_kill(3) act l_kill(2) have "t = 0" by (auto dest!: sr_fetch_cases simp: sr_active_def)
  moreover from this act(1) l_kill(2) have "sr_main_ok (llog s) (lthr s 1) (Running l)"
    by (simp add: sr_active_def)
  then have "sr_main_ok (llog s @ [Signalled j]) (lthr s 1) (Running (signal_restart_cont a l (Ret 0 0)))"
    by (rule sr_main_kill [THEN conjunct2]) (use l_kill(3) in simp)
  ultimately show ?thesis
    using sr_main_step [OF act(1), of "Running (signal_restart_cont a l (Ret 0 0))" "llog s @ [Signalled j]" "lmem s"]
      l_kill by simp
next
  case (l_exit t l)
  note act = sr_activeD [OF inv disjI1 [OF l_exit(2)]]
  from l_exit(3) have "l = W_exit" by (auto dest: sr_fetch_cases)
  moreover from this act l_exit(2) have "t = 1" by (auto simp: sr_active_def)
  ultimately show ?thesis
    using sr_waiter_step [OF act(1), of l Exited "llog s" "lmem s"] act(1) l_exit by (simp add: sr_active_def)
next
  case (l_halt t l)
  note act = sr_activeD [OF inv disjI1 [OF l_halt(2)]]
  from l_halt(3) obtain ret where "l = Sr_done ret" by (auto dest: sr_fetch_cases)
  with act l_halt show ?thesis by (auto simp: sr_active_def sr_inv_def)
qed

interpretation sr: test_program "signal_restart a" "{F1, F2}" Sr_create sr_memory sr_inv for a
  by unfold_locales (simp add: sr_inv_def linit_def start_threads_def not_created_def, rule sr_inv_kept)

section \<open>Properties\<close>

text \<open>C20: the verdict of \<^verbatim>\<open>futex_requeue_pi_signal_restart\<close>.  On any kernel that writes to the two futexes
  only, \<^verbatim>\<open>main\<close> returns \<^verbatim>\<open>RET_ERROR\<close> only if the waiter could not be created, before it made any call;
  otherwise it has signalled the waiter and repeated its requeue until one succeeded, exactly one did
  and one more signal followed it, and it returns \<^verbatim>\<open>RET_PASS\<close> only if the wait of the waiter ended with \<^verbatim>\<open>EWOULDBLOCK\<close>, and \<^verbatim>\<open>RET_FAIL\<close> otherwise.\<close>

theorem signal_restart_verdict:
  assumes "test_reach K {F1, F2} (signal_restart a) Sr_create sr_memory s" "thr s 0 = Running (Sr_done ret)"
  shows "(ret = RET_ERROR \<and> not_created (klog s)) \<or>
    (completed (main_events (klog s)) \<and>
     ((ret = RET_PASS \<and> (\<exists>r. waiter_answer (klog s) r EWOULDBLOCK)) \<or>
      (ret = RET_FAIL \<and> (\<exists>r e. waiter_answer (klog s) r e))))"
  using sr.test_reach_tinv [OF assms(1)] assms(2) by (auto simp: sr_inv_def waiter_report_def)

definition sr_pass_state where
  "sr_pass_state = the (scripted (signal_restart rt_granted) Sr_create sr_memory
     [(0, 0), (0, 0), (1, 0), (- 1, EWOULDBLOCK), (0, 0)]
     [0, 0, 1, 1, 0, 0, 0, 0, 0, 0, 0, 0, 0, 0, 1, 1, 1, 0, 0, 0])"

lemma sr_pass_reach:
  "test_reach script_kernel {F1, F2} (signal_restart rt_granted) Sr_create sr_memory sr_pass_state"
  unfolding sr_pass_state_def by (rule scripted_reach) code_simp

lemma sr_pass_facts: "thr sr_pass_state 0 = Running (Sr_done RET_PASS)"
  by code_simp

theorem signal_restart_verdict_witness:
  "completed (main_events (klog sr_pass_state)) \<and> (\<exists>r. waiter_answer (klog sr_pass_state) r EWOULDBLOCK)"
  using signal_restart_verdict [OF sr_pass_reach sr_pass_facts] by (simp add: ret_defs)

text \<open>The control points of the loop.\<close>

fun in_loop :: "sr_pc \<Rightarrow> bool" where
  "in_loop Sr_kill = True"
| "in_loop Sr_usleep = True"
| "in_loop Sr_read = True"
| "in_loop (Sr_requeue v) = True"
| "in_loop _ = False"

definition requeue_done :: "sr_loc event list \<Rightarrow> bool" where
  "requeue_done evs \<longleftrightarrow> (\<exists>v r e. 0 < r \<and> Called 0 (sr_requeue_call v) r e \<in> set evs)"

lemma requeue_doneI:
  "requeued_once evs \<Longrightarrow> requeue_done evs" "signalled requeued_once evs \<Longrightarrow> requeue_done evs"
  "completed evs \<Longrightarrow> requeue_done evs"
  by (fastforce simp: requeue_done_def requeued_once_def signalled_def completed_def)+

lemma sr_main_positions:
  assumes "sr_main_ok log child thr0" "Created 1 0 \<in> set log" "\<not> requeue_done (main_events log)"
  shows "\<exists>l. (thr0 = Running l \<or> thr0 = Blocked l) \<and> (l = Sr_lock \<or> in_loop l)"
  using assms
  by (cases "(log, child, thr0)" rule: sr_main_ok.cases) (auto simp: not_created_def dest: requeue_doneI)

text \<open>C38: an error of the requeue is never seen.  The branch for a failed requeue repeats the condition of
  the branch before it, so as long as no requeue has succeeded, \<^verbatim>\<open>main\<close> stays in its loop, whatever
  errors the kernel reports.\<close>

theorem signal_restart_spins:
  assumes "test_reach K {F1, F2} (signal_restart a) Sr_create sr_memory s" "Created 1 0 \<in> set (klog s)"
    and none: "\<forall>v r e. Called 0 (sr_requeue_call v) r e \<in> set (klog s) \<longrightarrow> r \<le> 0"
  shows "\<exists>l. (thr s 0 = Running l \<or> thr s 0 = Blocked l) \<and> (l = Sr_lock \<or> in_loop l)"
proof -
  have no: "\<not> requeue_done (main_events (klog s))"
    using none by (auto simp: requeue_done_def main_events_def not_less [symmetric])
  moreover have inv: "sr_inv (log_abs s)" using assms(1) by (rule sr.test_reach_tinv)
  ultimately have "thr s 0 \<noteq> Exited"
    using assms(2) by (auto simp: sr_inv_def not_created_def dest: requeue_doneI)
  with inv have "sr_main_ok (klog s) (thr s 1) (thr s 0)" by (simp add: sr_inv_def)
  from sr_main_positions [OF this assms(2) no] show ?thesis .
qed

definition sr_spin_state where
  "sr_spin_state = the (scripted (signal_restart rt_granted) Sr_create sr_memory
     [(0, 0), (- 1, EINVAL)] [0, 0, 0, 0, 0, 0])"

lemma sr_spin_reach:
  "test_reach script_kernel {F1, F2} (signal_restart rt_granted) Sr_create sr_memory sr_spin_state"
  unfolding sr_spin_state_def by (rule scripted_reach) code_simp

lemma sr_spin_log:
  "klog sr_spin_state = [Created 1 0, Called 0 sr_lock_call 0 0, Signalled 1,
    Called 0 (sr_requeue_call 0) (- 1) EINVAL]"
  by code_simp

lemma sr_lock_not_requeue: "sr_requeue_call v \<noteq> sr_lock_call"
  by (simp add: sr_requeue_call_def sr_lock_call_def wrapper_defs futex_def)

theorem signal_restart_spins_witness:
  "\<exists>l. (thr sr_spin_state 0 = Running l \<or> thr sr_spin_state 0 = Blocked l) \<and> (l = Sr_lock \<or> in_loop l)"
  by (rule signal_restart_spins [OF sr_spin_reach]) (auto simp: sr_spin_log sr_lock_not_requeue)

lemma sr_round:
  assumes "thr s 0 = Running Sr_kill" "ks s = (r, e) # as"
  shows "run_schedule script_kernel (signal_restart a) [0, 0, 0, 0] s =
    Some (s\<lparr>thr := (thr s)(0 := Running (sr_after_requeue r)), ks := as\<rparr>)"
  using assms by (simp add: tstep_def goto_def script_kernel_def)

text \<open>The loop ends with the first success.  If the kernel refuses the requeue any number of times and
  then performs it, \<^verbatim>\<open>main\<close> leaves its loop after four steps for every attempt.\<close>

theorem signal_restart_loop_ends:
  assumes "list_all (\<lambda>(r, e). r \<le> 0) qs" "0 < r" "thr s 0 = Running Sr_kill" "ks s = qs @ (r, e) # as"
  shows "\<exists>s'. run_schedule script_kernel (signal_restart a) (replicate (4 * (length qs + 1)) 0) s = Some s' \<and>
    thr s' 0 = Running Sr_set \<and> ks s' = as"
  using assms
proof (induction qs arbitrary: s)
  case Nil
  then show ?case using sr_round [of s r e as a]
    by (simp add: sr_after_requeue_def numeral_eq_Suc del: run_schedule.simps)
next
  case (Cons q qs)
  obtain r' e' where q: "q = (r', e')" by fastforce
  let ?s = "s\<lparr>thr := (thr s)(0 := Running (sr_after_requeue r')), ks := qs @ (r, e) # as\<rparr>"
  from Cons.prems q have "r' \<le> 0" "list_all (\<lambda>(r, e). r \<le> 0) qs" by simp_all
  moreover from this have "thr ?s 0 = Running Sr_kill" "ks ?s = qs @ (r, e) # as"
    by (simp_all add: sr_after_requeue_def)
  ultimately obtain s' where s': "run_schedule script_kernel (signal_restart a)
      (replicate (4 * (length qs + 1)) 0) ?s = Some s'" "thr s' 0 = Running Sr_set" "ks s' = as"
    using Cons.IH [of ?s] Cons.prems(2) by blast
  have sched: "replicate (4 * (length (q # qs) + 1)) 0 = [0, 0, 0, 0] @ replicate (4 * (length qs + 1)) 0"
    by (simp add: numeral_eq_Suc)
  have "run_schedule script_kernel (signal_restart a) [0, 0, 0, 0] s = Some ?s"
    using Cons.prems(3,4) q by (intro sr_round) simp_all
  then show ?case unfolding sched run_schedule_append using s' by simp
qed

theorem signal_restart_loop_ends_witness:
  "\<exists>s'. run_schedule script_kernel (signal_restart rt_granted) (replicate 12 0)
      \<lparr>mem = sr_memory, thr = (\<lambda>_. Unborn)(0 := Running Sr_kill), ks = [(0, 0), (- 1, EINVAL), (1, 0)]\<rparr> = Some s' \<and>
    thr s' 0 = Running Sr_set \<and> ks s' = []"
  using signal_restart_loop_ends [of "[(0, 0), (- 1, EINVAL)]" 1
      "\<lparr>mem = sr_memory, thr = (\<lambda>_. Unborn)(0 := Running Sr_kill), ks = [(0, 0), (- 1, EINVAL), (1, 0)]\<rparr>" 0 "[]" rt_granted]
  by (simp del: replicate.simps run_schedule.simps)

end
