(* ===== verification/Signal_Told.thy ===== *)
theory Signal_Told
  imports Signal_Restart
begin

text \<open>
  What \<^verbatim>\<open>functional/futex_requeue_pi_signal_restart.c\<close> prints to \<^verbatim>\<open>stderr\<close> at the default verbosity
  (\<open>signal_restart_says\<close>), and that it agrees with the result: something is printed exactly if the
  test does not pass.  The branch of \<^verbatim>\<open>main\<close> with the message for a failed requeue repeats the test
  \<^verbatim>\<open>res > 0\<close> and is never taken; it is part of \<open>says_after_requeue\<close> all the same.
\<close>

section \<open>Its messages\<close>
















section \<open>Properties\<close>






end
