(* ===== verification/Requeue_Pi.thy ===== *)
theory Requeue_Pi
  imports Rt_Threads
begin

text \<open>
  \<^verbatim>\<open>functional/futex_requeue_pi.c\<close>: ten waiters block in \<^verbatim>\<open>FUTEX_WAIT_REQUEUE_PI\<close>, a waker moves them
  to a pi futex one by one (\<^verbatim>\<open>signal_wakerfn\<close>) or all at once (\<^verbatim>\<open>broadcast_wakerfn\<close>), and a third
  party may own the pi futex meanwhile.  \<^verbatim>\<open>unit_test\<close> starts the threads, joins them and combines
  their results.

  Every thread function of the source has its control points (\<open>waiter_pc\<close>, \<open>bw_pc\<close>, \<open>sw_pc\<close>,
  \<open>tb_pc\<close>, \<open>ut_pc\<close>), its instructions (\<open>_fetch\<close>) and its flow of control (\<open>_cont\<close>).  The main
  thread is thread 0, waiter \<open>i\<close> is thread \<open>Suc i\<close>, then the waker and the third party.

  The field \<^verbatim>\<open>ret\<close> of a thread's \<^verbatim>\<open>thread_arg_t\<close> is the memory location \<open>Args_ret t\<close>, because
  \<^verbatim>\<open>unit_test\<close> reads it; only the thread itself writes it, so its own later reads of it are in the
  control point.  The other fields are set before the thread starts.  \<^verbatim>\<open>usleep\<close> is a step without
  effect; the messages are in theory \<open>Requeue_Pi_Told\<close>.
\<close>

section \<open>Constants, options and calls\<close>

definition MAX_WAKE_ITERS :: nat where "MAX_WAKE_ITERS = 1000"
definition THREAD_MAX :: nat where "THREAD_MAX = 10"

definition waker_tid :: tid where "waker_tid = 11"
definition blocker_tid :: tid where "blocker_tid = 12"

datatype rp_loc = F1 | F2 | Wake_complete | Waiters_blocked | Waiters_woken | Args_ret tid

text \<open>The initial memory; \<^verbatim>\<open>args\<close> is a local array of \<^verbatim>\<open>unit_test\<close> whose \<^verbatim>\<open>ret\<close> fields nobody
  initialises, so their contents are a parameter.\<close>

definition rp_memory :: "(tid \<Rightarrow> u32) \<Rightarrow> rp_loc memory" where
  "rp_memory stack l =
     (case l of Args_ret t \<Rightarrow> if 1 \<le> t \<and> t \<le> THREAD_MAX then stack t else 0 | _ \<Rightarrow> 0)"

text \<open>The arguments of \<^verbatim>\<open>unit_test\<close> and what it got from the library: the answers of the attribute
  calls, the absolute timeout, and the result of \<^verbatim>\<open>clock_gettime\<close>.\<close>

record ut_param =
  ut_broadcast :: int
  ut_lock :: int
  ut_owner :: int
  ut_timeout :: "timespec option"
  ut_clock :: int
  ut_attr :: rt_attr

definition rp_wait :: "ut_param \<Rightarrow> u32 \<Rightarrow> rp_loc futex_call" where
  "rp_wait p old_val = futex_wait_requeue_pi F1 old_val F2 (ut_timeout p) FUTEX_PRIVATE_FLAG"

definition rp_requeue :: "int \<Rightarrow> u32 \<Rightarrow> rp_loc futex_call" where
  "rp_requeue nr_requeue old_val = futex_cmp_requeue_pi F1 old_val F2 1 nr_requeue FUTEX_PRIVATE_FLAG"

definition rp_lock :: "rp_loc futex_call" where
  "rp_lock = futex_lock_pi F2 None 0 FUTEX_PRIVATE_FLAG"

definition rp_unlock :: "rp_loc futex_call" where
  "rp_unlock = futex_unlock_pi F2 FUTEX_PRIVATE_FLAG"

definition rp_wake :: "rp_loc futex_call" where
  "rp_wake = futex_wake Wake_complete 1 FUTEX_PRIVATE_FLAG"

definition rp_block :: "u32 \<Rightarrow> rp_loc futex_call" where
  "rp_block val = futex_wait Wake_complete val None FUTEX_PRIVATE_FLAG"

section \<open>waiterfn\<close>

datatype waiter_pc =
    Wt_usleep | Wt_read | Wt_inc u32 | Wt_wait u32 | Wt_store int int | Wt_woken int int
  | Wt_fix int | Wt_lock | Wt_unlock | Wt_exit

fun waiterfn_fetch :: "ut_param \<Rightarrow> nat \<Rightarrow> waiter_pc \<Rightarrow> (rp_loc, 'l) instr" where
  "waiterfn_fetch p i Wt_usleep = Nop"
| "waiterfn_fetch p i Wt_read = Load F1"
| "waiterfn_fetch p i (Wt_inc old_val) = Inc Waiters_blocked"
| "waiterfn_fetch p i (Wt_wait old_val) = Syscall (rp_wait p old_val)"
| "waiterfn_fetch p i (Wt_store res errno) = Store (Args_ret (Suc i)) (u32_of_int res)"
| "waiterfn_fetch p i (Wt_woken res errno) = Inc Waiters_woken"
| "waiterfn_fetch p i (Wt_fix ret) = Store (Args_ret (Suc i)) (u32_of_int ret)"
| "waiterfn_fetch p i Wt_lock = Syscall rp_lock"
| "waiterfn_fetch p i Wt_unlock = Syscall rp_unlock"
| "waiterfn_fetch p i Wt_exit = Exit"

definition waiter_fix :: "ut_param \<Rightarrow> int \<Rightarrow> int" where
  "waiter_fix p errno = (if ut_timeout p \<noteq> None \<and> errno = ETIMEDOUT then 0 else RET_ERROR)"

fun waiterfn_cont :: "ut_param \<Rightarrow> waiter_pc \<Rightarrow> resp \<Rightarrow> waiter_pc" where
  "waiterfn_cont p Wt_usleep r = Wt_read"
| "waiterfn_cont p Wt_read r = Wt_inc (resp_val r)"
| "waiterfn_cont p (Wt_inc old_val) r = Wt_wait old_val"
| "waiterfn_cont p (Wt_wait old_val) r = Wt_store (resp_ret r) (resp_errno r)"
| "waiterfn_cont p (Wt_store res errno) r = Wt_woken res errno"
| "waiterfn_cont p (Wt_woken res errno) r = (if res < 0 then Wt_fix (waiter_fix p errno) else Wt_unlock)"
| "waiterfn_cont p (Wt_fix ret) r = Wt_lock"
| "waiterfn_cont p Wt_lock r = Wt_unlock"
| "waiterfn_cont p Wt_unlock r = Wt_exit"
| "waiterfn_cont p Wt_exit r = Wt_exit"

section \<open>broadcast_wakerfn\<close>

datatype bw_pc =
    Bw_poll | Bw_nap | Bw_pause | Bw_lock | Bw_read nat int | Bw_requeue nat int u32
  | Bw_ret nat int int | Bw_check nat int int | Bw_error int | Bw_wake int int | Bw_unlock int int
  | Bw_final int | Bw_exit

fun broadcast_wakerfn_fetch :: "ut_param \<Rightarrow> bw_pc \<Rightarrow> (rp_loc, 'l) instr" where
  "broadcast_wakerfn_fetch p Bw_poll = Load Waiters_blocked"
| "broadcast_wakerfn_fetch p Bw_nap = Nop"
| "broadcast_wakerfn_fetch p Bw_pause = Nop"
| "broadcast_wakerfn_fetch p Bw_lock = Syscall rp_lock"
| "broadcast_wakerfn_fetch p (Bw_read i task_count) = Load F1"
| "broadcast_wakerfn_fetch p (Bw_requeue i task_count old_val) = Syscall (rp_requeue INT_MAX old_val)"
| "broadcast_wakerfn_fetch p (Bw_ret i task_count ret) = Store (Args_ret waker_tid) (u32_of_int ret)"
| "broadcast_wakerfn_fetch p (Bw_check i task_count ret) = Load Waiters_woken"
| "broadcast_wakerfn_fetch p (Bw_error task_count) = Store (Args_ret waker_tid) (u32_of_int RET_ERROR)"
| "broadcast_wakerfn_fetch p (Bw_wake task_count ret) = Syscall rp_wake"
| "broadcast_wakerfn_fetch p (Bw_unlock task_count ret) = Syscall rp_unlock"
| "broadcast_wakerfn_fetch p (Bw_final task_count) = Store (Args_ret waker_tid) (u32_of_int task_count)"
| "broadcast_wakerfn_fetch p Bw_exit = Exit"

definition bw_finish :: "int \<Rightarrow> int \<Rightarrow> bw_pc" where
  "bw_finish task_count ret = (if ret > 0 then Bw_final task_count else Bw_exit)"

fun broadcast_wakerfn_cont :: "ut_param \<Rightarrow> bw_pc \<Rightarrow> resp \<Rightarrow> bw_pc" where
  "broadcast_wakerfn_cont p Bw_poll r =
     (if int_of_u32 (resp_val r) < int THREAD_MAX then Bw_nap else Bw_pause)"
| "broadcast_wakerfn_cont p Bw_nap r = Bw_poll"
| "broadcast_wakerfn_cont p Bw_pause r = (if ut_lock p \<noteq> 0 then Bw_lock else Bw_read 0 0)"
| "broadcast_wakerfn_cont p Bw_lock r = Bw_read 0 0"
| "broadcast_wakerfn_cont p (Bw_read i task_count) r = Bw_requeue i task_count (resp_val r)"
| "broadcast_wakerfn_cont p (Bw_requeue i task_count old_val) r = Bw_ret i task_count (resp_ret r)"
| "broadcast_wakerfn_cont p (Bw_ret i task_count ret) r =
     (if ret < 0 then Bw_error task_count
      else if Suc i < MAX_WAKE_ITERS then Bw_check (Suc i) (task_count + ret) ret
      else Bw_error task_count)"
| "broadcast_wakerfn_cont p (Bw_check i task_count ret) r =
     (if task_count < int THREAD_MAX - int_of_u32 (resp_val r) then Bw_read i task_count
      else Bw_wake task_count ret)"
| "broadcast_wakerfn_cont p (Bw_error task_count) r = Bw_wake task_count RET_ERROR"
| "broadcast_wakerfn_cont p (Bw_wake task_count ret) r =
     (if ut_lock p \<noteq> 0 then Bw_unlock task_count ret else bw_finish task_count ret)"
| "broadcast_wakerfn_cont p (Bw_unlock task_count ret) r = bw_finish task_count ret"
| "broadcast_wakerfn_cont p (Bw_final task_count) r = Bw_exit"
| "broadcast_wakerfn_cont p Bw_exit r = Bw_exit"

section \<open>signal_wakerfn\<close>

datatype sw_pc =
    Sw_poll | Sw_nap | Sw_pause | Sw_test nat int int | Sw_lock nat int | Sw_read nat int
  | Sw_requeue nat int u32 | Sw_ret nat int int int | Sw_errno nat int int | Sw_unlock nat int int
  | Sw_usleep nat int int | Sw_error int | Sw_wake int int | Sw_final int | Sw_exit

fun signal_wakerfn_fetch :: "ut_param \<Rightarrow> sw_pc \<Rightarrow> (rp_loc, 'l) instr" where
  "signal_wakerfn_fetch p Sw_poll = Load Waiters_blocked"
| "signal_wakerfn_fetch p Sw_nap = Nop"
| "signal_wakerfn_fetch p Sw_pause = Nop"
| "signal_wakerfn_fetch p (Sw_test i task_count ret) =
     (if task_count < int THREAD_MAX then Load Waiters_woken else Nop)"
| "signal_wakerfn_fetch p (Sw_lock i task_count) = Syscall rp_lock"
| "signal_wakerfn_fetch p (Sw_read i task_count) = Load F1"
| "signal_wakerfn_fetch p (Sw_requeue i task_count old_val) = Syscall (rp_requeue 0 old_val)"
| "signal_wakerfn_fetch p (Sw_ret i task_count res errno) = Store (Args_ret waker_tid) (u32_of_int res)"
| "signal_wakerfn_fetch p (Sw_errno i task_count ret) = Store (Args_ret waker_tid) (u32_of_int ret)"
| "signal_wakerfn_fetch p (Sw_unlock i task_count ret) = Syscall rp_unlock"
| "signal_wakerfn_fetch p (Sw_usleep i task_count ret) = Nop"
| "signal_wakerfn_fetch p (Sw_error task_count) = Store (Args_ret waker_tid) (u32_of_int RET_ERROR)"
| "signal_wakerfn_fetch p (Sw_wake task_count ret) = Syscall rp_wake"
| "signal_wakerfn_fetch p (Sw_final task_count) = Store (Args_ret waker_tid) (u32_of_int task_count)"
| "signal_wakerfn_fetch p Sw_exit = Exit"

text \<open>After the pi futex is released again: an error ends the loop, otherwise the number of threads
  moved is added.\<close>

definition sw_judge :: "nat \<Rightarrow> int \<Rightarrow> int \<Rightarrow> sw_pc" where
  "sw_judge i task_count ret =
     (if ret < 0 then Sw_error task_count else Sw_usleep i (task_count + ret) ret)"

definition sw_release :: "ut_param \<Rightarrow> nat \<Rightarrow> int \<Rightarrow> int \<Rightarrow> sw_pc" where
  "sw_release p i task_count ret =
     (if ut_lock p \<noteq> 0 then Sw_unlock i task_count ret else sw_judge i task_count ret)"

fun signal_wakerfn_cont :: "ut_param \<Rightarrow> sw_pc \<Rightarrow> resp \<Rightarrow> sw_pc" where
  "signal_wakerfn_cont p Sw_poll r =
     (if int_of_u32 (resp_val r) < int THREAD_MAX then Sw_nap else Sw_pause)"
| "signal_wakerfn_cont p Sw_nap r = Sw_poll"
| "signal_wakerfn_cont p Sw_pause r = Sw_test 0 0 0"
| "signal_wakerfn_cont p (Sw_test i task_count ret) r =
     (if task_count < int THREAD_MAX \<and> int_of_u32 (resp_val r) < int THREAD_MAX
      then (if ut_lock p \<noteq> 0 then Sw_lock i task_count else Sw_read i task_count)
      else Sw_wake task_count ret)"
| "signal_wakerfn_cont p (Sw_lock i task_count) r = Sw_read i task_count"
| "signal_wakerfn_cont p (Sw_read i task_count) r = Sw_requeue i task_count (resp_val r)"
| "signal_wakerfn_cont p (Sw_requeue i task_count old_val) r = Sw_ret i task_count (resp_ret r) (resp_errno r)"
| "signal_wakerfn_cont p (Sw_ret i task_count res errno) r =
     (if res < 0 then Sw_errno i task_count (- errno) else sw_release p i task_count res)"
| "signal_wakerfn_cont p (Sw_errno i task_count ret) r = sw_release p i task_count ret"
| "signal_wakerfn_cont p (Sw_unlock i task_count ret) r = sw_judge i task_count ret"
| "signal_wakerfn_cont p (Sw_usleep i task_count ret) r =
     (if Suc i > MAX_WAKE_ITERS + THREAD_MAX then Sw_error task_count
      else Sw_test (Suc i) task_count ret)"
| "signal_wakerfn_cont p (Sw_error task_count) r = Sw_wake task_count RET_ERROR"
| "signal_wakerfn_cont p (Sw_wake task_count ret) r = (if ret \<ge> 0 then Sw_final task_count else Sw_exit)"
| "signal_wakerfn_cont p (Sw_final task_count) r = Sw_exit"
| "signal_wakerfn_cont p Sw_exit r = Sw_exit"

section \<open>third_party_blocker\<close>

datatype tb_pc =
    Tb_lock | Tb_ret int | Tb_read | Tb_wait u32 | Tb_wait_ret int | Tb_unlock int | Tb_error | Tb_exit

fun third_party_blocker_fetch :: "tb_pc \<Rightarrow> (rp_loc, 'l) instr" where
  "third_party_blocker_fetch Tb_lock = Syscall rp_lock"
| "third_party_blocker_fetch (Tb_ret ret) = Store (Args_ret blocker_tid) (u32_of_int ret)"
| "third_party_blocker_fetch Tb_read = Load Wake_complete"
| "third_party_blocker_fetch (Tb_wait val) = Syscall (rp_block val)"
| "third_party_blocker_fetch (Tb_wait_ret ret) = Store (Args_ret blocker_tid) (u32_of_int ret)"
| "third_party_blocker_fetch (Tb_unlock ret) = Syscall rp_unlock"
| "third_party_blocker_fetch Tb_error = Store (Args_ret blocker_tid) (u32_of_int RET_ERROR)"
| "third_party_blocker_fetch Tb_exit = Exit"

fun third_party_blocker_cont :: "tb_pc \<Rightarrow> resp \<Rightarrow> tb_pc" where
  "third_party_blocker_cont Tb_lock r = Tb_ret (resp_ret r)"
| "third_party_blocker_cont (Tb_ret ret) r = (if ret \<noteq> 0 then Tb_error else Tb_read)"
| "third_party_blocker_cont Tb_read r = Tb_wait (resp_val r)"
| "third_party_blocker_cont (Tb_wait val) r = Tb_wait_ret (resp_ret r)"
| "third_party_blocker_cont (Tb_wait_ret ret) r = Tb_unlock ret"
| "third_party_blocker_cont (Tb_unlock ret) r = (if ret \<noteq> 0 \<or> resp_ret r \<noteq> 0 then Tb_error else Tb_exit)"
| "third_party_blocker_cont Tb_error r = Tb_exit"
| "third_party_blocker_cont Tb_exit r = Tb_exit"

section \<open>unit_test\<close>

text \<open>
  In the join loop, \<open>w\<close> is the waiter whose \<^verbatim>\<open>ret\<close> the pointer \<^verbatim>\<open>waiter_ret\<close> points to.  It is read
  before each join to decide whether the join stores a new pointer (\<open>keep\<close>: it does not).  When
  the results are combined all threads have ended, so each \<^verbatim>\<open>ret\<close> is read once.
\<close>

datatype ut_pc =
    Ut_blocker | Ut_set | Ut_create nat | Ut_waker | Ut_load nat nat | Ut_join nat nat bool
  | Ut_join_blocker nat | Ut_join_waker nat | Ut_waiter_ret nat | Ut_waker_ret | Ut_blocker_ret
  | Ut_done int

datatype rp_pc = Main ut_pc | Waiter nat waiter_pc | Broadcast bw_pc | Signal sw_pc | Blocker tb_pc

definition wakerfn :: "ut_param \<Rightarrow> rp_pc" where
  "wakerfn p = (if ut_broadcast p \<noteq> 0 then Broadcast Bw_poll else Signal Sw_poll)"

fun unit_test_fetch :: "ut_param \<Rightarrow> ut_pc \<Rightarrow> (rp_loc, rp_pc) instr" where
  "unit_test_fetch p Ut_blocker = rt_create (ut_attr p) blocker_tid (Blocker Tb_lock)"
| "unit_test_fetch p Ut_set = Store Waiters_woken 0"
| "unit_test_fetch p (Ut_create i) = rt_create (ut_attr p) (Suc i) (Waiter i Wt_usleep)"
| "unit_test_fetch p Ut_waker = rt_create (ut_attr p) waker_tid (wakerfn p)"
| "unit_test_fetch p (Ut_load i w) = Load (Args_ret (Suc w))"
| "unit_test_fetch p (Ut_join i w keep) = Join (Suc i)"
| "unit_test_fetch p (Ut_join_blocker w) = Join blocker_tid"
| "unit_test_fetch p (Ut_join_waker w) = Join waker_tid"
| "unit_test_fetch p (Ut_waiter_ret w) = Load (Args_ret (Suc w))"
| "unit_test_fetch p Ut_waker_ret = Load (Args_ret waker_tid)"
| "unit_test_fetch p Ut_blocker_ret = Load (Args_ret blocker_tid)"
| "unit_test_fetch p (Ut_done ret) = Halt"

definition ut_join_rest :: "ut_param \<Rightarrow> nat \<Rightarrow> nat \<Rightarrow> ut_pc" where
  "ut_join_rest p i w =
     (if i < THREAD_MAX then Ut_load i w
      else if ut_owner p \<noteq> 0 then Ut_join_blocker w
      else Ut_join_waker w)"

fun unit_test_cont :: "ut_param \<Rightarrow> ut_pc \<Rightarrow> resp \<Rightarrow> ut_pc" where
  "unit_test_cont p Ut_blocker r = (if rt_result (ut_attr p) r \<noteq> 0 then Ut_done RET_ERROR else Ut_set)"
| "unit_test_cont p Ut_set r = Ut_create 0"
| "unit_test_cont p (Ut_create i) r =
     (if rt_result (ut_attr p) r \<noteq> 0 then Ut_done RET_ERROR
      else if Suc i < THREAD_MAX then Ut_create (Suc i) else Ut_waker)"
| "unit_test_cont p Ut_waker r =
     (if rt_result (ut_attr p) r \<noteq> 0 then Ut_done RET_ERROR else ut_join_rest p 0 0)"
| "unit_test_cont p (Ut_load i w) r = Ut_join i w (resp_val r \<noteq> 0)"
| "unit_test_cont p (Ut_join i w keep) r = ut_join_rest p (Suc i) (if keep then w else i)"
| "unit_test_cont p (Ut_join_blocker w) r = Ut_join_waker w"
| "unit_test_cont p (Ut_join_waker w) r = (if ut_clock p = 0 then Ut_waiter_ret w else Ut_done (ut_clock p))"
| "unit_test_cont p (Ut_waiter_ret w) r =
     (if int_of_u32 (resp_val r) \<noteq> 0 then Ut_done (int_of_u32 (resp_val r)) else Ut_waker_ret)"
| "unit_test_cont p Ut_waker_ret r =
     (if int_of_u32 (resp_val r) < 0 then Ut_done (int_of_u32 (resp_val r)) else Ut_blocker_ret)"
| "unit_test_cont p Ut_blocker_ret r =
     (if int_of_u32 (resp_val r) \<noteq> 0 then Ut_done (int_of_u32 (resp_val r)) else Ut_done (ut_clock p))"
| "unit_test_cont p (Ut_done ret) r = Ut_done ret"

fun requeue_pi_fetch :: "ut_param \<Rightarrow> rp_pc \<Rightarrow> (rp_loc, rp_pc) instr" where
  "requeue_pi_fetch p (Main l) = unit_test_fetch p l"
| "requeue_pi_fetch p (Waiter i l) = waiterfn_fetch p i l"
| "requeue_pi_fetch p (Broadcast l) = broadcast_wakerfn_fetch p l"
| "requeue_pi_fetch p (Signal l) = signal_wakerfn_fetch p l"
| "requeue_pi_fetch p (Blocker l) = third_party_blocker_fetch l"

fun requeue_pi_cont :: "ut_param \<Rightarrow> rp_pc \<Rightarrow> resp \<Rightarrow> rp_pc" where
  "requeue_pi_cont p (Main l) r = Main (unit_test_cont p l r)"
| "requeue_pi_cont p (Waiter i l) r = Waiter i (waiterfn_cont p l r)"
| "requeue_pi_cont p (Broadcast l) r = Broadcast (broadcast_wakerfn_cont p l r)"
| "requeue_pi_cont p (Signal l) r = Signal (signal_wakerfn_cont p l r)"
| "requeue_pi_cont p (Blocker l) r = Blocker (third_party_blocker_cont l r)"

definition requeue_pi :: "ut_param \<Rightarrow> (rp_loc, rp_pc) program" where
  "requeue_pi p = \<lparr>fetch = requeue_pi_fetch p, cont = requeue_pi_cont p\<rparr>"

definition ut_start :: "ut_param \<Rightarrow> rp_pc" where
  "ut_start p = Main (if ut_owner p \<noteq> 0 then Ut_blocker else Ut_set)"

text \<open>The timeout: \<open>now\<close> is what \<^verbatim>\<open>clock_gettime\<close> stored.\<close>

definition abs_timeout :: "timespec \<Rightarrow> int \<Rightarrow> timespec" where
  "abs_timeout now timeout_ns =
     \<lparr>tv_sec = tv_sec now + c_div (tv_nsec now + timeout_ns) 1000000000,
      tv_nsec = c_mod (tv_nsec now + timeout_ns) 1000000000\<rparr>"

definition unit_test :: "rt_attr \<Rightarrow> int \<times> timespec \<Rightarrow> int \<Rightarrow> int \<Rightarrow> int \<Rightarrow> int \<Rightarrow> ut_param" where
  "unit_test attr clock broadcast lock third_party_owner timeout_ns =
     \<lparr>ut_broadcast = broadcast, ut_lock = lock, ut_owner = third_party_owner,
      ut_timeout = (if timeout_ns \<noteq> 0 then Some (abs_timeout (snd clock) timeout_ns) else None),
      ut_clock = (if timeout_ns \<noteq> 0 then fst clock else RET_PASS),
      ut_attr = attr\<rparr>"

section \<open>main\<close>

record rp_config =
  timeout_ns :: int
  broadcast :: int
  owner :: int
  locked :: int
  rp_log :: log_state

definition rp_default :: rp_config where
  "rp_default = \<lparr>timeout_ns = 0, broadcast = 0, owner = 0, locked = 0, rp_log = log_init\<rparr>"

definition requeue_pi_usage :: "string \<Rightarrow> string" where
  "requeue_pi_usage prog = usage_prog prog @
     usage_line ''  -b'' ''Broadcast wakeup (all waiters)'' @ usage_color @ usage_help @
     usage_line ''  -l'' ''Lock the pi futex across requeue'' @
     usage_line ''  -o'' ''Use a third party pi futex owner during requeue (cancels -l)'' @
     usage_line ''  -t N'' ''Timeout in nanoseconds (default: 0)'' @ usage_verbosity"

fun requeue_pi_switch :: "string \<Rightarrow> optev \<Rightarrow> rp_config \<Rightarrow> leave + rp_config" where
  "requeue_pi_switch prog (Opt c optarg) cfg =
     (if c = CHR ''b'' then Inr (cfg\<lparr>broadcast := 1\<rparr>)
      else if c = CHR ''c'' then Inr (cfg\<lparr>rp_log := log_color 1 (rp_log cfg)\<rparr>)
      else if c = CHR ''h'' then Inl (0, requeue_pi_usage prog)
      else if c = CHR ''l'' then Inr (cfg\<lparr>locked := 1\<rparr>)
      else if c = CHR ''o'' then Inr (cfg\<lparr>owner := 1, locked := 0\<rparr>)
      else if c = CHR ''t'' then Inr (cfg\<lparr>timeout_ns := atoi (optarg_text optarg)\<rparr>)
      else if c = CHR ''v'' then Inr (cfg\<lparr>rp_log := log_verbosity (atoi (optarg_text optarg)) (rp_log cfg)\<rparr>)
      else Inl (1, requeue_pi_usage prog))"
| "requeue_pi_switch prog Bad cfg = Inl (1, requeue_pi_usage prog)"

text \<open>The option loop, the two lines printed, the parameters of the run, and the result line.\<close>

definition requeue_pi_main ::
    "rt_attr \<Rightarrow> int \<times> timespec \<Rightarrow> string list \<Rightarrow> leave + (string \<times> ut_param \<times> (int \<Rightarrow> string))" where
  "requeue_pi_main attr clock argv =
     (let prog = basename (hd argv)
      in case run_getopt ''bchlot:v:'' (requeue_pi_switch prog) (tl argv) rp_default of
           Inl x \<Rightarrow> Inl x
         | Inr cfg \<Rightarrow>
             Inr (prog @ '': Test requeue functionality'' @ newline @ tab @
                  ''Arguments: broadcast='' @ show_int (broadcast cfg) @ '' locked='' @ show_int (locked cfg) @
                  '' owner='' @ show_int (owner cfg) @ '' timeout='' @ show_int (timeout_ns cfg) @ ''ns'' @ newline,
                  unit_test attr clock (broadcast cfg) (locked cfg) (owner cfg) (timeout_ns cfg),
                  print_result (rp_log cfg)))"

interpretation rp_options: option_switch "requeue_pi_switch prog" rp_log "\<lambda>_. requeue_pi_usage prog" for prog
proof (unfold_locales, goal_cases)
  case (5 e cfg x)
  then show ?case by (cases "(prog, e, cfg)" rule: requeue_pi_switch.cases) (auto split: if_splits)
next
  case (6 e cfg cfg')
  then show ?case by (cases "(prog, e, cfg)" rule: requeue_pi_switch.cases) (auto split: if_splits)
qed simp_all

lemma requeue_pi_simps [simp]:
  "fetch (requeue_pi p) = requeue_pi_fetch p" "cont (requeue_pi p) = requeue_pi_cont p"
  by (simp_all add: requeue_pi_def)

end
