(* ===== verification/Requeue_Pi_Runs.thy ===== *)
theory Requeue_Pi_Runs
  imports Requeue_Pi
begin

text \<open>
  Runs of \<^verbatim>\<open>functional/futex_requeue_pi.c\<close> on an arbitrary kernel.  Every thread but the main thread
  has an invariant of its own (\<open>role_ok\<close>) that relates its control point, the answers it got and its
  \<^verbatim>\<open>ret\<close> field; nobody else touches these, so it is kept by the thread's own steps alone.  The main
  thread's invariant (\<open>main_ok\<close>) says which threads exist or have ended, and which \<^verbatim>\<open>ret\<close> field
  \<^verbatim>\<open>waiter_ret\<close> points to.  \<open>unit_verdict\<close> is the result the \<^verbatim>\<open>ret\<close> fields call for.
\<close>

section \<open>What the wakers counted\<close>

fun requeue_answer :: "rp_loc event \<Rightarrow> (int \<times> int) list" where
  "requeue_answer (Called t c r e) = (if fc_op c = FUTEX_CMP_REQUEUE_PI_PRIVATE then [(r, e)] else [])"
| "requeue_answer (Created j r) = []"
| "requeue_answer (Signalled j) = []"

definition requeue_answers :: "rp_loc event list \<Rightarrow> (int \<times> int) list" where
  "requeue_answers log = concat (map requeue_answer log)"

lemma requeue_answers_simps [simp]:
  "requeue_answers [] = []"
  "requeue_answers (log @ [Called t (rp_requeue n v) r e]) = requeue_answers log @ [(r, e)]"
  "requeue_answers (log @ [Called t rp_lock r e]) = requeue_answers log"
  "requeue_answers (log @ [Called t rp_unlock r e]) = requeue_answers log"
  "requeue_answers (log @ [Called t rp_wake r e]) = requeue_answers log"
  by (simp_all add: requeue_answers_def rp_requeue_def rp_lock_def rp_unlock_def rp_wake_def
      wrapper_defs futex_def opcode_defs)

text \<open>The value a waker takes an answer for: \<^verbatim>\<open>signal_wakerfn\<close> turns an error into \<^verbatim>\<open>-errno\<close>.\<close>

fun signal_value :: "int \<times> int \<Rightarrow> int" where
  "signal_value (r, e) = (if r < 0 then - e else r)"

text \<open>With limit \<open>N\<close> on its calls, a waker has made \<open>i\<close> of them, all good, that moved \<open>tc\<close> threads; or it
  has failed, by a bad answer or at the limit.\<close>

definition counted :: "nat \<Rightarrow> (int \<times> int \<Rightarrow> int) \<Rightarrow> (int \<times> int) list \<Rightarrow> nat \<Rightarrow> int \<Rightarrow> bool" where
  [count_defs]: "counted N f qs i tc \<longleftrightarrow>
     length qs = i \<and> i < N \<and> list_all (\<lambda>q. 0 \<le> f q) qs \<and> tc = sum_list (map f qs)"

definition gave_up :: "nat \<Rightarrow> (int \<times> int \<Rightarrow> int) \<Rightarrow> (int \<times> int) list \<Rightarrow> bool" where
  [count_defs]: "gave_up N f qs \<longleftrightarrow> length qs \<le> N \<and> (length qs = N \<or> list_ex (\<lambda>q. f q < 0) qs)"

definition waker_report :: "nat \<Rightarrow> (int \<times> int \<Rightarrow> int) \<Rightarrow> (int \<times> int) list \<Rightarrow> u32 \<Rightarrow> bool" where
  [count_defs]: "waker_report N f qs w \<longleftrightarrow>
     (w = u32_of_int RET_ERROR \<and> gave_up N f qs) \<or>
     (\<exists>tc. counted N f qs (length qs) tc \<and> (w = u32_of_int tc \<or> w = 0))"

text \<open>The call just answered was number \<open>i\<close>, counting from 0, and its value is \<open>ret\<close>.\<close>

definition answered :: "nat \<Rightarrow> (int \<times> int \<Rightarrow> int) \<Rightarrow> (int \<times> int) list \<Rightarrow> nat \<Rightarrow> int \<Rightarrow> int \<Rightarrow> bool" where
  [count_defs]: "answered N f qs i tc ret \<longleftrightarrow> (\<exists>qs' q. qs = qs' @ [q] \<and> f q = ret \<and> counted N f qs' i tc)"

lemma counted_start: "0 < N \<Longrightarrow> counted N f [] 0 0"
  by (simp add: counted_def)

lemma answeredI: "counted N f qs i tc \<Longrightarrow> answered N f (qs @ [q]) i tc (f q)"
  by (auto simp: answered_def)

lemma answered_bad: "answered N f qs i tc ret \<Longrightarrow> ret < 0 \<Longrightarrow> gave_up N f qs"
  by (auto simp: answered_def gave_up_def counted_def)

lemma answered_limit: "answered N f qs i tc ret \<Longrightarrow> N \<le> Suc i \<Longrightarrow> gave_up N f qs"
  by (auto simp: answered_def gave_up_def counted_def)

lemma answered_good: "answered N f qs i tc ret \<Longrightarrow> 0 \<le> ret \<Longrightarrow> Suc i < N \<Longrightarrow> counted N f qs (Suc i) (tc + ret)"
  by (auto simp: answered_def counted_def)

lemma counted_length: "counted N f qs i tc \<Longrightarrow> counted N f qs (length qs) tc"
  by (simp add: counted_def)

lemma waker_reportI:
  "gave_up N f qs \<Longrightarrow> waker_report N f qs (u32_of_int RET_ERROR)"
  "counted N f qs (length qs) tc \<Longrightarrow> waker_report N f qs (u32_of_int tc)"
  "counted N f qs (length qs) tc \<Longrightarrow> waker_report N f qs 0"
  by (auto simp: waker_report_def)

definition SIGNAL_CALLS :: nat where "SIGNAL_CALLS = MAX_WAKE_ITERS + THREAD_MAX + 1"

abbreviation "sw_counted \<equiv> counted SIGNAL_CALLS signal_value"
abbreviation "sw_answered \<equiv> answered SIGNAL_CALLS signal_value"
abbreviation "sw_gave_up \<equiv> gave_up SIGNAL_CALLS signal_value"
abbreviation "sw_report \<equiv> waker_report SIGNAL_CALLS signal_value"
abbreviation "bw_counted \<equiv> counted MAX_WAKE_ITERS fst"
abbreviation "bw_answered \<equiv> answered MAX_WAKE_ITERS fst"
abbreviation "bw_gave_up \<equiv> gave_up MAX_WAKE_ITERS fst"
abbreviation "bw_report \<equiv> waker_report MAX_WAKE_ITERS fst"

section \<open>Invariants of the threads\<close>

fun signal_ok :: "(int \<times> int) list \<Rightarrow> u32 \<Rightarrow> sw_pc \<Rightarrow> bool" where
  "signal_ok qs w Sw_poll = (qs = [])"
| "signal_ok qs w Sw_nap = (qs = [])"
| "signal_ok qs w Sw_pause = (qs = [])"
| "signal_ok qs w (Sw_test i tc ret) = (sw_counted qs i tc \<and> 0 \<le> ret)"
| "signal_ok qs w (Sw_lock i tc) = sw_counted qs i tc"
| "signal_ok qs w (Sw_read i tc) = sw_counted qs i tc"
| "signal_ok qs w (Sw_requeue i tc v) = sw_counted qs i tc"
| "signal_ok qs w (Sw_ret i tc res errno) = sw_answered qs i tc (signal_value (res, errno))"
| "signal_ok qs w (Sw_errno i tc ret) = sw_answered qs i tc ret"
| "signal_ok qs w (Sw_unlock i tc ret) = sw_answered qs i tc ret"
| "signal_ok qs w (Sw_usleep i tc ret) = (sw_answered qs i (tc - ret) ret \<and> 0 \<le> ret)"
| "signal_ok qs w (Sw_error tc) = sw_gave_up qs"
| "signal_ok qs w (Sw_wake tc ret) =
     ((ret = RET_ERROR \<and> w = u32_of_int RET_ERROR \<and> sw_gave_up qs) \<or>
      (0 \<le> ret \<and> sw_counted qs (length qs) tc))"
| "signal_ok qs w (Sw_final tc) = sw_counted qs (length qs) tc"
| "signal_ok qs w Sw_exit = sw_report qs w"

fun broadcast_ok :: "(int \<times> int) list \<Rightarrow> u32 \<Rightarrow> bw_pc \<Rightarrow> bool" where
  "broadcast_ok qs w Bw_poll = (qs = [])"
| "broadcast_ok qs w Bw_nap = (qs = [])"
| "broadcast_ok qs w Bw_pause = (qs = [])"
| "broadcast_ok qs w Bw_lock = (qs = [])"
| "broadcast_ok qs w (Bw_read i tc) = bw_counted qs i tc"
| "broadcast_ok qs w (Bw_requeue i tc v) = bw_counted qs i tc"
| "broadcast_ok qs w (Bw_ret i tc ret) = bw_answered qs i tc ret"
| "broadcast_ok qs w (Bw_check i tc ret) = (bw_counted qs i tc \<and> 0 \<le> ret \<and> w = u32_of_int ret)"
| "broadcast_ok qs w (Bw_error tc) = bw_gave_up qs"
| "broadcast_ok qs w (Bw_wake tc ret) =
     ((ret = RET_ERROR \<and> w = u32_of_int RET_ERROR \<and> bw_gave_up qs) \<or>
      (0 \<le> ret \<and> w = u32_of_int ret \<and> bw_counted qs (length qs) tc))"
| "broadcast_ok qs w (Bw_unlock tc ret) =
     ((ret = RET_ERROR \<and> w = u32_of_int RET_ERROR \<and> bw_gave_up qs) \<or>
      (0 \<le> ret \<and> w = u32_of_int ret \<and> bw_counted qs (length qs) tc))"
| "broadcast_ok qs w (Bw_final tc) = bw_counted qs (length qs) tc"
| "broadcast_ok qs w Bw_exit = bw_report qs w"

text \<open>The value a waiter leaves for the answer to its wait, and the calls it makes after it.\<close>

definition waiter_value :: "ut_param \<Rightarrow> int \<Rightarrow> int \<Rightarrow> int" where
  "waiter_value p r e = (if r < 0 then waiter_fix p e else r)"

definition waited :: "ut_param \<Rightarrow> rp_loc event list \<Rightarrow> int \<Rightarrow> int \<Rightarrow> rp_loc event list \<Rightarrow> bool" where
  "waited p ans r e rest \<longleftrightarrow> (\<exists>t v. ans = Called t (rp_wait p v) r e # rest)"

definition locked_again :: "int \<Rightarrow> rp_loc event list \<Rightarrow> bool" where
  "locked_again r rest \<longleftrightarrow> (if r < 0 then (\<exists>t r' e. rest = [Called t rp_lock r' e]) else rest = [])"

fun waiter_ok :: "ut_param \<Rightarrow> rp_loc event list \<Rightarrow> u32 \<Rightarrow> waiter_pc \<Rightarrow> bool" where
  "waiter_ok p ans w Wt_usleep = (ans = [])"
| "waiter_ok p ans w Wt_read = (ans = [])"
| "waiter_ok p ans w (Wt_inc v) = (ans = [])"
| "waiter_ok p ans w (Wt_wait v) = (ans = [])"
| "waiter_ok p ans w (Wt_store r e) = waited p ans r e []"
| "waiter_ok p ans w (Wt_woken r e) = (waited p ans r e [] \<and> w = u32_of_int r)"
| "waiter_ok p ans w (Wt_fix x) = (\<exists>r e. waited p ans r e [] \<and> r < 0 \<and> x = waiter_value p r e)"
| "waiter_ok p ans w Wt_lock = (\<exists>r e. waited p ans r e [] \<and> r < 0 \<and> w = u32_of_int (waiter_value p r e))"
| "waiter_ok p ans w Wt_unlock =
     (\<exists>r e ls. waited p ans r e ls \<and> locked_again r ls \<and> w = u32_of_int (waiter_value p r e))"
| "waiter_ok p ans w Wt_exit =
     (\<exists>r e ls t r' e'. waited p ans r e (ls @ [Called t rp_unlock r' e']) \<and> locked_again r ls \<and>
        w = u32_of_int (waiter_value p r e))"

text \<open>The third party: every call has to return 0.\<close>

fun call_ok :: "rp_loc event \<Rightarrow> bool" where
  "call_ok (Called t c r e) = (r = 0)"
| "call_ok (Created j r) = True"
| "call_ok (Signalled j) = True"

fun blocker_ok :: "rp_loc event list \<Rightarrow> u32 \<Rightarrow> tb_pc \<Rightarrow> bool" where
  "blocker_ok ans w Tb_lock = (ans = [])"
| "blocker_ok ans w (Tb_ret r) = (\<exists>t e. ans = [Called t rp_lock r e])"
| "blocker_ok ans w Tb_read = (length ans = 1 \<and> list_all call_ok ans)"
| "blocker_ok ans w (Tb_wait v) = (length ans = 1 \<and> list_all call_ok ans)"
| "blocker_ok ans w (Tb_wait_ret r) = (length ans = 2 \<and> (list_all call_ok ans \<longleftrightarrow> r = 0))"
| "blocker_ok ans w (Tb_unlock r) =
     (length ans = 2 \<and> w = u32_of_int r \<and> (list_all call_ok ans \<longleftrightarrow> r = 0))"
| "blocker_ok ans w Tb_error = (\<not> list_all call_ok ans)"
| "blocker_ok ans w Tb_exit =
     ((length ans = 3 \<and> list_all call_ok ans \<and> w = 0) \<or>
      (\<not> list_all call_ok ans \<and> w = u32_of_int RET_ERROR))"

fun role_ok :: "ut_param \<Rightarrow> tid \<Rightarrow> rp_loc event list \<Rightarrow> u32 \<Rightarrow> rp_pc \<Rightarrow> bool" where
  "role_ok p t ans w (Main l) = False"
| "role_ok p t ans w (Waiter i l) = (t = Suc i \<and> i < THREAD_MAX \<and> waiter_ok p ans w l)"
| "role_ok p t ans w (Broadcast l) =
     (t = waker_tid \<and> ut_broadcast p \<noteq> 0 \<and> broadcast_ok (requeue_answers ans) w l)"
| "role_ok p t ans w (Signal l) =
     (t = waker_tid \<and> ut_broadcast p = 0 \<and> signal_ok (requeue_answers ans) w l)"
| "role_ok p t ans w (Blocker l) = (t = blocker_tid \<and> blocker_ok ans w l)"

definition thread_ok :: "ut_param \<Rightarrow> tid \<Rightarrow> rp_loc event list \<Rightarrow> u32 \<Rightarrow> rp_pc tstatus \<Rightarrow> bool" where
  "thread_ok p t ans w st =
     (case st of
        Unborn \<Rightarrow> ans = [] \<and> (t = blocker_tid \<longrightarrow> w = 0)
      | Running l \<Rightarrow> role_ok p t ans w l
      | Blocked l \<Rightarrow> role_ok p t ans w l
      | Exited \<Rightarrow> (\<exists>l. role_ok p t ans w l \<and> requeue_pi_fetch p l = Exit))"

section \<open>The threads keep them\<close>

lemma waiter_mem:
  assumes "waiter_ok p ans (m (Args_ret (Suc i))) l" "exec_mem (waiterfn_fetch p i l) m = Some (r, m')"
  shows "waiter_ok p ans (m' (Args_ret (Suc i))) (waiterfn_cont p l r)"
proof (cases l)
  case (Wt_woken res errno)
  with assms have w: "waited p ans res errno []" "m' (Args_ret (Suc i)) = u32_of_int res"
    by (auto simp: futex_atomic_defs sync_defs)
  show ?thesis
  proof (cases "res < 0")
    case True
    with Wt_woken w(1) show ?thesis by (auto simp: waiter_value_def)
  next
    case False
    then have "locked_again res []" "waiter_value p res errno = res"
      by (simp_all add: locked_again_def waiter_value_def)
    with Wt_woken w False show ?thesis by (simp, metis)
  qed
next
  case (Wt_fix x)
  with assms show ?thesis by (auto, metis)
qed (use assms in \<open>auto simp: futex_atomic_defs sync_defs\<close>)

lemma waited_first: "waited p [Called t (rp_wait p v) r e] r e []"
  and waited_more: "waited p ans r e ls \<Longrightarrow> waited p (ans @ [x]) r e (ls @ [x])"
  by (auto simp: waited_def)

lemma locked_againI: "r < 0 \<Longrightarrow> locked_again r [Called t rp_lock r' e']"
  by (simp add: locked_again_def)

lemma waiter_call:
  assumes "waiter_ok p ans w l" "waiterfn_fetch p i l = Syscall c"
  shows "waiter_ok p (ans @ [Called t c r e]) w (waiterfn_cont p l (Ret r e))"
proof (cases l)
  case (Wt_wait v)
  with assms show ?thesis by (auto intro: waited_first)
next
  case Wt_lock
  with assms obtain r' e' where "c = rp_lock" "waited p ans r' e' []" "r' < 0"
    "w = u32_of_int (waiter_value p r' e')" by auto
  with waited_more [of p ans r' e' "[]" "Called t c r e"] Wt_lock show ?thesis
    by (auto intro: locked_againI)
next
  case Wt_unlock
  with assms obtain r' e' ls where "c = rp_unlock" "waited p ans r' e' ls" "locked_again r' ls"
    "w = u32_of_int (waiter_value p r' e')" by auto
  with waited_more [of p ans r' e' ls "Called t c r e"] Wt_unlock show ?thesis by (simp, metis)
qed (use assms in simp_all)

lemma RET_ERROR_neg [simp]: "RET_ERROR < 0" "\<not> 0 \<le> RET_ERROR" "\<not> 0 < RET_ERROR"
  by (simp_all add: RET_ERROR_def)

lemma broadcast_mem:
  assumes "broadcast_ok qs (m (Args_ret waker_tid)) l" "exec_mem (broadcast_wakerfn_fetch p l) m = Some (r, m')"
  shows "broadcast_ok qs (m' (Args_ret waker_tid)) (broadcast_wakerfn_cont p l r)"
proof (cases l)
  case (Bw_ret i tc ret)
  with assms show ?thesis
    by (cases "ret < 0"; cases "Suc i < MAX_WAKE_ITERS")
      (auto intro: answered_bad answered_limit answered_good)
next
  case (Bw_final tc)
  with assms show ?thesis by (auto intro: waker_reportI)
qed (use assms in \<open>auto simp: MAX_WAKE_ITERS_def intro: counted_start counted_length\<close>)

lemma bw_finish_ok:
  assumes "(ret = RET_ERROR \<and> w = u32_of_int RET_ERROR \<and> bw_gave_up qs) \<or>
      (0 \<le> ret \<and> w = u32_of_int ret \<and> bw_counted qs (length qs) tc)"
  shows "broadcast_ok qs w (bw_finish tc ret)"
  using assms by (cases "ret = 0") (auto simp: bw_finish_def intro: waker_reportI)

lemma broadcast_call:
  assumes "broadcast_ok (requeue_answers ans) w l" "broadcast_wakerfn_fetch p l = Syscall c"
  shows "broadcast_ok (requeue_answers (ans @ [Called t c r e])) w (broadcast_wakerfn_cont p l (Ret r e))"
proof (cases l)
  case (Bw_requeue i tc v)
  with assms answeredI [of MAX_WAKE_ITERS fst "requeue_answers ans" i tc "(r, e)"] show ?thesis by auto
next
  case (Bw_wake tc ret)
  with assms bw_finish_ok [of ret w "requeue_answers ans" tc] show ?thesis by auto
next
  case (Bw_unlock tc ret)
  with assms bw_finish_ok [of ret w "requeue_answers ans" tc] show ?thesis by auto
qed (use assms in \<open>auto simp: MAX_WAKE_ITERS_def intro: counted_start\<close>)

lemma sw_judge_ok: "sw_answered qs i tc ret \<Longrightarrow> signal_ok qs w (sw_judge i tc ret)"
  by (auto simp: sw_judge_def intro: answered_bad)

lemma sw_release_ok: "sw_answered qs i tc ret \<Longrightarrow> signal_ok qs w (sw_release p i tc ret)"
  by (auto simp: sw_release_def intro: sw_judge_ok)

lemma signal_mem:
  assumes "signal_ok qs (m (Args_ret waker_tid)) l" "exec_mem (signal_wakerfn_fetch p l) m = Some (r, m')"
  shows "signal_ok qs (m' (Args_ret waker_tid)) (signal_wakerfn_cont p l r)"
proof (cases l)
  case (Sw_usleep i tc ret)
  with assms answered_good [of SIGNAL_CALLS signal_value qs i "tc - ret" ret] show ?thesis
    by (auto simp: SIGNAL_CALLS_def intro: answered_limit)
next
  case (Sw_final tc)
  with assms show ?thesis by (auto intro: waker_reportI)
qed (use assms in \<open>auto simp: SIGNAL_CALLS_def intro: counted_start counted_length sw_release_ok split: if_splits\<close>)

lemma signal_call:
  assumes "signal_ok (requeue_answers ans) w l" "signal_wakerfn_fetch p l = Syscall c"
  shows "signal_ok (requeue_answers (ans @ [Called t c r e])) w (signal_wakerfn_cont p l (Ret r e))"
proof (cases l)
  case (Sw_requeue i tc v)
  with assms answeredI [of SIGNAL_CALLS signal_value "requeue_answers ans" i tc "(r, e)"] show ?thesis by auto
qed (use assms in \<open>auto intro: waker_reportI sw_judge_ok split: if_splits\<close>)

lemma blocker_mem:
  assumes "blocker_ok ans (m (Args_ret blocker_tid)) l" "exec_mem (third_party_blocker_fetch l) m = Some (r, m')"
  shows "blocker_ok ans (m' (Args_ret blocker_tid)) (third_party_blocker_cont l r)"
  using assms by (cases l) auto

lemma blocker_call:
  assumes "blocker_ok ans w l" "third_party_blocker_fetch l = Syscall c"
  shows "blocker_ok (ans @ [Called t c r e]) w (third_party_blocker_cont l (Ret r e))"
  using assms by (cases l) auto

section \<open>All threads together\<close>

lemma waiter_no_control [simp]: "waiterfn_fetch p i l \<noteq> Create j l0" "waiterfn_fetch p i l \<noteq> Join j"
    "waiterfn_fetch p i l \<noteq> Halt" "waiterfn_fetch p i l \<noteq> Kill j"
  by (cases l; simp)+

lemma broadcast_no_control [simp]: "broadcast_wakerfn_fetch p l \<noteq> Create j l0"
    "broadcast_wakerfn_fetch p l \<noteq> Join j" "broadcast_wakerfn_fetch p l \<noteq> Halt"
    "broadcast_wakerfn_fetch p l \<noteq> Kill j"
  by (cases l; simp)+

lemma signal_no_control [simp]: "signal_wakerfn_fetch p l \<noteq> Create j l0"
    "signal_wakerfn_fetch p l \<noteq> Join j" "signal_wakerfn_fetch p l \<noteq> Halt"
    "signal_wakerfn_fetch p l \<noteq> Kill j"
  by (cases l; simp)+

lemma blocker_no_control [simp]: "third_party_blocker_fetch l \<noteq> Create j l0"
    "third_party_blocker_fetch l \<noteq> Join j" "third_party_blocker_fetch l \<noteq> Halt"
    "third_party_blocker_fetch l \<noteq> Kill j"
  by (cases l; simp)+

lemma role_fetch:
  assumes "role_ok p t ans w l"
  shows "requeue_pi_fetch p l \<noteq> Create j l0" "requeue_pi_fetch p l \<noteq> Join j" "requeue_pi_fetch p l \<noteq> Halt"
    "requeue_pi_fetch p l \<noteq> Kill j"
  using assms by (cases l; simp)+

lemma role_mem:
  assumes "role_ok p t ans (m (Args_ret t)) l" "exec_mem (requeue_pi_fetch p l) m = Some (r, m')"
  shows "role_ok p t ans (m' (Args_ret t)) (requeue_pi_cont p l r)"
  using assms by (cases l) (auto intro: waiter_mem broadcast_mem signal_mem blocker_mem)

lemma waiter_frame: "exec_mem (waiterfn_fetch p i l) m = Some (r, m') \<Longrightarrow> u \<noteq> Suc i \<Longrightarrow>
    m' (Args_ret u) = m (Args_ret u)"
  by (cases l) (auto simp: futex_atomic_defs sync_defs)

lemma broadcast_frame: "exec_mem (broadcast_wakerfn_fetch p l) m = Some (r, m') \<Longrightarrow> u \<noteq> waker_tid \<Longrightarrow>
    m' (Args_ret u) = m (Args_ret u)"
  by (cases l) auto

lemma signal_frame: "exec_mem (signal_wakerfn_fetch p l) m = Some (r, m') \<Longrightarrow> u \<noteq> waker_tid \<Longrightarrow>
    m' (Args_ret u) = m (Args_ret u)"
  by (cases l) (auto split: if_splits)

lemma blocker_frame: "exec_mem (third_party_blocker_fetch l) m = Some (r, m') \<Longrightarrow> u \<noteq> blocker_tid \<Longrightarrow>
    m' (Args_ret u) = m (Args_ret u)"
  by (cases l) auto

lemma role_frame:
  assumes "role_ok p t ans w l" "exec_mem (requeue_pi_fetch p l) m = Some (r, m')" "u \<noteq> t"
  shows "m' (Args_ret u) = m (Args_ret u)"
  using assms by (cases l) (auto dest: waiter_frame broadcast_frame signal_frame blocker_frame)

lemma role_call:
  assumes "role_ok p t ans w l" "requeue_pi_fetch p l = Syscall c"
  shows "role_ok p t (ans @ [Called u c r e]) w (requeue_pi_cont p l (Ret r e))"
  using assms by (cases l) (auto intro: waiter_call broadcast_call signal_call blocker_call)

section \<open>The main thread\<close>

text \<open>The result the \<^verbatim>\<open>ret\<close> fields call for: that of the clock if it failed, the first one of a waiter
  that is not 0, a negative one of the waker, that of the third party.\<close>

definition unit_verdict :: "ut_param \<Rightarrow> (tid \<Rightarrow> int) \<Rightarrow> int" where
  "unit_verdict p rets =
     (if ut_clock p \<noteq> 0 then ut_clock p
      else case filter (\<lambda>x. x \<noteq> 0) (map (\<lambda>i. rets (Suc i)) [0..<THREAD_MAX]) of
             x # _ \<Rightarrow> x
           | [] \<Rightarrow> if rets waker_tid < 0 then rets waker_tid else rets blocker_tid)"

abbreviation args_rets :: "rp_loc memory \<Rightarrow> tid \<Rightarrow> int" where
  "args_rets m \<equiv> (\<lambda>t. int_of_u32 (m (Args_ret t)))"

definition started :: "(tid \<Rightarrow> rp_pc tstatus) \<Rightarrow> nat \<Rightarrow> bool" where
  [status_defs]: "started th n \<longleftrightarrow> (\<forall>t. 1 \<le> t \<and> t \<le> n \<longrightarrow> th t \<noteq> Unborn)"

definition fresh :: "(tid \<Rightarrow> rp_pc tstatus) \<Rightarrow> nat \<Rightarrow> bool" where
  [status_defs]: "fresh th n \<longleftrightarrow> (\<forall>t. n < t \<and> t \<le> waker_tid \<longrightarrow> th t = Unborn)"

definition joined :: "(tid \<Rightarrow> rp_pc tstatus) \<Rightarrow> nat \<Rightarrow> bool" where
  [status_defs]: "joined th n \<longleftrightarrow> (\<forall>t. 1 \<le> t \<and> t \<le> n \<longrightarrow> th t = Exited)"

definition third :: "ut_param \<Rightarrow> (tid \<Rightarrow> rp_pc tstatus) \<Rightarrow> bool" where
  [status_defs]: "third p th \<longleftrightarrow> (ut_owner p \<noteq> 0 \<longleftrightarrow> th blocker_tid \<noteq> Unborn)"

definition finished :: "ut_param \<Rightarrow> (tid \<Rightarrow> rp_pc tstatus) \<Rightarrow> bool" where
  [status_defs]: "finished p th \<longleftrightarrow> joined th waker_tid \<and> third p th \<and> (ut_owner p \<noteq> 0 \<longrightarrow> th blocker_tid = Exited)"

definition incomplete :: "ut_param \<Rightarrow> (tid \<Rightarrow> rp_pc tstatus) \<Rightarrow> bool" where
  [status_defs]: "incomplete p th \<longleftrightarrow>
     (\<exists>t. 1 \<le> t \<and> t \<le> blocker_tid \<and> th t = Unborn \<and> (t = blocker_tid \<longrightarrow> ut_owner p \<noteq> 0))"

text \<open>After \<open>i\<close> joins \<^verbatim>\<open>waiter_ret\<close> points to the first of the joined waiters with a result other than
  0, or to the last of them.\<close>

definition pointed :: "rp_loc memory \<Rightarrow> nat \<Rightarrow> nat \<Rightarrow> bool" where
  "pointed m i w \<longleftrightarrow>
     (if i = 0 then w = 0
      else w < i \<and> (\<forall>j<w. m (Args_ret (Suc j)) = 0) \<and> (m (Args_ret (Suc w)) \<noteq> 0 \<or> w = i - 1))"

fun main_ok :: "ut_param \<Rightarrow> (tid \<Rightarrow> rp_pc tstatus) \<Rightarrow> rp_loc memory \<Rightarrow> ut_pc \<Rightarrow> bool" where
  "main_ok p th m Ut_blocker = (fresh th 0 \<and> th blocker_tid = Unborn \<and> ut_owner p \<noteq> 0)"
| "main_ok p th m Ut_set = (fresh th 0 \<and> third p th)"
| "main_ok p th m (Ut_create i) = (i < THREAD_MAX \<and> started th i \<and> fresh th i \<and> third p th)"
| "main_ok p th m Ut_waker = (started th THREAD_MAX \<and> fresh th THREAD_MAX \<and> third p th)"
| "main_ok p th m (Ut_load i w) =
     (i < THREAD_MAX \<and> started th waker_tid \<and> third p th \<and> joined th i \<and> pointed m i w)"
| "main_ok p th m (Ut_join i w keep) =
     (i < THREAD_MAX \<and> started th waker_tid \<and> third p th \<and> joined th i \<and> pointed m i w \<and>
      (0 < i \<longrightarrow> keep = (m (Args_ret (Suc w)) \<noteq> 0)))"
| "main_ok p th m (Ut_join_blocker w) =
     (ut_owner p \<noteq> 0 \<and> started th waker_tid \<and> third p th \<and> joined th THREAD_MAX \<and> pointed m THREAD_MAX w)"
| "main_ok p th m (Ut_join_waker w) =
     (started th waker_tid \<and> third p th \<and> joined th THREAD_MAX \<and> pointed m THREAD_MAX w \<and>
      (ut_owner p \<noteq> 0 \<longrightarrow> th blocker_tid = Exited))"
| "main_ok p th m (Ut_waiter_ret w) = (finished p th \<and> pointed m THREAD_MAX w \<and> ut_clock p = 0)"
| "main_ok p th m Ut_waker_ret =
     (finished p th \<and> ut_clock p = 0 \<and> (\<forall>j<THREAD_MAX. m (Args_ret (Suc j)) = 0))"
| "main_ok p th m Ut_blocker_ret =
     (finished p th \<and> ut_clock p = 0 \<and> (\<forall>j<THREAD_MAX. m (Args_ret (Suc j)) = 0) \<and>
      0 \<le> args_rets m waker_tid)"
| "main_ok p th m (Ut_done ret) =
     ((ret = RET_ERROR \<and> incomplete p th) \<or> (finished p th \<and> ret = unit_verdict p (args_rets m)))"

definition rp_inv :: "ut_param \<Rightarrow> (rp_loc, rp_pc) lstate \<Rightarrow> bool" where
  "rp_inv p s \<longleftrightarrow> lthr s 0 = Exited \<or>
     ((\<exists>l. lthr s 0 = Running (Main l) \<and> main_ok p (lthr s) (lmem s) l) \<and>
      (\<forall>t>0. thread_ok p t (answers t (llog s)) (lmem s (Args_ret t)) (lthr s t)))"

lemma tid_simps [simp]: "0 < waker_tid" "0 < blocker_tid" "waker_tid \<noteq> 0" "blocker_tid \<noteq> 0"
  "waker_tid = Suc THREAD_MAX" "blocker_tid \<noteq> Suc THREAD_MAX" "Suc THREAD_MAX \<noteq> blocker_tid"
  "Suc THREAD_MAX < blocker_tid" "0 < THREAD_MAX" "\<not> blocker_tid \<le> Suc THREAD_MAX"
  by (simp_all add: waker_tid_def blocker_tid_def THREAD_MAX_def)

lemma int_of_u32_zero [simp]: "int_of_u32 v = 0 \<longleftrightarrow> v = 0"
  by (simp add: signed_eq_0_iff)

lemma pointed_verdict:
  assumes "pointed m THREAD_MAX w" "ut_clock p = 0" "m (Args_ret (Suc w)) \<noteq> 0"
  shows "unit_verdict p (args_rets m) = int_of_u32 (m (Args_ret (Suc w)))"
proof -
  from assms(1) have w: "w < THREAD_MAX" "\<forall>j<w. m (Args_ret (Suc j)) = 0"
    by (auto simp: pointed_def)
  have "[0..<THREAD_MAX] = [0..<w] @ w # [Suc w..<THREAD_MAX]"
    using w(1) upt_add_eq_append [of 0 w "THREAD_MAX - w"] by (simp add: upt_conv_Cons)
  moreover have "filter (\<lambda>x. x \<noteq> 0) (map (\<lambda>i. args_rets m (Suc i)) [0..<w]) = []"
    using w(2) by (simp add: filter_empty_conv)
  ultimately show ?thesis using assms(2,3) by (simp add: unit_verdict_def)
qed

lemma pointed_zero:
  assumes "pointed m THREAD_MAX w" "m (Args_ret (Suc w)) = 0"
  shows "\<forall>j<THREAD_MAX. m (Args_ret (Suc j)) = 0"
  using assms by (auto simp: pointed_def less_Suc_eq split: if_splits) (metis Suc_pred less_Suc_eq tid_simps(9))

lemma all_zero_verdict:
  assumes "\<forall>j<THREAD_MAX. m (Args_ret (Suc j)) = 0" "ut_clock p = 0"
  shows "unit_verdict p (args_rets m) =
    (if args_rets m waker_tid < 0 then args_rets m waker_tid else args_rets m blocker_tid)"
proof -
  have "filter (\<lambda>x. x \<noteq> 0) (map (\<lambda>i. args_rets m (Suc i)) [0..<THREAD_MAX]) = []"
    using assms(1) by (simp add: filter_empty_conv)
  then show ?thesis using assms(2) by (simp add: unit_verdict_def del: tid_simps)
qed

text \<open>The steps of other threads do not disturb the main thread's invariant.\<close>

lemma joined_keeps:
  assumes "joined th i" "th t \<noteq> Exited" "\<forall>u. u \<noteq> t \<longrightarrow> m' (Args_ret u) = m (Args_ret u)" "j < i"
  shows "m' (Args_ret (Suc j)) = m (Args_ret (Suc j))"
proof -
  from assms(1,4) have "th (Suc j) = Exited" by (simp add: joined_def)
  with assms(2) have "Suc j \<noteq> t" by auto
  with assms(3) show ?thesis by blast
qed

lemma pointed_cong:
  assumes "joined th i" "th t \<noteq> Exited" "\<forall>u. u \<noteq> t \<longrightarrow> m' (Args_ret u) = m (Args_ret u)" "pointed m i w"
  shows "pointed m' i w"
proof (cases "i = 0")
  case False
  with assms(4) have w: "w < i" "\<forall>j<w. m (Args_ret (Suc j)) = 0" "m (Args_ret (Suc w)) \<noteq> 0 \<or> w = i - 1"
    by (auto simp: pointed_def)
  moreover from w(1) joined_keeps [OF assms(1-3)] have
    "m' (Args_ret (Suc j)) = m (Args_ret (Suc j))" if "j \<le> w" for j using that by simp
  ultimately show ?thesis using False by (simp add: pointed_def)
qed (use assms in \<open>simp add: pointed_def\<close>)

lemma joined_other: "joined th n \<Longrightarrow> th t \<noteq> Exited \<Longrightarrow> joined (th(t := st)) n"
  and started_other: "started th n \<Longrightarrow> st \<noteq> Unborn \<Longrightarrow> started (th(t := st)) n"
  and fresh_other: "fresh th n \<Longrightarrow> th t \<noteq> Unborn \<Longrightarrow> fresh (th(t := st)) n"
  and third_other: "third p th \<Longrightarrow> th t \<noteq> Unborn \<Longrightarrow> st \<noteq> Unborn \<Longrightarrow> third p (th(t := st))"
  by (auto simp: status_defs)

lemma finished_other: "finished p th \<Longrightarrow> th t \<noteq> Unborn \<Longrightarrow> th t \<noteq> Exited \<Longrightarrow> 0 < t \<Longrightarrow>
    t \<le> waker_tid \<or> t = blocker_tid \<Longrightarrow> False"
  by (auto simp: finished_def joined_def third_def)

lemma incomplete_other: "incomplete p th \<Longrightarrow> th t \<noteq> Unborn \<Longrightarrow> incomplete p (th(t := st))"
  by (auto simp: incomplete_def)

lemmas other_intros = joined_other started_other fresh_other third_other incomplete_other

lemma main_other:
  assumes "main_ok p th m l" "th t \<noteq> Unborn" "th t \<noteq> Exited" "st \<noteq> Unborn" "0 < t"
    "t \<le> waker_tid \<or> t = blocker_tid" "\<forall>u. u \<noteq> t \<longrightarrow> m' (Args_ret u) = m (Args_ret u)"
  shows "main_ok p (th(t := st)) m' l"
proof (cases l)
  case (Ut_join i w keep)
  have "m' (Args_ret (Suc w)) = m (Args_ret (Suc w))" if "0 < i"
    using that assms(1,3,7) Ut_join joined_keeps [of th i t m' m w] by (auto simp: pointed_def)
  with Ut_join assms show ?thesis by (auto intro: other_intros pointed_cong)
next
  case (Ut_join_blocker w)
  with assms show ?thesis by (auto intro: other_intros pointed_cong)
next
  case (Ut_join_waker w)
  with assms show ?thesis by (auto intro: other_intros pointed_cong)
qed (use assms in \<open>auto intro: other_intros pointed_cong dest: finished_other\<close>)

text \<open>The main thread's own steps.\<close>

lemma self_simps [simp]:
  "joined (th(0 := st)) n = joined th n" "started (th(0 := st)) n = started th n"
  "fresh (th(0 := st)) n = fresh th n" "third p (th(0 := st)) = third p th"
  "finished p (th(0 := st)) = finished p th" "incomplete p (th(0 := st)) = incomplete p th"
proof -
  show 1: "joined (th(0 := st)) n = joined th n" for n by (auto simp: joined_def)
  show "started (th(0 := st)) n = started th n" by (auto simp: started_def)
  show "fresh (th(0 := st)) n = fresh th n" by (auto simp: fresh_def)
  show 2: "third p (th(0 := st)) = third p th" by (simp add: third_def)
  show "finished p (th(0 := st)) = finished p th" by (simp add: finished_def 1 2)
  show "incomplete p (th(0 := st)) = incomplete p th"
    unfolding incomplete_def by (rule ex_cong1) auto
qed

lemma main_self [simp]: "main_ok p (th(0 := st)) m l = main_ok p th m l"
  by (cases l) (auto simp del: tid_simps(5))

lemma main_frame:
  "exec_mem (unit_test_fetch p l) m = Some (r, m') \<Longrightarrow> m' (Args_ret u) = m (Args_ret u)"
  by (cases l) (auto split: if_splits)

lemma incompleteI:
  "fresh th n \<Longrightarrow> n < t \<Longrightarrow> t \<le> waker_tid \<Longrightarrow> incomplete p th"
  "th blocker_tid = Unborn \<Longrightarrow> ut_owner p \<noteq> 0 \<Longrightarrow> incomplete p th"
proof -
  assume "fresh th n" "n < t" "t \<le> waker_tid"
  then have "th t = Unborn" "1 \<le> t" "t < blocker_tid"
    using tid_simps(8) by (simp_all add: fresh_def del: tid_simps(8))
  then show "incomplete p th" unfolding incomplete_def by (intro exI [of _ t]) simp
next
  assume "th blocker_tid = Unborn" "ut_owner p \<noteq> 0"
  then show "incomplete p th" unfolding incomplete_def
    by (intro exI [of _ blocker_tid]) (simp add: blocker_tid_def)
qed

lemma exec_LoadD:
  assumes "exec_mem (unit_test_fetch p l) m = Some (r, m')" "unit_test_fetch p l = Load a"
  shows "r = Val (m a)" "m' = m"
  using assms by auto

lemma main_mem:
  assumes ok: "main_ok p th m l" and x: "exec_mem (unit_test_fetch p l) m = Some (r, m')"
  shows "main_ok p th m' (unit_test_cont p l r)"
proof (cases l)
  case (Ut_waiter_ret w)
  from Ut_waiter_ret have r: "r = Val (m (Args_ret (Suc w)))" "m' = m" by (simp_all add: exec_LoadD [OF x])
  from Ut_waiter_ret ok have o: "finished p th" "ut_clock p = 0" "pointed m THREAD_MAX w" by simp_all
  show ?thesis
  proof (cases "m (Args_ret (Suc w)) = 0")
    case True
    with r Ut_waiter_ret o(1,2) pointed_zero [OF o(3)] show ?thesis by simp
  next
    case False
    with r Ut_waiter_ret o(1,2) pointed_verdict [OF o(3,2)] show ?thesis by simp
  qed
next
  case Ut_waker_ret
  then have r: "r = Val (m (Args_ret waker_tid))" "m' = m" by (simp_all add: exec_LoadD [OF x])
  from Ut_waker_ret ok have "finished p th" "ut_clock p = 0" "\<forall>j<THREAD_MAX. m (Args_ret (Suc j)) = 0"
    by simp_all
  with r Ut_waker_ret all_zero_verdict [of m p] show ?thesis by simp
next
  case Ut_blocker_ret
  then have r: "r = Val (m (Args_ret blocker_tid))" "m' = m" by (simp_all add: exec_LoadD [OF x])
  from Ut_blocker_ret ok have "finished p th" "ut_clock p = 0" "\<forall>j<THREAD_MAX. m (Args_ret (Suc j)) = 0"
    "0 \<le> args_rets m waker_tid" by simp_all
  with r Ut_blocker_ret all_zero_verdict [of m p] show ?thesis by simp
next
  case (Ut_create i)
  with ok x incompleteI(1) [of th i "Suc i" p] show ?thesis by (simp split: if_splits)
next
  case Ut_waker
  with ok x incompleteI(1) [of th THREAD_MAX waker_tid p] show ?thesis by (simp split: if_splits)
next
  case Ut_set
  with ok x show ?thesis by (simp add: started_def)
next
  case Ut_blocker
  with ok x incompleteI(2) [of th p] show ?thesis by (simp split: if_splits)
next
  case (Ut_load i w)
  with ok x show ?thesis by auto
qed (use x in simp_all)

lemma pointed_next:
  assumes "pointed m i w" "0 < i \<longrightarrow> keep = (m (Args_ret (Suc w)) \<noteq> 0)"
  shows "pointed m (Suc i) (if keep then w else i)"
proof (cases "i = 0")
  case False
  with assms(1) have w: "w < i" "\<forall>j<w. m (Args_ret (Suc j)) = 0" "m (Args_ret (Suc w)) \<noteq> 0 \<or> w = i - 1"
    by (auto simp: pointed_def)
  show ?thesis
  proof (cases keep)
    case True
    with False w assms(2) show ?thesis by (simp add: pointed_def)
  next
    case nokeep: False
    with False assms(2) w(3) have "m (Args_ret (Suc w)) = 0" "Suc w = i" by auto
    with w(2) have "\<forall>j<i. m (Args_ret (Suc j)) = 0" by (auto simp: less_Suc_eq)
    with nokeep show ?thesis by (simp add: pointed_def)
  qed
qed (use assms in \<open>auto simp: pointed_def\<close>)

lemma joined_Suc: "joined th n \<Longrightarrow> th (Suc n) = Exited \<Longrightarrow> joined th (Suc n)"
  by (auto simp: joined_def le_Suc_eq)

lemma main_join:
  assumes "main_ok p th m l" "unit_test_fetch p l = Join j" "th j = Exited"
  shows "main_ok p th m (unit_test_cont p l (Ret 0 0))"
proof (cases l)
  case (Ut_join i w keep)
  then have "i < THREAD_MAX" "started th waker_tid" "third p th" "joined th (Suc i)"
    "pointed m (Suc i) (if keep then w else i)"
    using assms pointed_next [of m i w keep] joined_Suc [of th i] by simp_all
  with Ut_join show ?thesis
    by (cases "Suc i = THREAD_MAX") (simp_all add: ut_join_rest_def del: tid_simps(5))
next
  case (Ut_join_waker w)
  with assms joined_Suc [of th THREAD_MAX] show ?thesis
    by (auto simp: finished_def unit_verdict_def)
qed (use assms in \<open>auto simp: ut_join_rest_def\<close>)

lemma fresh_Suc: "fresh th n \<Longrightarrow> fresh (th(Suc n := st)) (Suc n)"
  and started_Suc: "started th n \<Longrightarrow> st \<noteq> Unborn \<Longrightarrow> started (th(Suc n := st)) (Suc n)"
  by (auto simp: fresh_def started_def le_Suc_eq)

lemma third_low: "third p th \<Longrightarrow> n < THREAD_MAX \<or> n = THREAD_MAX \<Longrightarrow> third p (th(Suc n := st))"
  by (auto simp: third_def blocker_tid_def THREAD_MAX_def)

lemma main_create:
  assumes "main_ok p th m l" "unit_test_fetch p l = Create j l0"
  shows "main_ok p (th(j := Running l0)) m (unit_test_cont p l (Ret 0 0))" "role_ok p j [] w l0"
proof -
  from assms(2) have a: "attr_ok (ut_attr p)" by (cases l) auto
  show "role_ok p j [] w l0" using assms by (cases l) (auto simp: wakerfn_def)
  show "main_ok p (th(j := Running l0)) m (unit_test_cont p l (Ret 0 0))"
  proof (cases l)
    case Ut_blocker
    with assms a show ?thesis by (auto simp: fresh_def third_def)
  next
    case (Ut_create i)
    then have j: "j = Suc i" and ok: "i < THREAD_MAX" "started th i" "fresh th i" "third p th"
      using assms by auto
    have "main_ok p (th(Suc i := Running l0)) m (if Suc i < THREAD_MAX then Ut_create (Suc i) else Ut_waker)"
      using started_Suc [OF ok(2), of "Running l0"] fresh_Suc [OF ok(3), of "Running l0"]
        third_low [OF ok(4), of i "Running l0"] ok(1) by (cases "Suc i = THREAD_MAX") auto
    with Ut_create a j show ?thesis by simp
  next
    case Ut_waker
    with assms a started_Suc [of th THREAD_MAX "Running l0"] third_low [of p th THREAD_MAX "Running l0"]
    show ?thesis by (auto simp: ut_join_rest_def joined_def pointed_def)
  qed (use assms in auto)
qed

lemma main_create_fail:
  assumes "main_ok p th m l" "unit_test_fetch p l = Create j l0" "r \<noteq> 0"
  shows "main_ok p th m (unit_test_cont p l (Ret r e))"
proof -
  from assms(2) have a: "attr_ok (ut_attr p)" by (cases l) auto
  then show ?thesis using assms
    by (cases l) (auto intro: incompleteI incompleteI(1) [of th _ waker_tid])
qed

section \<open>The invariant is kept\<close>

definition rp_active :: "ut_param \<Rightarrow> (rp_loc, rp_pc) lstate \<Rightarrow> ut_pc \<Rightarrow> bool" where
  "rp_active p s l \<longleftrightarrow> lthr s 0 = Running (Main l) \<and> main_ok p (lthr s) (lmem s) l \<and>
     (\<forall>t>0. thread_ok p t (answers t (llog s)) (lmem s (Args_ret t)) (lthr s t))"

lemma rp_inv_active: "rp_inv p s \<longleftrightarrow> lthr s 0 = Exited \<or> (\<exists>l. rp_active p s l)"
  by (auto simp: rp_inv_def rp_active_def)

lemma role_tid: "role_ok p t ans w l \<Longrightarrow> 0 < t \<and> (t \<le> waker_tid \<or> t = blocker_tid)"
  by (cases l) auto

lemma active_role:
  assumes "rp_active p s l0" "lthr s t = Running l \<or> lthr s t = Blocked l" "t \<noteq> 0"
  shows "role_ok p t (answers t (llog s)) (lmem s (Args_ret t)) l"
proof -
  have "thread_ok p t (answers t (llog s)) (lmem s (Args_ret t)) (lthr s t)"
    using assms(1,3) by (simp add: rp_active_def)
  with assms(2) show ?thesis by (auto simp: thread_ok_def)
qed

lemma active_main:
  assumes "rp_active p s l0" "lthr s 0 = Running l \<or> lthr s 0 = Blocked l"
  shows "l = Main l0" "main_ok p (lthr s) (lmem s) l0"
  using assms by (auto simp: rp_active_def)

lemma child_step:
  assumes act: "rp_active p s l0" and t: "lthr s t = Running l \<or> lthr s t = Blocked l" "t \<noteq> 0" "st \<noteq> Unborn"
    and ok: "thread_ok p t (answers t log) (m (Args_ret t)) st"
    and m: "\<forall>u. u \<noteq> t \<longrightarrow> m (Args_ret u) = lmem s (Args_ret u)"
    and log: "\<forall>u. u \<noteq> t \<longrightarrow> answers u log = answers u (llog s)"
  shows "rp_inv p (lgoto t st (s\<lparr>lmem := m, llog := log\<rparr>))"
proof -
  have "main_ok p ((lthr s)(t := st)) m l0"
    using act t role_tid [OF active_role [OF act t(1,2)]] m
    by (intro main_other) (auto simp: rp_active_def)
  then have "rp_active p (lgoto t st (s\<lparr>lmem := m, llog := log\<rparr>)) l0"
    using act t(2) ok m log by (auto simp: rp_active_def)
  then show ?thesis by (auto simp: rp_inv_active)
qed

lemma main_step:
  assumes act: "rp_active p s l0" and ok: "main_ok p (lthr s) m l"
    and m: "\<forall>u. m (Args_ret u) = lmem s (Args_ret u)"
    and log: "\<forall>u>0. answers u log = answers u (llog s)"
  shows "rp_inv p (lgoto 0 (Running (Main l)) (s\<lparr>lmem := m, llog := log\<rparr>))"
proof -
  have "rp_active p (lgoto 0 (Running (Main l)) (s\<lparr>lmem := m, llog := log\<rparr>)) l"
    using assms by (auto simp: rp_active_def)
  then show ?thesis by (auto simp: rp_inv_active)
qed

lemma unit_test_no_call: "unit_test_fetch p l \<noteq> Syscall c" "unit_test_fetch p l \<noteq> Exit"
    "unit_test_fetch p l \<noteq> Kill j"
  by (cases l; simp)+

lemma kept_mem:
  assumes act: "rp_active p s l0" and t: "lthr s t = Running l"
    and x: "exec_mem (requeue_pi_fetch p l) (lmem s) = Some (r, m)"
  shows "rp_inv p (lgoto t (Running (requeue_pi_cont p l r)) (s\<lparr>lmem := m\<rparr>))"
proof (cases "t = 0")
  case True
  with t active_main [OF act, of l] have l: "l = Main l0" "main_ok p (lthr s) (lmem s) l0" by auto
  with x main_mem [of p "lthr s" "lmem s" l0 r m] main_frame [of p l0 "lmem s" r m] True
    main_step [OF act, of m "unit_test_cont p l0 r" "llog s"]
  show ?thesis by simp
next
  case False
  note role = active_role [OF act disjI1 [OF t] False]
  have "thread_ok p t (answers t (llog s)) (m (Args_ret t)) (Running (requeue_pi_cont p l r))"
    using role_mem [OF role x] by (simp add: thread_ok_def)
  with role_frame [OF role x] child_step [OF act disjI1 [OF t] False, of "Running (requeue_pi_cont p l r)" "llog s" m]
  show ?thesis by simp
qed

lemma kept_call:
  assumes act: "rp_active p s l0" and t: "lthr s t = Running l \<or> lthr s t = Blocked l"
    and x: "requeue_pi_fetch p l = Syscall c" and m: "\<And>u. m (Args_ret u) = lmem s (Args_ret u)"
  shows "rp_inv p (lgoto t (Running (requeue_pi_cont p l (Ret r e))) (s\<lparr>lmem := m, llog := llog s @ [Called t c r e]\<rparr>))"
    "rp_inv p (lgoto t (Blocked l) (s\<lparr>lmem := m\<rparr>))"
proof -
  have t0: "t \<noteq> 0"
  proof
    assume "t = 0"
    with t active_main [OF act, of l] have "l = Main l0" by auto
    with x show False by (simp add: unit_test_no_call)
  qed
  note role = active_role [OF act t t0]
  have "thread_ok p t (answers t (llog s) @ [Called t c r e]) (m (Args_ret t)) (Running (requeue_pi_cont p l (Ret r e)))"
    using role_call [OF role x, of t r e] m by (simp add: thread_ok_def)
  with m child_step [OF act t t0, of "Running (requeue_pi_cont p l (Ret r e))" "llog s @ [Called t c r e]" m]
  show "rp_inv p (lgoto t (Running (requeue_pi_cont p l (Ret r e))) (s\<lparr>lmem := m, llog := llog s @ [Called t c r e]\<rparr>))"
    by simp
  have "thread_ok p t (answers t (llog s)) (m (Args_ret t)) (Blocked l)"
    using role m by (simp add: thread_ok_def)
  with m child_step [OF act t t0, of "Blocked l" "llog s" m]
  show "rp_inv p (lgoto t (Blocked l) (s\<lparr>lmem := m\<rparr>))" by simp
qed

lemma kept_control:
  assumes act: "rp_active p s l0" and t: "lthr s t = Running l"
    and x: "requeue_pi_fetch p l = Create j l1 \<or> requeue_pi_fetch p l = Join j \<or> requeue_pi_fetch p l = Halt \<or>
      requeue_pi_fetch p l = Kill j"
  shows "t = 0" "l = Main l0" "main_ok p (lthr s) (lmem s) l0"
proof -
  show "t = 0"
  proof (rule ccontr)
    assume "t \<noteq> 0"
    from role_fetch [OF active_role [OF act disjI1 [OF t] this]] x show False by blast
  qed
  with t active_main [OF act, of l] show "l = Main l0" "main_ok p (lthr s) (lmem s) l0" by auto
qed

lemma kept_create:
  assumes act: "rp_active p s l0" and x: "unit_test_fetch p l0 = Create j l1" and j: "lthr s j = Unborn"
  shows "rp_inv p (lgoto 0 (Running (Main (unit_test_cont p l0 (Ret 0 0))))
    (lgoto j (Running l1) (s\<lparr>llog := llog s @ [Created j 0]\<rparr>)))"
proof -
  have main: "main_ok p (lthr s) (lmem s) l0" using act by (simp add: rp_active_def)
  have j0: "j \<noteq> 0" using act j by (intro notI) (simp add: rp_active_def)
  have "thread_ok p j (answers j (llog s)) (lmem s (Args_ret j)) (lthr s j)"
    using act j0 by (simp add: rp_active_def)
  with j have "answers j (llog s) = []" by (simp add: thread_ok_def)
  then have "thread_ok p j (answers j (llog s)) (lmem s (Args_ret j)) (Running l1)"
    using main_create(2) [OF main x] by (simp add: thread_ok_def)
  with main_create(1) [OF main x] act j0
  have "rp_active p (lgoto 0 (Running (Main (unit_test_cont p l0 (Ret 0 0))))
    (lgoto j (Running l1) (s\<lparr>llog := llog s @ [Created j 0]\<rparr>))) (unit_test_cont p l0 (Ret 0 0))"
    by (auto simp: rp_active_def)
  then show ?thesis by (auto simp: rp_inv_active)
qed

lemma rp_inv_kept:
  assumes inv: "rp_inv p s" and step: "lstep (requeue_pi p) {F1, F2, Wake_complete} s s'"
  shows "rp_inv p s'"
proof (cases "lthr s 0 = Exited")
  case True
  with exited_stays [OF step] show ?thesis by (simp add: rp_inv_def)
next
  case False
  with inv obtain l0 where act: "rp_active p s l0" by (auto simp: rp_inv_active)
  from step show ?thesis
  proof cases
    case (l_mem t l r m)
    with kept_mem [OF act] show ?thesis by simp
  next
    case (l_call t l c m r e)
    with kept_call(1) [OF act, of t l c m r e] show ?thesis by simp
  next
    case (l_block t l c m)
    with kept_call(2) [OF act, of t l c m] show ?thesis by simp
  next
    case (l_create t l j l1)
    with kept_control [OF act, of t l j l1] kept_create [OF act, of j l1] show ?thesis by simp
  next
    case (l_create_fail t l j l1 r)
    with kept_control [OF act, of t l j l1] main_create_fail [of p "lthr s" "lmem s" l0 j l1 r 0]
      main_step [OF act, of "lmem s" "unit_test_cont p l0 (Ret r 0)" "llog s @ [Created j r]"]
    show ?thesis by simp
  next
    case (l_join t l j)
    with kept_control [OF act, of t l j] main_join [of p "lthr s" "lmem s" l0 j]
      main_step [OF act, of "lmem s" "unit_test_cont p l0 (Ret 0 0)" "llog s"]
    show ?thesis by simp
  next
    case (l_kill t l j)
    with kept_control [OF act, of t l j] have "unit_test_fetch p l0 = Kill j" by simp
    then show ?thesis by (cases l0) (auto split: if_splits)
  next
    case (l_exit t l)
    have t0: "t \<noteq> 0"
    proof
      assume "t = 0"
      with l_exit active_main [OF act, of l] have "l = Main l0" by auto
      with l_exit show False by (simp add: unit_test_no_call)
    qed
    from active_role [OF act disjI1 [OF l_exit(2)] t0] l_exit(3)
    have "thread_ok p t (answers t (llog s)) (lmem s (Args_ret t)) Exited" by (auto simp: thread_ok_def)
    with l_exit child_step [OF act disjI1 [OF l_exit(2)] t0, of Exited "llog s" "lmem s"] show ?thesis by simp
  next
    case (l_halt t l)
    then show ?thesis by (simp add: rp_inv_def)
  qed
qed

lemma rp_inv_start: "linit (ut_start p) (rp_memory stack) s \<Longrightarrow> rp_inv p s"
  by (auto simp: rp_inv_def linit_def start_threads_def ut_start_def thread_ok_def status_defs
      rp_memory_def THREAD_MAX_def blocker_tid_def)

interpretation rp: test_program "requeue_pi p" "{F1, F2, Wake_complete}" "ut_start p" "rp_memory stack" "rp_inv p"
  for p stack
  by unfold_locales (rule rp_inv_start, assumption, rule rp_inv_kept)

end
