(* ===== verification/Requeue_Pi_Props.thy ===== *)
theory Requeue_Pi_Props
  imports Requeue_Pi_Runs
begin

text \<open>
  What \<^verbatim>\<open>functional/futex_requeue_pi.c\<close> guarantees, on any kernel that writes to the three futexes
  only: its result (\<open>unit_test_verdict\<close>, \<open>requeue_pi_pass\<close>), the bound on the calls of the wakers
  and that they end (\<open>waker_calls_bounded\<close>, \<open>wakers_terminate\<close>), the absolute timeout
  (\<open>abs_timeout_exact\<close>), the options (\<open>requeue_pi_option_order\<close>), and where its threads can be
  (\<open>requeue_pi_typed\<close>).
\<close>

section \<open>What an ended thread leaves\<close>

lemma exit_pc:
  assumes "role_ok p t ans w l" "requeue_pi_fetch p l = Exit"
  obtains (waiter) i where "i < THREAD_MAX" "t = Suc i" "l = Waiter i Wt_exit"
  | (broadcast) "t = waker_tid" "ut_broadcast p \<noteq> 0" "l = Broadcast Bw_exit"
  | (signal) "t = waker_tid" "ut_broadcast p = 0" "l = Signal Sw_exit"
  | (blocker) "t = blocker_tid" "l = Blocker Tb_exit"
proof (cases l)
  case (Waiter i wl)
  with assms show ?thesis by (cases wl) (auto intro: waiter)
next
  case (Broadcast bl)
  with assms show ?thesis by (cases bl) (auto intro: broadcast)
next
  case (Signal sl)
  with assms show ?thesis by (cases sl) (auto intro: signal split: if_splits)
next
  case (Blocker tl)
  with assms show ?thesis by (cases tl) (auto intro: blocker)
qed (use assms in simp)

lemma exited_role:
  assumes "thread_ok p t ans w Exited"
  obtains l where "role_ok p t ans w l" "requeue_pi_fetch p l = Exit"
  using assms by (auto simp: thread_ok_def)

lemma tids_differ [simp]: "i < THREAD_MAX \<Longrightarrow> i \<noteq> THREAD_MAX" "i < THREAD_MAX \<Longrightarrow> Suc i \<noteq> blocker_tid"
  "i < THREAD_MAX \<Longrightarrow> blocker_tid \<noteq> Suc i" "i < THREAD_MAX \<Longrightarrow> THREAD_MAX \<noteq> i"
  by (auto simp: blocker_tid_def THREAD_MAX_def)

lemma waiter_exited:
  assumes "thread_ok p (Suc i) ans w Exited" "i < THREAD_MAX"
  shows "waiter_ok p ans w Wt_exit"
proof -
  from assms(1) obtain l where l: "role_ok p (Suc i) ans w l" "requeue_pi_fetch p l = Exit" by (rule exited_role)
  from l assms(2) show ?thesis by (cases rule: exit_pc [OF l]) auto
qed

lemma waiter_value_zero:
  "s32 (waiter_value p r e) = 0 \<longleftrightarrow> (if r < 0 then ut_timeout p \<noteq> None \<and> e = ETIMEDOUT else s32 r = 0)"
proof -
  have "s32 RET_ERROR \<noteq> 0" by (simp add: RET_ERROR_def s32_id INT_MIN_def INT_MAX_def)
  then show ?thesis by (auto simp: waiter_value_def waiter_fix_def)
qed

lemma waker_exited:
  assumes "thread_ok p waker_tid ans w Exited"
  shows "if ut_broadcast p \<noteq> 0 then bw_report (requeue_answers ans) w else sw_report (requeue_answers ans) w"
proof -
  from assms obtain l where l: "role_ok p waker_tid ans w l" "requeue_pi_fetch p l = Exit" by (rule exited_role)
  from l show ?thesis by (cases rule: exit_pc [OF l]) auto
qed

lemma blocker_exited:
  assumes "thread_ok p blocker_tid ans w Exited"
  shows "blocker_ok ans w Tb_exit"
proof -
  from assms obtain l where l: "role_ok p blocker_tid ans w l" "requeue_pi_fetch p l = Exit" by (rule exited_role)
  from l show ?thesis by (cases rule: exit_pc [OF l]) auto
qed

lemma unit_verdict_zero:
  assumes "unit_verdict p rets = 0"
  shows "ut_clock p = 0" "i < THREAD_MAX \<Longrightarrow> rets (Suc i) = 0" "0 \<le> rets waker_tid" "rets blocker_tid = 0"
proof -
  let ?bad = "filter (\<lambda>x. x \<noteq> 0) (map (\<lambda>i. rets (Suc i)) [0..<THREAD_MAX])"
  show clock: "ut_clock p = 0" using assms by (simp add: unit_verdict_def split: if_splits)
  have "?bad = []"
  proof (cases ?bad)
    case (Cons x xs)
    then have "x \<noteq> 0" using filter_eq_ConsD [OF Cons] by auto
    moreover from Cons assms clock have "x = 0" by (simp add: unit_verdict_def)
    ultimately show ?thesis by simp
  qed
  then show "i < THREAD_MAX \<Longrightarrow> rets (Suc i) = 0" by (auto simp: filter_empty_conv)
  from \<open>?bad = []\<close> assms clock show "0 \<le> rets waker_tid" "rets blocker_tid = 0"
    by (simp_all add: unit_verdict_def del: tid_simps(5) split: if_splits)
qed

text \<open>The count of a waker stays an \<^verbatim>\<open>int\<close> if no call reports more than the ten threads.\<close>

lemma counted_range:
  assumes "counted N f qs i tc" "\<forall>q\<in>set qs. f q \<le> int THREAD_MAX" "N \<le> SIGNAL_CALLS"
  shows "0 \<le> int_of_u32 (u32_of_int tc)"
proof -
  have "0 \<le> sum_list (map f qs) \<and> sum_list (map f qs) \<le> int (THREAD_MAX * length qs)"
    if "list_all (\<lambda>q. 0 \<le> f q) qs" using that assms(2) by (induction qs) auto
  with assms have "0 \<le> tc" "tc \<le> INT_MAX"
    by (auto simp: counted_def SIGNAL_CALLS_def THREAD_MAX_def MAX_WAKE_ITERS_def INT_MAX_def)
  then have "s32 tc = tc" by (intro s32_id) (simp_all add: INT_MIN_def)
  with \<open>0 \<le> tc\<close> show ?thesis by (simp add: sint_u32_of_int)
qed

lemma waker_report_good:
  assumes "waker_report N f qs w" "0 \<le> int_of_u32 w"
  shows "list_all (\<lambda>q. 0 \<le> f q) qs \<and> length qs < N"
proof -
  have "int_of_u32 (u32_of_int RET_ERROR) < 0" by (simp add: sint_u32_of_int RET_ERROR_def s32_id INT_MIN_def INT_MAX_def)
  with assms show ?thesis by (auto simp: waker_report_def counted_def)
qed

section \<open>How long the wakers run\<close>

text \<open>The number of steps a waker still makes at most, from its control point.\<close>

fun sw_rank :: "sw_pc \<Rightarrow> nat" where
  "sw_rank Sw_pause = 8 * SIGNAL_CALLS + 4"
| "sw_rank (Sw_test i tc ret) = 8 * (SIGNAL_CALLS - i) + 3"
| "sw_rank (Sw_lock i tc) = 8 * (SIGNAL_CALLS - i) + 2"
| "sw_rank (Sw_read i tc) = 8 * (SIGNAL_CALLS - i) + 1"
| "sw_rank (Sw_requeue i tc v) = 8 * (SIGNAL_CALLS - i)"
| "sw_rank (Sw_ret i tc res errno) = 8 * (SIGNAL_CALLS - i) - 1"
| "sw_rank (Sw_errno i tc ret) = 8 * (SIGNAL_CALLS - i) - 2"
| "sw_rank (Sw_unlock i tc ret) = 8 * (SIGNAL_CALLS - i) - 3"
| "sw_rank (Sw_usleep i tc ret) = 8 * (SIGNAL_CALLS - i) - 4"
| "sw_rank (Sw_error tc) = 3"
| "sw_rank (Sw_wake tc ret) = 2"
| "sw_rank (Sw_final tc) = 1"
| "sw_rank _ = 0"

text \<open>The control points after the polling loop, with the counter in its range.\<close>

fun sw_going :: "sw_pc \<Rightarrow> bool" where
  "sw_going Sw_poll = False"
| "sw_going Sw_nap = False"
| "sw_going (Sw_test i tc ret) = (i < SIGNAL_CALLS)"
| "sw_going (Sw_lock i tc) = (i < SIGNAL_CALLS)"
| "sw_going (Sw_read i tc) = (i < SIGNAL_CALLS)"
| "sw_going (Sw_requeue i tc v) = (i < SIGNAL_CALLS)"
| "sw_going (Sw_ret i tc res errno) = (i < SIGNAL_CALLS)"
| "sw_going (Sw_errno i tc ret) = (i < SIGNAL_CALLS)"
| "sw_going (Sw_unlock i tc ret) = (i < SIGNAL_CALLS)"
| "sw_going (Sw_usleep i tc ret) = (i < SIGNAL_CALLS)"
| "sw_going _ = True"

fun bw_rank :: "bw_pc \<Rightarrow> nat" where
  "bw_rank Bw_pause = 4 * MAX_WAKE_ITERS + 6"
| "bw_rank Bw_lock = 4 * MAX_WAKE_ITERS + 5"
| "bw_rank (Bw_read i tc) = 4 * (MAX_WAKE_ITERS - i) + 4"
| "bw_rank (Bw_requeue i tc v) = 4 * (MAX_WAKE_ITERS - i) + 3"
| "bw_rank (Bw_ret i tc ret) = 4 * (MAX_WAKE_ITERS - i) + 2"
| "bw_rank (Bw_check i tc ret) = 4 * (MAX_WAKE_ITERS - i) + 5"
| "bw_rank (Bw_error tc) = 4"
| "bw_rank (Bw_wake tc ret) = 3"
| "bw_rank (Bw_unlock tc ret) = 2"
| "bw_rank (Bw_final tc) = 1"
| "bw_rank _ = 0"

fun bw_going :: "bw_pc \<Rightarrow> bool" where
  "bw_going Bw_poll = False"
| "bw_going Bw_nap = False"
| "bw_going (Bw_read i tc) = (i < MAX_WAKE_ITERS)"
| "bw_going (Bw_requeue i tc v) = (i < MAX_WAKE_ITERS)"
| "bw_going (Bw_ret i tc ret) = (i < MAX_WAKE_ITERS)"
| "bw_going (Bw_check i tc ret) = (i < MAX_WAKE_ITERS)"
| "bw_going _ = True"

text \<open>A flow of control that counts down reaches its end, whatever the responses.\<close>

locale counts_down =
  fixes cont :: "'l \<Rightarrow> resp \<Rightarrow> 'l" and rank :: "'l \<Rightarrow> nat" and going :: "'l \<Rightarrow> bool" and ending :: 'l
  assumes going_kept: "going l \<Longrightarrow> going (cont l r)"
    and rank_less: "going l \<Longrightarrow> l \<noteq> ending \<Longrightarrow> rank (cont l r) < rank l"
    and ending_stays: "cont ending r = ending"
begin

lemma ends: "going l \<Longrightarrow> rank l \<le> length rs \<Longrightarrow> foldl cont l rs = ending"
proof (induction rs arbitrary: l)
  case Nil
  then show ?case using rank_less by fastforce
next
  case (Cons r rs)
  show ?case
  proof (cases "l = ending")
    case True
    have "foldl cont ending rs = ending" by (induction rs) (simp_all add: ending_stays)
    with True show ?thesis by (simp add: ending_stays)
  next
    case False
    with rank_less [OF Cons.prems(1), of r] Cons.prems have "rank (cont l r) \<le> length rs" by simp
    with Cons.IH going_kept [OF Cons.prems(1)] show ?thesis by simp
  qed
qed

end

interpretation sw: counts_down "signal_wakerfn_cont p" sw_rank sw_going Sw_exit for p
proof (unfold_locales, goal_cases)
  case (1 l r)
  then show ?case by (cases l) (auto simp: sw_release_def sw_judge_def SIGNAL_CALLS_def)
next
  case (2 l r)
  then show ?case by (cases l) (auto simp: sw_release_def sw_judge_def SIGNAL_CALLS_def)
qed simp

interpretation bw: counts_down "broadcast_wakerfn_cont p" bw_rank bw_going Bw_exit for p
proof (unfold_locales, goal_cases)
  case (1 l r)
  then show ?case by (cases l) (auto simp: bw_finish_def MAX_WAKE_ITERS_def)
next
  case (2 l r)
  then show ?case by (cases l) (auto simp: bw_finish_def MAX_WAKE_ITERS_def)
qed simp

section \<open>Properties\<close>

text \<open>C12: the result of \<^verbatim>\<open>unit_test\<close>.  When it returns, either a thread could not be created and the result
  is \<^verbatim>\<open>RET_ERROR\<close>, or all threads have ended and the result is the one the reference
  \<open>unit_verdict\<close> gives for their \<^verbatim>\<open>ret\<close> fields: the pointer \<^verbatim>\<open>waiter_ret\<close> ends up at the first waiter
  with a result other than 0, whatever the uninitialised fields held.\<close>

theorem unit_test_verdict:
  assumes "test_reach K {F1, F2, Wake_complete} (requeue_pi p) (ut_start p) (rp_memory stack) s"
    "thr s 0 = Running (Main (Ut_done ret))"
  shows "(ret = RET_ERROR \<and> incomplete p (thr s)) \<or>
    (finished p (thr s) \<and> ret = unit_verdict p (args_rets (mem s)))"
  using rp.test_reach_tinv [OF assms(1)] assms(2) by (auto simp: rp_inv_def)

definition rp_example :: ut_param where
  "rp_example = unit_test rt_granted (0, \<lparr>tv_sec = 0, tv_nsec = 0\<rparr>) 0 0 0 0"

definition rp_run where
  "rp_run = scripted (requeue_pi rp_example) (ut_start rp_example) (rp_memory (\<lambda>_. 7))
     ((10, 0) # (1, 0) # replicate 20 (0, 0))
     (replicate 12 0 @ concat (map (replicate 3) [1..<11]) @ replicate 11 11 @
      concat (map (replicate 5) [1..<11]) @ replicate 24 0)"

lemma rp_run_ends: "map_option (\<lambda>s. thr s 0) rp_run = Some (Running (Main (Ut_done RET_PASS)))"
  by code_simp

definition rp_state where "rp_state = the rp_run"

lemma rp_state_reach:
  "test_reach script_kernel {F1, F2, Wake_complete} (requeue_pi rp_example) (ut_start rp_example)
     (rp_memory (\<lambda>_. 7)) rp_state"
  unfolding rp_state_def rp_run_def by (rule scripted_reach) (use rp_run_ends in \<open>auto simp: rp_run_def\<close>)

lemma rp_state_done: "thr rp_state 0 = Running (Main (Ut_done RET_PASS))"
  by (metis map_option_eq_Some option.sel rp_run_ends rp_state_def)

theorem unit_test_verdict_witness:
  "finished rp_example (thr rp_state) \<and> unit_verdict rp_example (args_rets (mem rp_state)) = RET_PASS"
  using unit_test_verdict [OF rp_state_reach rp_state_done] by (simp add: ret_defs)

text \<open>C13: what a pass says of the kernel.  When \<^verbatim>\<open>unit_test\<close> returns \<^verbatim>\<open>RET_PASS\<close>, the wait of every waiter
  returned 0 or timed out as requested, a waiter whose wait failed locked the pi futex and all
  released it; the waker stayed below its limit and no requeue call of it failed; and all three
  calls of the third party, if there is one, returned 0.\<close>

theorem requeue_pi_pass:
  assumes "test_reach K {F1, F2, Wake_complete} (requeue_pi p) (ut_start p) (rp_memory stack) s"
    "thr s 0 = Running (Main (Ut_done RET_PASS))"
  shows "(\<forall>i<THREAD_MAX. \<exists>r e ls t r' e'.
        waited p (answers (Suc i) (klog s)) r e (ls @ [Called t rp_unlock r' e']) \<and> locked_again r ls \<and>
        (if r < 0 then ut_timeout p \<noteq> None \<and> e = ETIMEDOUT else s32 r = 0)) \<and>
    (let qs = requeue_answers (answers waker_tid (klog s))
     in if ut_broadcast p \<noteq> 0 then list_all (\<lambda>q. 0 \<le> fst q) qs \<and> length qs < MAX_WAKE_ITERS
        else list_all (\<lambda>q. 0 \<le> signal_value q) qs \<and> length qs < SIGNAL_CALLS) \<and>
    (ut_owner p \<noteq> 0 \<longrightarrow>
       length (answers blocker_tid (klog s)) = 3 \<and> list_all call_ok (answers blocker_tid (klog s)))"
proof -
  have inv: "rp_inv p (log_abs s)" using assms(1) by (rule rp.test_reach_tinv)
  with assms(2) have fin: "finished p (thr s)" and v: "unit_verdict p (args_rets (mem s)) = 0"
    and ok: "\<And>t. 0 < t \<Longrightarrow> thread_ok p t (answers t (klog s)) (mem s (Args_ret t)) (thr s t)"
    by (auto simp: rp_inv_def ret_defs)
  have ex: "thr s t = Exited" if "1 \<le> t" "t \<le> waker_tid" for t
    using fin that by (simp add: finished_def joined_def)
  have wt: "\<exists>r e ls t r' e'. waited p (answers (Suc i) (klog s)) r e (ls @ [Called t rp_unlock r' e']) \<and>
      locked_again r ls \<and> (if r < 0 then ut_timeout p \<noteq> None \<and> e = ETIMEDOUT else s32 r = 0)" if i: "i < THREAD_MAX" for i
  proof -
    have "waiter_ok p (answers (Suc i) (klog s)) (mem s (Args_ret (Suc i))) Wt_exit"
      using ok [of "Suc i"] ex [of "Suc i"] i by (intro waiter_exited) simp_all
    moreover have "int_of_u32 (mem s (Args_ret (Suc i))) = 0" using unit_verdict_zero(2) [OF v i] .
    ultimately obtain r e ls t r' e' where
      "waited p (answers (Suc i) (klog s)) r e (ls @ [Called t rp_unlock r' e'])" "locked_again r ls"
      "s32 (waiter_value p r e) = 0" by (auto simp: sint_u32_of_int simp del: int_of_u32_zero)
    with waiter_value_zero [of p r e] show ?thesis by blast
  qed
  have wk: "if ut_broadcast p \<noteq> 0 then bw_report (requeue_answers (answers waker_tid (klog s))) (mem s (Args_ret waker_tid))
      else sw_report (requeue_answers (answers waker_tid (klog s))) (mem s (Args_ret waker_tid))"
    using ok [of waker_tid] ex [of waker_tid] by (intro waker_exited) simp
  have tb: "ut_owner p \<noteq> 0 \<longrightarrow>
       length (answers blocker_tid (klog s)) = 3 \<and> list_all call_ok (answers blocker_tid (klog s))"
  proof
    assume "ut_owner p \<noteq> 0"
    with fin have "thr s blocker_tid = Exited" by (simp add: finished_def)
    with ok [of blocker_tid] have "blocker_ok (answers blocker_tid (klog s)) (mem s (Args_ret blocker_tid)) Tb_exit"
      by (intro blocker_exited) simp
    with unit_verdict_zero(4) [OF v] show
      "length (answers blocker_tid (klog s)) = 3 \<and> list_all call_ok (answers blocker_tid (klog s))"
      by (auto simp: RET_ERROR_def)
  qed
  show ?thesis
    using wt tb wk unit_verdict_zero(3) [OF v]
    by (auto simp: Let_def dest: waker_report_good simp del: tid_simps(5) split: if_splits)
qed

theorem requeue_pi_pass_witness:
  "length (requeue_answers (answers waker_tid (klog rp_state))) < SIGNAL_CALLS"
  using requeue_pi_pass [OF rp_state_reach rp_state_done]
  by (auto simp: Let_def rp_example_def unit_test_def)

text \<open>The wakers give up.  While the process runs, \<^verbatim>\<open>broadcast_wakerfn\<close> has made at most
  \<^verbatim>\<open>MAX_WAKE_ITERS\<close> requeue calls and \<^verbatim>\<open>signal_wakerfn\<close> at most
  \<^verbatim>\<open>MAX_WAKE_ITERS + THREAD_MAX + 1\<close>, whatever the kernel answers.\<close>

theorem waker_calls_bounded:
  assumes "test_reach K {F1, F2, Wake_complete} (requeue_pi p) (ut_start p) (rp_memory stack) s"
    "thr s 0 \<noteq> Exited"
  shows "length (requeue_answers (answers waker_tid (klog s))) \<le> (if ut_broadcast p \<noteq> 0 then 1000 else 1011)"
proof -
  let ?qs = "requeue_answers (answers waker_tid (klog s))" and ?w = "mem s (Args_ret waker_tid)"
  have role: "length ?qs \<le> (if ut_broadcast p \<noteq> 0 then MAX_WAKE_ITERS else SIGNAL_CALLS)"
    if "role_ok p waker_tid (answers waker_tid (klog s)) ?w l" for l
  proof (cases l)
    case (Broadcast bl)
    with that show ?thesis
      by (cases bl) (auto simp: count_defs)
  next
    case (Signal sl)
    with that show ?thesis
      by (cases sl) (auto simp: count_defs)
  next
    case (Blocker tl)
    with that show ?thesis by (simp add: waker_tid_def blocker_tid_def del: tid_simps(5))
  qed (use that in \<open>auto simp del: tid_simps(5) simp: waker_tid_def THREAD_MAX_def\<close>)
  have "thread_ok p waker_tid (answers waker_tid (klog s)) ?w (thr s waker_tid)"
    using rp.test_reach_tinv [OF assms(1)] assms(2) by (auto simp: rp_inv_def simp del: tid_simps(5))
  then have "length ?qs \<le> (if ut_broadcast p \<noteq> 0 then MAX_WAKE_ITERS else SIGNAL_CALLS)"
    by (auto simp: thread_ok_def split: tstatus.splits dest: role simp del: tid_simps(5))
  then show ?thesis by (simp add: SIGNAL_CALLS_def MAX_WAKE_ITERS_def THREAD_MAX_def split: if_splits)
qed

theorem waker_calls_bounded_witness:
  "length (requeue_answers (answers waker_tid (klog rp_state))) \<le> 1011"
  using waker_calls_bounded [OF rp_state_reach] rp_state_done
  by (simp add: rp_example_def unit_test_def)

text \<open>C19: the wakers end.  Once the waiters have announced themselves, \<^verbatim>\<open>signal_wakerfn\<close> reaches its
  \<^verbatim>\<open>pthread_exit\<close> within 8092 and \<^verbatim>\<open>broadcast_wakerfn\<close> within 4006 of its own steps, whatever the memory
  holds and the kernel answers.\<close>

theorem wakers_terminate:
  assumes "8092 \<le> length rs"
  shows "foldl (signal_wakerfn_cont p) Sw_pause rs = Sw_exit \<and>
    foldl (broadcast_wakerfn_cont p) Bw_pause (take 4006 rs) = Bw_exit"
  using assms sw.ends [of Sw_pause rs p] bw.ends [of Bw_pause "take 4006 rs" p]
  by (simp add: SIGNAL_CALLS_def MAX_WAKE_ITERS_def THREAD_MAX_def)

theorem wakers_terminate_witness:
  "foldl (signal_wakerfn_cont rp_example) Sw_pause (replicate 8092 (Ret 0 0)) = Sw_exit"
  using wakers_terminate [of "replicate 8092 (Ret 0 0)" rp_example] by simp

text \<open>C39: the absolute timeout.  The timespec handed to the waiters is always \<^verbatim>\<open>timeout_ns\<close> after the
  clock's, and its nanoseconds are in range exactly if the sum of the clock's nanoseconds and the
  timeout is not negative or a whole number of seconds; for timeouts that are not negative they
  always are.\<close>

theorem abs_timeout_exact:
  assumes "0 \<le> tv_nsec now" "tv_nsec now < 1000000000"
  shows "tv_sec (abs_timeout now ns) * 1000000000 + tv_nsec (abs_timeout now ns) =
      tv_sec now * 1000000000 + tv_nsec now + ns \<and>
    ((0 \<le> tv_nsec (abs_timeout now ns) \<and> tv_nsec (abs_timeout now ns) < 1000000000) \<longleftrightarrow>
      (0 \<le> tv_nsec now + ns \<or> (tv_nsec now + ns) mod 1000000000 = 0))"
  using c_div_mod [of "tv_nsec now + ns" 1000000000] c_mod_range [of 1000000000 "tv_nsec now + ns"]
  by (simp add: abs_timeout_def distrib_right)

theorem abs_timeout_exact_witness:
  "abs_timeout \<lparr>tv_sec = 5, tv_nsec = 999999999\<rparr> 2 = \<lparr>tv_sec = 6, tv_nsec = 1\<rparr>"
  using abs_timeout_exact [of "\<lparr>tv_sec = 5, tv_nsec = 999999999\<rparr>" 2]
  by (simp add: abs_timeout_def c_mod_def c_div_def)

text \<open>\<^verbatim>\<open>-o\<close> cancels only an earlier \<^verbatim>\<open>-l\<close>.  The help says \<^verbatim>\<open>-o\<close> cancels \<^verbatim>\<open>-l\<close>; given the other way
  round, the run has both a third party owner and a waker that locks.\<close>

theorem requeue_pi_option_order:
  "(\<exists>banner p out. requeue_pi_main attr clock [prog, ''-l'', ''-o''] = Inr (banner, p, out) \<and>
      ut_owner p = 1 \<and> ut_lock p = 0) \<and>
   (\<exists>banner p out. requeue_pi_main attr clock [prog, ''-o'', ''-l''] = Inr (banner, p, out) \<and>
      ut_owner p = 1 \<and> ut_lock p = 1)"
  by (simp add: requeue_pi_main_def run_getopt_def rp_default_def unit_test_def Let_def)

text \<open>The control points a thread can have: those of its own function, with the indices of \<^verbatim>\<open>waiter[]\<close> and
  \<^verbatim>\<open>args[]\<close> in their range.\<close>

fun index_ok :: "ut_pc \<Rightarrow> bool" where
  "index_ok (Ut_create i) = (i < THREAD_MAX)"
| "index_ok (Ut_load i w) = (i < THREAD_MAX \<and> w < THREAD_MAX)"
| "index_ok (Ut_join i w keep) = (i < THREAD_MAX \<and> w < THREAD_MAX)"
| "index_ok (Ut_join_blocker w) = (w < THREAD_MAX)"
| "index_ok (Ut_join_waker w) = (w < THREAD_MAX)"
| "index_ok (Ut_waiter_ret w) = (w < THREAD_MAX)"
| "index_ok _ = True"

fun pc_type :: "ut_param \<Rightarrow> tid \<Rightarrow> rp_pc \<Rightarrow> bool" where
  "pc_type p t (Main l) = (t = 0 \<and> index_ok l)"
| "pc_type p t (Waiter i l) = (t = Suc i \<and> i < THREAD_MAX)"
| "pc_type p t (Broadcast l) = (t = waker_tid \<and> ut_broadcast p \<noteq> 0)"
| "pc_type p t (Signal l) = (t = waker_tid \<and> ut_broadcast p = 0)"
| "pc_type p t (Blocker l) = (t = blocker_tid)"

lemma main_index: "main_ok p th m l \<Longrightarrow> index_ok l"
  by (cases l) (auto simp: pointed_def split: if_splits)

text \<open>C18: the threads of \<^verbatim>\<open>futex_requeue_pi\<close> keep to their types.  In every state of every run a thread that is
  running or blocked is in the function it was started with, thread \<open>i + 1\<close> is waiter \<open>i\<close>, the waker runs the
  wake function the options asked for, and the main thread is inside the arrays \<^verbatim>\<open>waiter[]\<close> and \<^verbatim>\<open>args[]\<close>,
  also where it follows the pointer \<^verbatim>\<open>waiter_ret\<close>.\<close>

theorem requeue_pi_typed:
  assumes "test_reach K {F1, F2, Wake_complete} (requeue_pi p) (ut_start p) (rp_memory stack) s"
    "thr s t = Running l \<or> thr s t = Blocked l" "thr s 0 \<noteq> Exited"
  shows "pc_type p t l"
proof -
  from rp.test_reach_tinv [OF assms(1)] assms(3) obtain l0 where act: "rp_active p (log_abs s) l0"
    by (auto simp: rp_inv_active)
  show ?thesis
  proof (cases "t = 0")
    case True
    with act assms(2) show ?thesis by (auto simp: rp_active_def dest: main_index)
  next
    case False
    with active_role [OF act, of t l] assms(2) show ?thesis by (cases l) auto
  qed
qed

theorem requeue_pi_typed_witness: "pc_type rp_example 0 (Main (Ut_done RET_PASS))"
  by (rule requeue_pi_typed [OF rp_state_reach]) (simp_all add: rp_state_done)

end
