(* ===== verification/Requeue_Pi_Told.thy ===== *)
theory Requeue_Pi_Told
  imports Requeue_Pi_Props
begin

text \<open>
  What the threads of \<^verbatim>\<open>functional/futex_requeue_pi.c\<close> print to \<^verbatim>\<open>stderr\<close> at the default verbosity (the
  \<open>_says\<close> functions), and that the lines agree with the result of \<^verbatim>\<open>unit_test\<close>: something is printed
  exactly if the result is negative, as long as the kernel answers with plausible numbers.

  \<^verbatim>\<open>waiterfn\<close> and \<^verbatim>\<open>broadcast_wakerfn\<close> store the result and print after it; here they print with the
  answer, before the store.  Nobody reads the \<^verbatim>\<open>ret\<close> field of a thread before it has ended, so the order
  cannot be seen.  \<^verbatim>\<open>pthread_create\<close> does not set the \<^verbatim>\<open>errno\<close> that \<^verbatim>\<open>unit_test\<close> prints.
\<close>

section \<open>The messages\<close>

fun waiterfn_says :: "ut_param \<Rightarrow> waiter_pc voice" where
  "waiterfn_says p (Wt_woken res errno) r =
     (if res < 0 \<and> \<not> (ut_timeout p \<noteq> None \<and> errno = ETIMEDOUT)
      then [Error_line (''futex_wait_requeue_pi'' @ newline) errno] else [])"
| "waiterfn_says p _ r = []"

fun broadcast_wakerfn_says :: "bw_pc voice" where
  "broadcast_wakerfn_says (Bw_requeue i task_count old_val) r =
     (if resp_ret r < 0 then [Error_line (''FUTEX_CMP_REQUEUE_PI failed'' @ newline) (resp_errno r)] else [])"
| "broadcast_wakerfn_says (Bw_ret i task_count ret) r =
     (if 0 \<le> ret \<and> \<not> Suc i < MAX_WAKE_ITERS
      then [Error_line (''max broadcast iterations ('' @ show_int (int MAX_WAKE_ITERS) @ '') reached with '' @
              show_int task_count @ ''/'' @ show_int (int THREAD_MAX) @ '' tasks woken or requeued'' @ newline) 0]
      else [])"
| "broadcast_wakerfn_says _ r = []"

text \<open>The \<^verbatim>\<open>errno\<close> of a failed requeue is printed after the unlock, which may have changed it.\<close>

definition says_judge :: "int \<Rightarrow> int \<Rightarrow> complaint list" where
  "says_judge ret errno =
     (if ret < 0 then [Error_line (''FUTEX_CMP_REQUEUE_PI failed'' @ newline) errno] else [])"

fun signal_wakerfn_says :: "ut_param \<Rightarrow> sw_pc voice" where
  "signal_wakerfn_says p (Sw_errno i task_count ret) r = (if ut_lock p \<noteq> 0 then [] else says_judge ret (- ret))"
| "signal_wakerfn_says p (Sw_unlock i task_count ret) r =
     says_judge ret (if resp_ret r < 0 then resp_errno r else - ret)"
| "signal_wakerfn_says p (Sw_usleep i task_count ret) r =
     (if Suc i > MAX_WAKE_ITERS + THREAD_MAX
      then [Error_line (''max signaling iterations ('' @ show_int (int (MAX_WAKE_ITERS + THREAD_MAX)) @
              '') reached, giving up on pending waiters.'' @ newline) 0]
      else [])"
| "signal_wakerfn_says p _ r = []"

fun third_party_blocker_says :: "tb_pc voice" where
  "third_party_blocker_says (Tb_ret ret) r =
     (if ret \<noteq> 0 then [Error_line ''third_party_blocker() futex error'' 0] else [])"
| "third_party_blocker_says (Tb_unlock ret) r =
     (if ret \<noteq> 0 \<or> resp_ret r \<noteq> 0 then [Error_line ''third_party_blocker() futex error'' 0] else [])"
| "third_party_blocker_says _ r = []"

definition says_create :: "ut_param \<Rightarrow> string \<Rightarrow> resp \<Rightarrow> complaint list" where
  "says_create p message r =
     rt_says (ut_attr p) r @
     (if rt_result (ut_attr p) r \<noteq> 0 then [Error_line (message @ newline) (resp_errno r)] else [])"

fun unit_test_says :: "ut_param \<Rightarrow> ut_pc voice" where
  "unit_test_says p Ut_blocker r = says_create p ''Creating third party blocker thread failed'' r"
| "unit_test_says p (Ut_create i) r = says_create p ''Creating waiting thread failed'' r"
| "unit_test_says p Ut_waker r = says_create p ''Creating waker thread failed'' r"
| "unit_test_says p _ r = []"

fun requeue_pi_says :: "ut_param \<Rightarrow> rp_pc voice" where
  "requeue_pi_says p (Main l) r = unit_test_says p l r"
| "requeue_pi_says p (Waiter i l) r = waiterfn_says p l r"
| "requeue_pi_says p (Broadcast l) r = broadcast_wakerfn_says l r"
| "requeue_pi_says p (Signal l) r = signal_wakerfn_says p l r"
| "requeue_pi_says p (Blocker l) r = third_party_blocker_says l r"

section \<open>Who has printed something\<close>

text \<open>\<open>b\<close>: whether the thread has said something, by its control point and the answers it got.\<close>

definition wait_bad :: "ut_param \<Rightarrow> rp_loc event list \<Rightarrow> bool" where
  "wait_bad p ans \<longleftrightarrow> (\<exists>r e rest. waited p ans r e rest \<and> r < 0 \<and> waiter_fix p e \<noteq> 0)"

fun waiter_told :: "ut_param \<Rightarrow> bool \<Rightarrow> rp_loc event list \<Rightarrow> waiter_pc \<Rightarrow> bool" where
  "waiter_told p b ans (Wt_fix x) \<longleftrightarrow> (b \<longleftrightarrow> wait_bad p ans)"
| "waiter_told p b ans Wt_lock \<longleftrightarrow> (b \<longleftrightarrow> wait_bad p ans)"
| "waiter_told p b ans Wt_unlock \<longleftrightarrow> (b \<longleftrightarrow> wait_bad p ans)"
| "waiter_told p b ans Wt_exit \<longleftrightarrow> (b \<longleftrightarrow> wait_bad p ans)"
| "waiter_told p b ans _ \<longleftrightarrow> \<not> b"

fun broadcast_told :: "bool \<Rightarrow> (int \<times> int) list \<Rightarrow> bw_pc \<Rightarrow> bool" where
  "broadcast_told b qs (Bw_ret i tc ret) \<longleftrightarrow> (b \<longleftrightarrow> ret < 0)"
| "broadcast_told b qs (Bw_error tc) \<longleftrightarrow> b"
| "broadcast_told b qs (Bw_wake tc ret) \<longleftrightarrow> (b \<longleftrightarrow> bw_gave_up qs)"
| "broadcast_told b qs (Bw_unlock tc ret) \<longleftrightarrow> (b \<longleftrightarrow> bw_gave_up qs)"
| "broadcast_told b qs (Bw_final tc) \<longleftrightarrow> (b \<longleftrightarrow> bw_gave_up qs)"
| "broadcast_told b qs Bw_exit \<longleftrightarrow> (b \<longleftrightarrow> bw_gave_up qs)"
| "broadcast_told b qs _ \<longleftrightarrow> \<not> b"

fun signal_told :: "bool \<Rightarrow> (int \<times> int) list \<Rightarrow> sw_pc \<Rightarrow> bool" where
  "signal_told b qs (Sw_error tc) \<longleftrightarrow> b"
| "signal_told b qs (Sw_wake tc ret) \<longleftrightarrow> (b \<longleftrightarrow> sw_gave_up qs)"
| "signal_told b qs (Sw_final tc) \<longleftrightarrow> (b \<longleftrightarrow> sw_gave_up qs)"
| "signal_told b qs Sw_exit \<longleftrightarrow> (b \<longleftrightarrow> sw_gave_up qs)"
| "signal_told b qs _ \<longleftrightarrow> \<not> b"

fun blocker_told :: "bool \<Rightarrow> rp_loc event list \<Rightarrow> tb_pc \<Rightarrow> bool" where
  "blocker_told b ans Tb_error \<longleftrightarrow> b"
| "blocker_told b ans Tb_exit \<longleftrightarrow> (b \<longleftrightarrow> \<not> list_all call_ok ans)"
| "blocker_told b ans _ \<longleftrightarrow> \<not> b"

fun role_told :: "ut_param \<Rightarrow> bool \<Rightarrow> rp_loc event list \<Rightarrow> rp_pc \<Rightarrow> bool" where
  "role_told p b ans (Main l) = False"
| "role_told p b ans (Waiter i l) = waiter_told p b ans l"
| "role_told p b ans (Broadcast l) = broadcast_told b (requeue_answers ans) l"
| "role_told p b ans (Signal l) = signal_told b (requeue_answers ans) l"
| "role_told p b ans (Blocker l) = blocker_told b ans l"

definition thread_told :: "ut_param \<Rightarrow> tid \<Rightarrow> bool \<Rightarrow> rp_loc event list \<Rightarrow> rp_pc tstatus \<Rightarrow> bool" where
  "thread_told p t b ans st =
     (case st of
        Unborn \<Rightarrow> \<not> b
      | Running l \<Rightarrow> role_told p b ans l
      | Blocked l \<Rightarrow> role_told p b ans l
      | Exited \<Rightarrow> (\<exists>w l. role_ok p t ans w l \<and> role_told p b ans l \<and> requeue_pi_fetch p l = Exit))"

fun main_told :: "ut_param \<Rightarrow> bool \<Rightarrow> (tid \<Rightarrow> rp_pc tstatus) \<Rightarrow> ut_pc \<Rightarrow> bool" where
  "main_told p b th (Ut_done ret) \<longleftrightarrow> (if b then ret = RET_ERROR else finished p th)"
| "main_told p b th l \<longleftrightarrow> \<not> b"

definition rp_told :: "ut_param \<Rightarrow> (rp_loc, rp_pc) lstate \<Rightarrow> (tid \<times> complaint) list \<Rightarrow> bool" where
  "rp_told p s out \<longleftrightarrow> lthr s 0 = Exited \<or>
     ((\<exists>l. lthr s 0 = Running (Main l) \<and> main_told p (said out 0) (lthr s) l) \<and>
      (\<forall>t>0. thread_told p t (said out t) (answers t (llog s)) (lthr s t)))"

lemma counted_not_gave_up: "counted N f qs i tc \<Longrightarrow> \<not> gave_up N f qs"
  by (auto simp: counted_def gave_up_def list_all_iff list_ex_iff)

lemma waited_bad:
  "waited p ans r e rest \<Longrightarrow> wait_bad p ans \<longleftrightarrow> r < 0 \<and> waiter_fix p e \<noteq> 0"
  by (auto simp: wait_bad_def waited_def)

lemma waited_bad_more:
  "waited p ans r e rest \<Longrightarrow> wait_bad p (ans @ [x]) \<longleftrightarrow> r < 0 \<and> waiter_fix p e \<noteq> 0"
  by (rule waited_bad [OF waited_more])

lemma waiter_told_mem:
  assumes "waiter_ok p ans w l" "waiter_told p b ans l" "exec_mem (waiterfn_fetch p i l) m = Some (r, m')"
  shows "waiter_told p (b \<or> waiterfn_says p l r \<noteq> []) ans (waiterfn_cont p l r)"
  using assms by (cases l) (auto simp: waited_bad waiter_fix_def RET_ERROR_def)

lemma waiter_told_call:
  assumes "waiter_ok p ans w l" "waiter_told p b ans l" "waiterfn_fetch p i l = Syscall c"
  shows "waiter_told p (b \<or> waiterfn_says p l r \<noteq> []) (ans @ [Called t c n e]) (waiterfn_cont p l r)"
  using assms by (cases l) (auto simp: waited_bad waited_bad_more)

lemma broadcast_told_mem:
  assumes "broadcast_ok qs w l" "broadcast_told b qs l" "exec_mem (broadcast_wakerfn_fetch p l) m = Some (r, m')"
  shows "broadcast_told (b \<or> broadcast_wakerfn_says l r \<noteq> []) qs (broadcast_wakerfn_cont p l r)"
  using assms by (cases l) (auto dest: counted_not_gave_up)

lemma broadcast_told_call:
  assumes "broadcast_ok (requeue_answers ans) w l" "broadcast_told b (requeue_answers ans) l"
    "broadcast_wakerfn_fetch p l = Syscall c"
  shows "broadcast_told (b \<or> broadcast_wakerfn_says l (Ret n e) \<noteq> []) (requeue_answers (ans @ [Called t c n e]))
    (broadcast_wakerfn_cont p l (Ret n e))"
  using assms by (cases l) (auto simp: bw_finish_def)

lemma signal_told_mem:
  assumes "signal_ok qs w l" "signal_told b qs l" "exec_mem (signal_wakerfn_fetch p l) m = Some (r, m')"
  shows "signal_told (b \<or> signal_wakerfn_says p l r \<noteq> []) qs (signal_wakerfn_cont p l r)"
  using assms by (cases l)
    (auto simp: says_judge_def sw_release_def sw_judge_def dest: counted_not_gave_up split: if_splits)

lemma signal_told_call:
  assumes "signal_ok (requeue_answers ans) w l" "signal_told b (requeue_answers ans) l"
    "signal_wakerfn_fetch p l = Syscall c"
  shows "signal_told (b \<or> signal_wakerfn_says p l (Ret n e) \<noteq> []) (requeue_answers (ans @ [Called t c n e]))
    (signal_wakerfn_cont p l (Ret n e))"
  using assms by (cases l) (auto simp: says_judge_def sw_judge_def split: if_splits)

lemma blocker_told_mem:
  assumes "blocker_ok ans w l" "blocker_told b ans l" "exec_mem (third_party_blocker_fetch l) m = Some (r, m')"
  shows "blocker_told (b \<or> third_party_blocker_says l r \<noteq> []) ans (third_party_blocker_cont l r)"
  using assms by (cases l) auto

lemma blocker_told_call:
  assumes "blocker_ok ans w l" "blocker_told b ans l" "third_party_blocker_fetch l = Syscall c"
  shows "blocker_told (b \<or> third_party_blocker_says l (Ret n e) \<noteq> []) (ans @ [Called t c n e])
    (third_party_blocker_cont l (Ret n e))"
  using assms by (cases l) auto

lemma role_told_mem:
  assumes "role_ok p t ans w l" "role_told p b ans l" "exec_mem (requeue_pi_fetch p l) m = Some (r, m')"
  shows "role_told p (b \<or> requeue_pi_says p l r \<noteq> []) ans (requeue_pi_cont p l r)"
  using assms by (cases l)
    (auto intro: waiter_told_mem broadcast_told_mem signal_told_mem blocker_told_mem simp del: disj_not1)

lemma role_told_call:
  assumes "role_ok p t ans w l" "role_told p b ans l" "requeue_pi_fetch p l = Syscall c"
  shows "role_told p (b \<or> requeue_pi_says p l (Ret n e) \<noteq> []) (ans @ [Called u c n e])
    (requeue_pi_cont p l (Ret n e))"
  using assms by (cases l)
    (auto intro: waiter_told_call broadcast_told_call signal_told_call blocker_told_call simp del: disj_not1)

section \<open>All threads together\<close>

lemma main_told_mem:
  assumes "main_ok p th m l" "main_told p b th l" "exec_mem (unit_test_fetch p l) m = Some (r, m')"
  shows "main_told p (b \<or> unit_test_says p l r \<noteq> []) th (unit_test_cont p l r)"
  using assms by (cases l) (auto simp: says_create_def rt_says_silent split: if_splits)

lemma main_told_join:
  assumes "main_ok p th m l" "main_told p b th l" "unit_test_fetch p l = Join j" "th j = Exited"
  shows "main_told p b th (unit_test_cont p l r)"
proof (cases l)
  case (Ut_join_waker w)
  with assms joined_Suc [of th THREAD_MAX] show ?thesis by (auto simp: finished_def)
qed (use assms in \<open>auto simp: ut_join_rest_def\<close>)

lemma main_told_create:
  assumes "main_told p b th l" "unit_test_fetch p l = Create j l1"
  shows "main_told p (b \<or> unit_test_says p l (Ret 0 0) \<noteq> []) th' (unit_test_cont p l (Ret 0 0))"
    "r \<noteq> 0 \<Longrightarrow> main_told p (b \<or> unit_test_says p l (Ret r 0) \<noteq> []) th (unit_test_cont p l (Ret r 0))"
  using assms by (cases l; auto simp: says_create_def rt_says_silent ut_join_rest_def)+

lemma main_told_other:
  assumes "main_told p b th l" "th t \<noteq> Unborn" "th t \<noteq> Exited" "0 < t" "t \<le> waker_tid \<or> t = blocker_tid"
  shows "main_told p b (th(t := st)) l"
  using assms finished_other [of p th t] by (cases l) (auto split: if_splits)

lemma main_told_self [simp]: "main_told p b (th(0 := st)) l = main_told p b th l"
  by (cases l) auto

lemma told_child:
  assumes act: "rp_active p s l0" and told: "rp_told p s out"
    and t: "lthr s t = Running l \<or> lthr s t = Blocked l" "t \<noteq> 0"
    and ok: "thread_told p t (said out t \<or> cs \<noteq> []) (answers t log) st"
    and log: "\<forall>u. u \<noteq> t \<longrightarrow> answers u log = answers u (llog s)"
  shows "rp_told p (lgoto t st (s\<lparr>lmem := m, llog := log\<rparr>)) (out @ map (Pair t) cs)"
proof -
  from act told have main: "lthr s 0 = Running (Main l0)" "main_told p (said out 0) (lthr s) l0"
    and rest: "\<forall>u>0. thread_told p u (said out u) (answers u (llog s)) (lthr s u)"
    by (auto simp: rp_active_def rp_told_def)
  have "main_told p (said out 0) ((lthr s)(t := st)) l0"
    using t role_tid [OF active_role [OF act t]] by (intro main_told_other [OF main(2)]) auto
  with main(1) rest ok log t(2) show ?thesis by (auto simp: rp_told_def)
qed

lemma told_main:
  assumes act: "rp_active p s l0" and told: "rp_told p s out"
    and ok: "main_told p (said out 0 \<or> cs \<noteq> []) (lthr s) l"
    and log: "\<forall>u>0. answers u log = answers u (llog s)"
  shows "rp_told p (lgoto 0 (Running (Main l)) (s\<lparr>lmem := m, llog := log\<rparr>)) (out @ map (Pair 0) cs)"
  using assms by (auto simp: rp_active_def rp_told_def)

lemma active_told:
  assumes "rp_active p s l0" "rp_told p s out" "lthr s t = Running l \<or> lthr s t = Blocked l" "t \<noteq> 0"
  shows "role_told p (said out t) (answers t (llog s)) l"
proof -
  have "thread_told p t (said out t) (answers t (llog s)) (lthr s t)"
    using assms(1,2,4) by (auto simp: rp_told_def rp_active_def)
  with assms(3) show ?thesis by (auto simp: thread_told_def)
qed

lemma told_mem:
  assumes act: "rp_active p s l0" and told: "rp_told p s out" and t: "lthr s t = Running l"
    and x: "exec_mem (requeue_pi_fetch p l) (lmem s) = Some (r, m)"
  shows "rp_told p (lgoto t (Running (requeue_pi_cont p l r)) (s\<lparr>lmem := m\<rparr>))
    (out @ map (Pair t) (requeue_pi_says p l r))"
proof (cases "t = 0")
  case True
  with t active_main [OF act, of l] told have l: "l = Main l0" "main_ok p (lthr s) (lmem s) l0"
    "main_told p (said out 0) (lthr s) l0" by (auto simp: rp_told_def)
  with x main_told_mem [OF l(2,3), of r m] True told_main [OF act told, of "unit_test_says p l0 r" "unit_test_cont p l0 r" "llog s" m]
  show ?thesis by simp
next
  case False
  note role = active_role [OF act disjI1 [OF t] False]
  from role_told_mem [OF role active_told [OF act told disjI1 [OF t] False] x]
    told_child [OF act told disjI1 [OF t] False, of "requeue_pi_says p l r" "llog s" "Running (requeue_pi_cont p l r)" m]
  show ?thesis by (simp add: thread_told_def)
qed

lemma told_call:
  assumes act: "rp_active p s l0" and told: "rp_told p s out"
    and t: "lthr s t = Running l \<or> lthr s t = Blocked l" and x: "requeue_pi_fetch p l = Syscall c"
  shows "rp_told p (lgoto t (Running (requeue_pi_cont p l (Ret r e))) (s\<lparr>lmem := m, llog := llog s @ [Called t c r e]\<rparr>))
      (out @ map (Pair t) (requeue_pi_says p l (Ret r e)))"
    "rp_told p (lgoto t (Blocked l) (s\<lparr>lmem := m\<rparr>)) out"
proof -
  have t0: "t \<noteq> 0"
  proof
    assume "t = 0"
    with t active_main [OF act, of l] have "l = Main l0" by auto
    with x show False by (simp add: unit_test_no_call)
  qed
  note role = active_role [OF act t t0]
  note b = active_told [OF act told t t0]
  from role_told_call [OF role b x, of r e t]
    told_child [OF act told t t0, of "requeue_pi_says p l (Ret r e)" "llog s @ [Called t c r e]"
      "Running (requeue_pi_cont p l (Ret r e))" m]
  show "rp_told p (lgoto t (Running (requeue_pi_cont p l (Ret r e))) (s\<lparr>lmem := m, llog := llog s @ [Called t c r e]\<rparr>))
      (out @ map (Pair t) (requeue_pi_says p l (Ret r e)))" by (simp add: thread_told_def)
  from b told_child [OF act told t t0, of "[]" "llog s" "Blocked l" m]
  show "rp_told p (lgoto t (Blocked l) (s\<lparr>lmem := m\<rparr>)) out" by (simp add: thread_told_def)
qed

lemma told_create:
  assumes act: "rp_active p s l0" and told: "rp_told p s out" and x: "unit_test_fetch p l0 = Create j l1"
    and j: "lthr s j = Unborn"
  shows "rp_told p (lgoto 0 (Running (Main (unit_test_cont p l0 (Ret 0 0))))
      (lgoto j (Running l1) (s\<lparr>llog := llog s @ [Created j 0]\<rparr>)))
    (out @ map (Pair 0) (unit_test_says p l0 (Ret 0 0)))"
proof -
  from act told have main: "main_ok p (lthr s) (lmem s) l0" "main_told p (said out 0) (lthr s) l0"
    and rest: "\<forall>u>0. thread_told p u (said out u) (answers u (llog s)) (lthr s u)"
    by (auto simp: rp_active_def rp_told_def)
  have j0: "j \<noteq> 0" using act j by (intro notI) (simp add: rp_active_def)
  with rest j have "\<not> said out j" by (auto simp: thread_told_def dest!: spec [of _ j])
  with main_create(2) [OF main(1) x, of "lmem s (Args_ret j)"]
  have "role_told p (said out j) (answers j (llog s)) l1" using x by (cases l0) (auto simp: wakerfn_def)
  with main_told_create(1) [OF main(2) x] rest j0 show ?thesis
    by (auto simp: rp_told_def thread_told_def)
qed

lemma rp_told_kept:
  assumes inv: "rp_inv p s" and told: "rp_told p s out"
    and step: "lmove (requeue_pi p) {F1, F2, Wake_complete} t ro s s'"
  shows "rp_told p s' (out @ utter (requeue_pi_says p) t (lthr s t) ro)"
proof (cases "lthr s 0 = Exited")
  case True
  from exited_stays [OF lmove_lstep [OF step] True] show ?thesis by (simp add: rp_told_def)
next
  case False
  with inv obtain l0 where act: "rp_active p s l0" by (auto simp: rp_inv_active)
  with told have main: "main_ok p (lthr s) (lmem s) l0" "main_told p (said out 0) (lthr s) l0"
    by (auto simp: rp_active_def rp_told_def)
  from step show ?thesis
  proof cases
    case (m_mem l r m)
    with told_mem [OF act told] show ?thesis by simp
  next
    case (m_call l c m r e)
    moreover from m_call(1,3) have
      "utter (requeue_pi_says p) t (lthr s t) ro = map (Pair t) (requeue_pi_says p l (Ret r e))" by auto
    ultimately show ?thesis using told_call(1) [OF act told, of t l c r e m] by simp
  next
    case (m_block l c m)
    with told_call(2) [OF act told, of t l c m] show ?thesis by simp
  next
    case (m_create l j l1)
    with kept_control [OF act, of t l j l1] told_create [OF act told, of j l1] show ?thesis by simp
  next
    case (m_create_fail l j l1 r)
    with kept_control [OF act, of t l j l1] main_told_create(2) [OF main(2), of j l1 r]
      told_main [OF act told, of "unit_test_says p l0 (Ret r 0)" "unit_test_cont p l0 (Ret r 0)"
        "llog s @ [Created j r]" "lmem s"]
    show ?thesis by simp
  next
    case (m_join l j)
    with kept_control [OF act, of t l j] main_told_join [OF main, of j "Ret 0 0"]
      told_main [OF act told, of "[]" "unit_test_cont p l0 (Ret 0 0)" "llog s" "lmem s"]
    show ?thesis by (cases l0) simp_all
  next
    case (m_kill l j)
    with kept_control [OF act, of t l j] show ?thesis by (simp add: unit_test_no_call)
  next
    case (m_exit l)
    have t: "t \<noteq> 0"
    proof
      assume "t = 0"
      with m_exit active_main [OF act, of l] show False by (simp add: unit_test_no_call)
    qed
    note l = disjI1 [OF m_exit(3)]
    have "thread_told p t (said out t) (answers t (llog s)) Exited"
      using active_role [OF act l t] active_told [OF act told l t] m_exit(4) by (auto simp: thread_told_def)
    with told_child [OF act told l t, of "[]" "llog s" Exited "lmem s"] m_exit show ?thesis by simp
  next
    case (m_halt l)
    then show ?thesis by (simp add: rp_told_def)
  qed
qed

interpretation rp_out: telling_program "requeue_pi p" "{F1, F2, Wake_complete}" "ut_start p" "rp_memory stack"
  "rp_inv p" "requeue_pi_says p" "rp_told p" for p stack
proof (unfold_locales, goal_cases)
  case (1 s)
  have "main_told p False th (if ut_owner p \<noteq> 0 then Ut_blocker else Ut_set)" for th by simp
  with 1 show ?case by (auto simp: rp_told_def linit_def start_threads_def ut_start_def thread_told_def)
next
  case (2 s out t ro s')
  then show ?case by (rule rp_told_kept)
qed

section \<open>Properties\<close>

text \<open>Plausible answers: a failing call sets \<^verbatim>\<open>errno\<close>, a requeue call reports at most the ten threads there
  are, and of the other calls only \<^verbatim>\<open>futex_wake\<close>, whose result nobody reads, returns a positive number.\<close>

fun answer_ok :: "rp_loc event \<Rightarrow> bool" where
  "answer_ok (Called t c r e) \<longleftrightarrow> (r < 0 \<longrightarrow> 0 < e \<and> e \<le> 4095) \<and>
     (c = rp_wake \<or> r \<le> (if fc_op c = FUTEX_CMP_REQUEUE_PI_PRIVATE then int THREAD_MAX else 0))"
| "answer_ok (Created j r) \<longleftrightarrow> True"
| "answer_ok (Signalled j) \<longleftrightarrow> True"

lemma int_of_error [simp]: "int_of_u32 (u32_of_int RET_ERROR) = RET_ERROR"
  by (simp add: sint_u32_of_int RET_ERROR_def s32_id INT_MIN_def INT_MAX_def)

lemma op_differs: "fc_op (rp_wait p v) \<noteq> FUTEX_CMP_REQUEUE_PI_PRIVATE" "rp_wait p v \<noteq> rp_wake"
  "fc_op rp_wake \<noteq> FUTEX_CMP_REQUEUE_PI_PRIVATE"
  by (simp_all add: rp_wait_def rp_wake_def wrapper_defs futex_def opcode_defs)

lemma exited_told:
  assumes "thread_told p t b ans Exited"
  shows "\<exists>w l. role_ok p t ans w l \<and> role_told p b ans l \<and> requeue_pi_fetch p l = Exit"
  using assms by (simp add: thread_told_def)

lemma waiter_sign:
  assumes "i < THREAD_MAX" "thread_ok p (Suc i) ans w Exited" "thread_told p (Suc i) b ans Exited"
    "list_all answer_ok ans"
  shows "int_of_u32 w = (if b then RET_ERROR else 0)"
proof -
  from waiter_exited [OF assms(2,1)] obtain r e rest where
    ans: "waited p ans r e rest" and w: "w = u32_of_int (waiter_value p r e)" by auto
  from exited_told [OF assms(3)] obtain w' l where l: "role_ok p (Suc i) ans w' l" "requeue_pi_fetch p l = Exit"
    and told: "role_told p b ans l" by blast
  from l told assms(1) have b: "b \<longleftrightarrow> r < 0 \<and> waiter_fix p e \<noteq> 0"
    by (cases rule: exit_pc [OF l]) (auto simp: waited_bad [OF ans])
  from ans assms(4) have "r \<le> 0" by (auto simp: waited_def op_differs)
  with b w show ?thesis by (auto simp: waiter_value_def waiter_fix_def)
qed

lemma report_sign:
  assumes "waker_report N f qs w" "b \<longleftrightarrow> gave_up N f qs" "\<forall>q\<in>set qs. f q \<le> int THREAD_MAX" "N \<le> SIGNAL_CALLS"
  shows "int_of_u32 w < 0 \<longleftrightarrow> b"
  using assms(1,2) counted_range [OF _ assms(3,4)]
  by (auto simp: waker_report_def dest: counted_not_gave_up simp flip: linorder_not_le)

lemma requeue_answers_ok:
  assumes "list_all answer_ok ans" "q \<in> set (requeue_answers ans)"
  shows "fst q \<le> int THREAD_MAX" "signal_value q \<le> int THREAD_MAX"
proof -
  from assms(2) obtain x where x: "x \<in> set ans" "q \<in> set (requeue_answer x)" by (auto simp: requeue_answers_def)
  from x(2) obtain t c r e where "x = Called t c r e" by (cases x) auto
  with x assms(1) op_differs(3) have "fst q \<le> int THREAD_MAX \<and> signal_value q \<le> int THREAD_MAX"
    by (auto simp: list_all_iff split: if_splits)
  then show "fst q \<le> int THREAD_MAX" "signal_value q \<le> int THREAD_MAX" by simp_all
qed

lemma waker_sign:
  assumes "thread_ok p waker_tid ans w Exited" "thread_told p waker_tid b ans Exited" "list_all answer_ok ans"
  shows "int_of_u32 w < 0 \<longleftrightarrow> b"
proof -
  from exited_told [OF assms(2)] obtain w' l where l: "role_ok p waker_tid ans w' l" "requeue_pi_fetch p l = Exit"
    and told: "role_told p b ans l" by blast
  from l told have "b \<longleftrightarrow> (if ut_broadcast p \<noteq> 0 then bw_gave_up (requeue_answers ans) else sw_gave_up (requeue_answers ans))"
    by (cases rule: exit_pc [OF l]) auto
  with waker_exited [OF assms(1)] requeue_answers_ok [OF assms(3)] show ?thesis
    by (auto intro: report_sign [THEN iffD1] report_sign [THEN iffD2] simp: SIGNAL_CALLS_def split: if_splits)
qed

lemma blocker_sign:
  assumes "thread_ok p blocker_tid ans w Exited" "thread_told p blocker_tid b ans Exited"
  shows "int_of_u32 w = (if b then RET_ERROR else 0)"
proof -
  from exited_told [OF assms(2)] obtain w' l where l: "role_ok p blocker_tid ans w' l" "requeue_pi_fetch p l = Exit"
    and told: "role_told p b ans l" by blast
  from l told have "b \<longleftrightarrow> \<not> list_all call_ok ans" by (cases rule: exit_pc [OF l]) auto
  with blocker_exited [OF assms(1)] show ?thesis by auto
qed

lemma nobody_else:
  assumes "thread_ok p t ans w st" "thread_told p t b ans st" "waker_tid < t" "t \<noteq> blocker_tid"
  shows "\<not> b"
proof (cases st)
  case Exited
  with exited_role [of p t ans w] assms(1) obtain l where "role_ok p t ans w l" by auto
  from role_tid [OF this] assms(3,4) show ?thesis by auto
qed (use assms role_tid [of p t ans w] in \<open>auto simp: thread_ok_def thread_told_def\<close>)

lemma verdict_sign:
  assumes "ut_clock p = 0" "\<And>i. i < THREAD_MAX \<Longrightarrow> rets (Suc i) = (if spoke (Suc i) then RET_ERROR else 0)"
    "rets waker_tid < 0 \<longleftrightarrow> spoke waker_tid" "rets blocker_tid = (if spoke blocker_tid then RET_ERROR else 0)"
  shows "unit_verdict p rets < 0 \<longleftrightarrow> (\<exists>i<THREAD_MAX. spoke (Suc i)) \<or> spoke waker_tid \<or> spoke blocker_tid"
proof (cases "filter (\<lambda>x. x \<noteq> 0) (map (\<lambda>i. rets (Suc i)) [0..<THREAD_MAX])")
  case Nil
  then have "rets (Suc i) = 0" if "i < THREAD_MAX" for i using that by (auto simp: filter_empty_conv)
  then have "\<not> spoke (Suc i)" if "i < THREAD_MAX" for i
    using assms(2) [OF that] that by (auto simp: RET_ERROR_def)
  with Nil assms(1,3,4) show ?thesis by (auto simp: unit_verdict_def simp del: tid_simps(5))
next
  case (Cons x xs)
  then have "x \<in> set (filter (\<lambda>x. x \<noteq> 0) (map (\<lambda>i. rets (Suc i)) [0..<THREAD_MAX]))" by simp
  then obtain i where "i < THREAD_MAX" "x = rets (Suc i)" "x \<noteq> 0" by auto
  with assms(2) [of i] Cons assms(1) show ?thesis by (auto simp: unit_verdict_def split: if_splits)
qed

lemma finished_complete:
  assumes "finished p th"
  shows "\<not> incomplete p th"
proof
  assume "incomplete p th"
  then obtain t where t: "1 \<le> t" "t \<le> blocker_tid" "th t = Unborn" "t = blocker_tid \<longrightarrow> ut_owner p \<noteq> 0"
    by (auto simp: incomplete_def)
  from t(2) have "t \<le> waker_tid \<or> t = blocker_tid"
    by (simp add: waker_tid_def blocker_tid_def THREAD_MAX_def del: tid_simps) linarith
  with assms t show False by (auto simp: finished_def joined_def simp del: tid_simps)
qed

lemma someone_said:
  assumes "\<And>t. 0 < t \<Longrightarrow> thread_ok p t (answers t log) (m (Args_ret t)) (th t)"
    "\<And>t. 0 < t \<Longrightarrow> thread_told p t (said out t) (answers t log) (th t)" "\<not> said out 0"
  shows "out \<noteq> [] \<longleftrightarrow> (\<exists>i<THREAD_MAX. said out (Suc i)) \<or> said out waker_tid \<or> said out blocker_tid"
proof -
  have "(\<exists>i<THREAD_MAX. t = Suc i) \<or> t = waker_tid \<or> t = blocker_tid" if "said out t" for t
  proof -
    from that assms(3) have t: "0 < t" by (cases t) auto
    with nobody_else [OF assms(1,2) [OF t]] that have "t \<le> waker_tid \<or> t = blocker_tid" by (metis not_less)
    with t show ?thesis by (cases t) (auto simp: less_Suc_eq_le le_less)
  qed
  then show ?thesis unfolding nobody_said by blast
qed

text \<open>C15: the messages of \<^verbatim>\<open>futex_requeue_pi\<close> and its result agree, in every mode and whatever thirteen
  threads do at once.  On any kernel with plausible answers, if the clock could be read and at any
  verbosity from \<^verbatim>\<open>VCRITICAL\<close> on, \<^verbatim>\<open>unit_test\<close> returns a negative result exactly if one of the threads
  has printed an error: no error is lost on the way to the result, and no failure is silent.\<close>

theorem requeue_pi_explained:
  assumes "told K {F1, F2, Wake_complete} (requeue_pi p) (requeue_pi_says p) (ut_start p) (rp_memory stack) s out"
    "thr s 0 = Running (Main (Ut_done ret))" "ut_clock p = 0" "list_all answer_ok (klog s)"
    "VCRITICAL \<le> verbose st"
  shows "stderr_lines strerror st out \<noteq> [] \<longleftrightarrow> ret < 0"
proof -
  from rp.test_reach_tinv [OF told_test [OF assms(1)]] assms(2) have ok: "main_ok p (thr s) (mem s) (Ut_done ret)"
    "\<And>t. 0 < t \<Longrightarrow> thread_ok p t (answers t (klog s)) (mem s (Args_ret t)) (thr s t)" by (auto simp: rp_inv_def)
  from rp_out.told_oinv [OF assms(1)] assms(2) have told: "main_told p (said out 0) (thr s) (Ut_done ret)"
    "\<And>t. 0 < t \<Longrightarrow> thread_told p t (said out t) (answers t (klog s)) (thr s t)" by (auto simp: rp_told_def)
  have ans: "list_all answer_ok (answers t (klog s))" for t using assms(4) by (auto simp: answers_def list_all_iff)
  show ?thesis
  proof (cases "said out 0")
    case True
    then have "out \<noteq> []" by auto
    with True told(1) stderr_silent [OF assms(5)] show ?thesis by simp
  next
    case False
    with told(1) have fin: "finished p (thr s)" by simp
    with ok(1) have ret: "ret = unit_verdict p (args_rets (mem s))"
      by (auto dest: finished_complete)
    have ex: "thr s t = Exited" if "0 < t" "t \<le> waker_tid" for t using fin that by (simp add: finished_def joined_def)
    have "args_rets (mem s) (Suc i) = (if said out (Suc i) then RET_ERROR else 0)" if "i < THREAD_MAX" for i
      using waiter_sign [OF that _ _ ans] ok(2) [of "Suc i"] told(2) [of "Suc i"] ex [of "Suc i"] that by simp
    moreover have "args_rets (mem s) waker_tid < 0 \<longleftrightarrow> said out waker_tid"
      using waker_sign [OF _ _ ans] ok(2) [of waker_tid] told(2) [of waker_tid] ex [of waker_tid] by simp
    moreover have "args_rets (mem s) blocker_tid = (if said out blocker_tid then RET_ERROR else 0)"
    proof (cases "thr s blocker_tid = Unborn")
      case True
      with ok(2) [of blocker_tid] told(2) [of blocker_tid] show ?thesis by (simp add: thread_ok_def thread_told_def)
    next
      case False
      with fin have "thr s blocker_tid = Exited" by (auto simp: finished_def third_def)
      with blocker_sign ok(2) [of blocker_tid] told(2) [of blocker_tid] show ?thesis by simp
    qed
    ultimately show ?thesis
      using verdict_sign [OF assms(3)] someone_said [OF ok(2) told(2) False] stderr_silent [OF assms(5)] ret by simp
  qed
qed

definition rp_refused where
  "rp_refused = tell_script (requeue_pi rp_example) (requeue_pi_says rp_example) (ut_start rp_example)
     (rp_memory (\<lambda>_. 7)) ((- 1, EINVAL) # (1, 0) # replicate 20 (0, 0))
     (replicate 12 0 @ concat (map (replicate 3) [1..<11]) @ replicate 10 11 @
      concat (map (replicate 5) [1..<11]) @ replicate 23 0)"

lemma rp_refused_told: "told script_kernel {F1, F2, Wake_complete} (requeue_pi rp_example) (requeue_pi_says rp_example)
    (ut_start rp_example) (rp_memory (\<lambda>_. 7)) (fst rp_refused) (snd rp_refused)"
  unfolding rp_refused_def by (rule tell_script_told) code_simp

lemma rp_refused_facts: "thr (fst rp_refused) 0 = Running (Main (Ut_done (- 1)))" "ut_clock rp_example = 0"
  "list_all answer_ok (klog (fst rp_refused))" "VCRITICAL \<le> verbose log_init"
  by code_simp+

theorem requeue_pi_explained_witness: "stderr_lines (\<lambda>_. []) log_init (snd rp_refused) \<noteq> []"
  using requeue_pi_explained [OF rp_refused_told rp_refused_facts] by simp

end
