(* ===== verification/Mismatched_Conf.thy ===== *)
theory Mismatched_Conf
  imports Pi_Runs Mismatched_Ops
begin

text \<open>
  \<^verbatim>\<open>functional/futex_requeue_pi_mismatched_ops.c\<close> on a kernel that keeps \<open>pi_contract\<close>.  The child
  sleeps in \<^verbatim>\<open>FUTEX_WAIT\<close> until \<^verbatim>\<open>main\<close> wakes it, so the requeue call finds nobody or is refused:
  if \<^verbatim>\<open>main\<close> returns it returns \<^verbatim>\<open>RET_PASS\<close> (\<open>mismatched_ops_conforming\<close>).  It need not return: if the
  child is late nobody ever wakes it (\<open>mismatched_ops_late_child\<close>).
\<close>

section \<open>The answers of the kernel\<close>

definition mo_asleep :: "mo_loc pi_view" where
  "mo_asleep = pi_idle\<lparr>waits := [1 \<mapsto> (Mo_f1, None)]\<rparr>"

lemma mo_decode [simp]:
  "decode (mo_requeue w) = Some (Cmp_requeue_pi Mo_f1 (Some Mo_f2) 1 (Count 0) w)"
  "decode mo_wake = Some (Wake Mo_f1 1)" "decode (mo_wait w) = Some (Wait Mo_f1 w No_timeout)"
  by (simp_all add: mo_requeue_def mo_wake_def mo_wait_def timespec_arg_def)

lemma asleep_simps [simp]:
  "waits mo_asleep = [1 \<mapsto> (Mo_f1, None)]" "sleepers mo_asleep Mo_f1 = {1}" "queued mo_asleep t \<longleftrightarrow> t = 1"
  "holder mo_asleep b = None" "woken {Suc 0} mo_asleep = pi_idle" "mo_asleep \<noteq> pi_idle" "pi_idle \<noteq> mo_asleep"
  by (auto simp: mo_asleep_def pi_idle_def sleepers_def queued_def woken_def fun_eq_iff)

lemma mo_requeue_outcome:
  assumes "m Mo_f1 = 0"
  shows "pi_call t m pi_idle (Cmp_requeue_pi Mo_f1 (Some Mo_f2) 1 (Count 0) 0) r v' \<longleftrightarrow>
      r = Some (0, 0) \<and> v' = pi_idle"
    and "pi_call t m mo_asleep (Cmp_requeue_pi Mo_f1 (Some Mo_f2) 1 (Count 0) 0) r v' \<longleftrightarrow>
      r = Some (- 1, EINVAL) \<and> v' = mo_asleep"
  using assms
  by (auto simp: chosen_def elim: pi_call.cases intro!: requeue_none requeue_refused [where u = 1] split: if_splits)

lemma mo_wake_outcome:
  "pi_call t m mo_asleep (Wake Mo_f1 1) r v' \<longleftrightarrow> r = Some (1, 0) \<and> v' = pi_idle"
proof
  assume "pi_call t m mo_asleep (Wake Mo_f1 1) r v'"
  then show "r = Some (1, 0) \<and> v' = pi_idle"
  proof cases
    case (wake W)
    then have "W = {1}" by (auto simp: chosen_def card_1_singleton_iff)
    with wake show ?thesis by simp
  qed simp
next
  have "pi_call t m mo_asleep (Wake Mo_f1 1) (Some (int (card {1 :: tid}), 0)) (woken {1} mo_asleep)"
    by (rule wake) (auto simp: chosen_def split: if_splits)
  moreover assume "r = Some (1, 0) \<and> v' = pi_idle"
  ultimately show "pi_call t m mo_asleep (Wake Mo_f1 1) r v'" by simp
qed

lemma mo_asleepI: "pi_idle\<lparr>waits := (waits pi_idle)(1 \<mapsto> (Mo_f1, None))\<rparr> = mo_asleep"
  by (simp add: mo_asleep_def pi_idle_def)

lemma mo_wait_outcome:
  assumes "m Mo_f1 = 0"
  shows "pi_call 1 m pi_idle (Wait Mo_f1 0 No_timeout) r v' \<longleftrightarrow> r = None \<and> v' = mo_asleep"
  using assms wait_blocks [of No_timeout m Mo_f1 0 1 pi_idle] unfolding mo_asleepI
  by (auto elim!: pi_call.cases simp: mo_asleepI simp del: One_nat_def)

lemma mo_resume_outcome:
  "pi_resume t f pi_idle (r, e) v' \<longleftrightarrow> r = 0 \<and> e = 0 \<and> v' = pi_idle"
  "\<not> pi_resume 1 (Wait Mo_f1 0 No_timeout) mo_asleep (r, e) v'"
  by (auto elim: pi_resume.cases intro: resume_woken)

lemmas mo_outcomes = mo_requeue_outcome mo_wake_outcome mo_wait_outcome mo_resume_outcome

section \<open>The invariant\<close>

text \<open>The child before it is woken, asleep, and after.\<close>

definition mo_sleeping :: "mo_pc tstatus \<Rightarrow> mo_loc pi_view \<Rightarrow> bool" where
  "mo_sleeping child v \<longleftrightarrow> child = Blocked (Child_wait 0) \<and> v = mo_asleep"

definition mo_before :: "mo_pc tstatus \<Rightarrow> mo_loc pi_view \<Rightarrow> bool" where
  "mo_before child v \<longleftrightarrow> mo_sleeping child v \<or>
     (child \<in> {Unborn, Running Child_read, Running (Child_wait 0)} \<and> v = pi_idle)"

definition mo_after :: "mo_pc tstatus \<Rightarrow> mo_loc pi_view \<Rightarrow> bool" where
  "mo_after child v \<longleftrightarrow> v = pi_idle \<and>
     (child \<in> {Blocked (Child_wait 0), Running Child_done, Exited} \<or>
      (\<exists>r e. child \<in> {Running (Child_store r e), Running (Child_check e), Running (Child_error e)}))"

definition mo_ended :: "mo_pc tstatus \<Rightarrow> mo_loc pi_view \<Rightarrow> bool" where
  "mo_ended child v \<longleftrightarrow> (child = Unborn \<and> v = pi_idle) \<or> (child = Exited \<and> v = pi_idle)"

fun mo_stage :: "mo_pc tstatus \<Rightarrow> mo_pc tstatus \<Rightarrow> mo_loc pi_view \<Rightarrow> bool" where
  "mo_stage (Running Wake_child) = mo_sleeping"
| "mo_stage (Running (Join_child ret)) = (if ret = RET_PASS then mo_after else mo_before)"
| "mo_stage (Running Read_child_ret) = mo_ended"
| "mo_stage (Running (Main_done ret)) = mo_ended"
| "mo_stage (Running (Requeue w)) = (if w = 0 then mo_before else (\<lambda>_ _. False))"
| "mo_stage (Running l) = mo_before"
| "mo_stage _ = (\<lambda>_ _. False)"

fun child_fine :: "mo_loc event \<Rightarrow> bool" where
  "child_fine (Called t c r e) \<longleftrightarrow> (t = 1 \<longrightarrow> r = 0)"
| "child_fine _ \<longleftrightarrow> True"

definition mo_conf :: "(mo_loc, mo_pc) lstate \<Rightarrow> mo_loc pi_view \<Rightarrow> bool" where
  "mo_conf s v \<longleftrightarrow> (\<forall>t. lthr s t = Exited) \<or>
     (lthr s 0 \<noteq> Exited \<and> lmem s Mo_f1 = 0 \<and> mo_stage (lthr s 0) (lthr s 1) v \<and>
      list_all child_fine (llog s) \<and>
      (\<forall>ret. lthr s 0 = Running (Main_done ret) \<longrightarrow> lthr s 1 \<noteq> Unborn \<longrightarrow>
         main_verdict (answers 0 (llog s)) = 0))"

lemmas mo_stage_defs = mo_sleeping_def mo_before_def mo_after_def mo_ended_def

lemma mo_stage_child:
  assumes "mo_stage st child v" "mo_before child v \<Longrightarrow> mo_before child' v'"
    "mo_sleeping child v \<Longrightarrow> mo_sleeping child' v'" "mo_after child v \<Longrightarrow> mo_after child' v'"
    "mo_ended child v \<Longrightarrow> mo_ended child' v'"
  shows "mo_stage st child' v'"
  using assms(1) by (cases st rule: mo_stage.cases) (simp_all add: assms(2-5) split: if_splits)

lemma mo_child_step:
  assumes conf: "mo_conf s v" and go: "lthr s 0 \<noteq> Exited" "lthr s 1 \<noteq> Unborn" "st \<noteq> Unborn"
    and m: "m Mo_f1 = 0" "log = llog s \<or> (\<exists>c e. log = llog s @ [Called 1 c 0 e])"
    and st: "mo_before (lthr s 1) v \<Longrightarrow> mo_before st v'" "mo_sleeping (lthr s 1) v \<Longrightarrow> mo_sleeping st v'"
      "mo_after (lthr s 1) v \<Longrightarrow> mo_after st v'" "mo_ended (lthr s 1) v \<Longrightarrow> mo_ended st v'"
  shows "mo_conf (lgoto 1 st (s\<lparr>lmem := m, llog := log\<rparr>)) v'"
proof -
  from conf go have "mo_stage (lthr s 0) (lthr s 1) v" by (auto simp: mo_conf_def)
  then have "mo_stage (lthr s 0) st v'" by (rule mo_stage_child) (fact st)+
  with conf go m show ?thesis by (auto simp: mo_conf_def simp del: One_nat_def)
qed

lemma mo_conf_main:
  assumes conf: "mo_conf s v" "mo_inv s" and go: "lthr s 0 \<noteq> Exited" and m: "lthr s 0 = Running l"
    and move: "p_move mismatched_ops 0 l s v s' v'"
  shows "mo_conf s' v'"
proof -
  from conf go m have st: "mo_stage (Running l) (lthr s 1) v" "lmem s Mo_f1 = 0" "list_all child_fine (llog s)"
    and inv: "main_ok (llog s) (lthr s 1) (Running l)" by (auto simp: mo_conf_def mo_inv_def)
  show ?thesis
  proof (cases l)
    case (Requeue w)
    with st have w: "w = 0" "mo_before (lthr s 1) v" by (auto split: if_splits)
    then consider "v = pi_idle" | "v = mo_asleep" by (auto simp: mo_stage_defs)
    then show ?thesis
      using move w st Requeue m go
      by cases (auto simp: p_move_def mo_outcomes mo_conf_def mo_stage_defs after_requeue_def same_outside_def ret_defs)
  next
    case Wake_child
    with st have w: "mo_sleeping (lthr s 1) v" by simp
    then have "v = mo_asleep" by (simp add: mo_sleeping_def)
    with move w st Wake_child m go show ?thesis
      by (auto simp: p_move_def mo_outcomes mo_conf_def mo_stage_defs after_wake_def same_outside_def ret_defs)
  next
    case Create_child
    with st inv m go move show ?thesis
      by (auto simp: p_move_def mo_conf_def mo_stage_defs split: if_splits)
  next
    case (Join_child ret)
    with st inv m go move show ?thesis
      by (auto simp: p_move_def mo_conf_def mo_stage_defs RET_PASS_def split: if_splits)
  qed (insert st inv m go move, simp_all add: p_move_def mo_conf_def)
qed

lemma mo_conf_child:
  assumes conf: "mo_conf s v" "mo_inv s" and go: "lthr s 0 \<noteq> Exited"
    and m: "lthr s 1 = Running l \<or> lthr s 1 = Blocked l" and move: "p_move mismatched_ops 1 l s v s' v'"
  shows "mo_conf s' v'"
proof -
  from conf go have st: "mo_stage (lthr s 0) (lthr s 1) v" "lmem s Mo_f1 = 0"
    and inv: "child_ok (lmem s Child_ret) (answers 1 (llog s)) (lthr s 1)" by (auto simp: mo_conf_def mo_inv_def)
  note step = mo_child_step [OF conf(1) go]
  show ?thesis
  proof (cases l)
    case (Child_wait w)
    then have w: "w = 0" "v = pi_idle \<or> (v = mo_asleep \<and> lthr s 1 = Blocked l)"
      using st(1) m by (cases "lthr s 0" rule: mo_stage.cases; auto simp: mo_stage_defs split: if_splits)+
    from m show ?thesis
    proof
      assume l: "lthr s 1 = Running l"
      with w move st(2) Child_wait obtain m' where m': "same_outside {} (lmem s) m'" "v' = mo_asleep"
        "s' = lgoto 1 (Blocked l) (s\<lparr>lmem := m'\<rparr>)"
        by (auto simp: p_move_def mo_outcomes simp del: One_nat_def)
      from m'(1) st(2) have "m' Mo_f1 = 0" by (simp add: same_outside_def)
      with m'(2,3) l w Child_wait step [of "Blocked l" m' "llog s" v'] show ?thesis
        by (simp add: mo_stage_defs)
    next
      assume l: "lthr s 1 = Blocked l"
      with w move st(2) Child_wait obtain m' where m': "same_outside {} (lmem s) m'" "v' = pi_idle" "v = pi_idle"
        "s' = lgoto 1 (Running (Child_store 0 0)) (s\<lparr>lmem := m', llog := llog s @ [Called 1 (mo_wait w) 0 0]\<rparr>)"
        by (auto simp: p_move_def mo_outcomes simp del: One_nat_def)
      from m'(1) st(2) have "m' Mo_f1 = 0" by (simp add: same_outside_def)
      with m'(2-4) l w Child_wait step [of "Running (Child_store 0 0)" m' "llog s @ [Called 1 (mo_wait w) 0 0]" v']
      show ?thesis by (simp add: mo_stage_defs)
    qed
  next
    case Child_done
    with m inv have "lthr s 1 = Running l" by auto
    with Child_done move st step [of Exited "lmem s" "llog s" v] show ?thesis
      by (simp add: p_move_def mo_stage_defs)
  next
    case Child_read
    with m inv have "lthr s 1 = Running l" by auto
    with Child_read move st step [of "Running (Child_wait 0)" "lmem s" "llog s" v] show ?thesis
      by (auto simp: p_move_def mo_stage_defs)
  next
    case (Child_store r e)
    with m inv have "lthr s 1 = Running l" by auto
    with Child_store move st step [of "Running (Child_check e)" _ "llog s" v] show ?thesis
      by (auto simp: p_move_def mo_stage_defs)
  next
    case (Child_check e)
    with m inv have "lthr s 1 = Running l" by auto
    with Child_check move st step [of "Running (Child_error e)" "lmem s" "llog s" v]
      step [of "Running Child_done" "lmem s" "llog s" v] show ?thesis
      by (auto simp: p_move_def mo_stage_defs)
  next
    case (Child_error e)
    with m inv have "lthr s 1 = Running l" by auto
    with Child_error move st step [of "Running Child_done" _ "llog s" v] show ?thesis
      by (auto simp: p_move_def mo_stage_defs)
  qed (use m inv in auto)
qed

lemma mo_conf_kept:
  assumes inv: "mo_inv s" "mo_conf s v" and step: "pstep mismatched_ops (s, v) (s', v')"
  shows "mo_conf s' v'"
proof -
  from pstep_move [OF step] obtain t l where t: "lthr s t = Running l \<or> lthr s t = Blocked l"
    and move: "p_move mismatched_ops t l s v s' v'" by blast
  have go: "lthr s 0 \<noteq> Exited" using inv(2) t by (auto simp: mo_conf_def)
  from mo_thread [OF inv(1) t go] show ?thesis
  proof
    assume "t = 0"
    moreover from this t inv(2) go have "lthr s 0 = Running l" by (auto simp: mo_conf_def)
    ultimately show ?thesis using mo_conf_main [OF inv(2,1) go] move by simp
  next
    assume "t = 1"
    with mo_conf_child [OF inv(2,1) go] t move show ?thesis by simp
  qed
qed

interpretation mo_pi: pi_program mismatched_ops "{Mo_f1, Mo_f2}" Create_child mo_memory mo_inv mo_conf
  by unfold_locales
    (simp add: mo_conf_def linit_def start_threads_def mo_stage_defs, rule mo_conf_kept)

section \<open>Properties\<close>

text \<open>C25: on a kernel that keeps the contract \<^verbatim>\<open>futex_requeue_pi_mismatched_ops\<close> raises no false alarm.
  Whenever \<^verbatim>\<open>main\<close> returns, it returns \<^verbatim>\<open>RET_PASS\<close>, unless the child could not be created, when it
  returns \<^verbatim>\<open>RET_ERROR\<close>.\<close>

theorem mismatched_ops_conforming:
  assumes "pi_reach K view {Mo_f1, Mo_f2} mismatched_ops Create_child mo_memory s"
    "thr s 0 = Running (Main_done ret)"
  shows "ret = (if thr s 1 = Unborn then RET_ERROR else RET_PASS)"
proof -
  from mo_pi.pi_reach_pinv [OF assms(1)] assms(2) have
    conf: "thr s 1 = Unborn \<or> (thr s 1 = Exited \<and> main_verdict (answers 0 (klog s)) = 0)"
      "list_all child_fine (klog s)"
    by (auto simp: mo_conf_def mo_ended_def)
  show ?thesis
  proof (cases "thr s 1 = Unborn")
    case True
    with mo.test_reach_tinv [OF pi_reach_test [OF assms(1)]] assms(2) show ?thesis by (auto simp: mo_inv_def)
  next
    case False
    with mo.test_reach_tinv [OF pi_reach_test [OF assms(1)]] assms(2) conf(1) obtain v r e where
      "answers 1 (klog s) = [Called 1 (mo_wait v) r e]" "ret = child_value r e"
      by (auto simp: mo_inv_def)
    moreover from this(1) have "Called 1 (mo_wait v) r e \<in> set (klog s)"
      by (metis answers_def filter_is_subset list.set_intros(1) subsetD)
    with conf(2) have "r = 0" by (auto simp: list_all_iff)
    ultimately show ?thesis using False by (simp add: child_value_def RET_PASS_def)
  qed
qed

definition mo_detected where
  "mo_detected = the (scheduled pi_kernel pi_start mismatched_ops Create_child mo_memory
     [0, 1, 1, 0, 0, 0, 0, 1, 1, 1, 1, 0, 0])"

lemma mo_detected_reach:
  "pi_reach pi_kernel pi_view_of {Mo_f1, Mo_f2} mismatched_ops Create_child mo_memory mo_detected"
  unfolding mo_detected_def by (rule pi_scheduled_reach) code_simp

lemma mo_detected_facts: "thr mo_detected 0 = Running (Main_done 0)" "thr mo_detected 1 = Exited"
  by code_simp+

theorem mismatched_ops_conforming_witness: "thr mo_detected 0 = Running (Main_done RET_PASS)"
  using mismatched_ops_conforming [OF mo_detected_reach mo_detected_facts(1)] mo_detected_facts by simp

text \<open>C26: a late child hangs the test.  If the requeue call finds no waiter, because the child needed more
  than the second \<^verbatim>\<open>main\<close> sleeps, \<^verbatim>\<open>main\<close> only prints an error and joins the child, which nobody wakes
  any more: on any kernel that keeps the contract, once the child sleeps no thread can ever move.\<close>

theorem mismatched_ops_late_child:
  assumes "pi_reach K view {Mo_f1, Mo_f2} mismatched_ops Create_child mo_memory s"
    "thr s 0 = Running (Join_child RET_ERROR)" "thr s 1 = Blocked l"
  shows "tstep (logged K) mismatched_ops t s = None"
proof -
  have inv: "mo_inv (log_abs s)" using assms(1) by (intro mo.test_reach_tinv pi_reach_test)
  from mo_pi.pi_reach_pinv [OF assms(1)] assms(2,3) have
    child: "l = Child_wait 0" and v: "kview view s = mo_asleep"
    by (auto simp: mo_conf_def mo_stage_defs ret_defs)
  from inv assms(2) have "\<forall>t>1. thr s t = Unborn" by (auto simp: mo_inv_def)
  then consider "t = 0" | "t = 1" | "thr s t = Unborn" by (metis less_one linorder_neqE_nat)
  then show ?thesis
  proof cases
    case 2
    with assms(3) child show ?thesis
      using queued_stays [OF pi_reach_contract [OF assms(1)], of s t "Child_wait 0" mismatched_ops "mo_wait 0"]
      by (simp add: v)
  qed (use assms in \<open>auto simp: tstep_def\<close>)
qed

definition mo_late where
  "mo_late = the (scheduled pi_kernel pi_start mismatched_ops Create_child mo_memory [0, 0, 0, 0, 1, 1])"

lemma mo_late_reach:
  "pi_reach pi_kernel pi_view_of {Mo_f1, Mo_f2} mismatched_ops Create_child mo_memory mo_late"
  unfolding mo_late_def by (rule pi_scheduled_reach) code_simp

lemma mo_late_facts: "thr mo_late 0 = Running (Join_child (- 1))" "thr mo_late 1 = Blocked (Child_wait 0)"
  by code_simp+

theorem mismatched_ops_late_child_witness:
  "thr mo_late 0 = Running (Join_child RET_ERROR) \<and> tstep (logged pi_kernel) mismatched_ops 1 mo_late = None"
  using mismatched_ops_late_child [OF mo_late_reach _ mo_late_facts(2)] mo_late_facts(1)
  by (simp add: RET_ERROR_def)

end
