(* ===== verification/Private_Conf.thy ===== *)
theory Private_Conf
  imports Pi_Runs Private_Mapped
begin

text \<open>
  \<^verbatim>\<open>functional/futex_wait_private_mapped_file.c\<close> on a kernel that keeps \<open>pi_contract\<close>.  \<^verbatim>\<open>main\<close> changes the
  word before it wakes the waiter, so a late waiter does not fall asleep: nobody can be left
  waiting (\<open>private_mapped_not_stuck\<close>), the unexpected error that ends the process does not occur, and
  the result says what the waiter saw (\<open>private_mapped_conforming\<close>).  It can be \<^verbatim>\<open>RET_FAIL\<close>, if the
  waiter needed more than the three seconds \<^verbatim>\<open>main\<close> sleeps or its five seconds ran out before.
\<close>

section \<open>The answers of the kernel\<close>

definition pm_asleep :: "pm_loc pi_view" where
  "pm_asleep = pi_idle\<lparr>waits := [1 \<mapsto> (Pm_val, None)]\<rparr>"

abbreviation pm_timeout :: timeout_arg where
  "pm_timeout \<equiv> timespec_arg (Some \<lparr>tv_sec = 5, tv_nsec = 0\<rparr>)"

lemma pm_decode [simp]: "decode pm_wait_call = Some (Wait Pm_val 1 pm_timeout)"
  "decode pm_wake_call = Some (Wake Pm_val 1)" "pm_timeout \<noteq> No_timeout" "timeout_valid pm_timeout"
  by (simp_all add: pm_wait_call_def pm_wake_call_def timespec_arg_def)

lemma pm_asleep_simps [simp]:
  "waits pm_asleep = [1 \<mapsto> (Pm_val, None)]" "sleepers pm_asleep Pm_val = {1}" "queued pm_asleep t \<longleftrightarrow> t = 1"
  "cut_short pm_asleep t = None" "woken {Suc 0} pm_asleep = pi_idle" "pm_asleep \<noteq> pi_idle" "pi_idle \<noteq> pm_asleep"
  "leave_queues (Suc 0) pm_asleep = pi_idle" "woken {} pi_idle = pi_idle"
  by (auto simp: pm_asleep_def pi_idle_def sleepers_def queued_def woken_def leave_queues_def fun_eq_iff)

lemma pm_asleepI: "pi_idle\<lparr>waits := (waits pi_idle)(1 \<mapsto> (Pm_val, None))\<rparr> = pm_asleep"
  by (simp add: pm_asleep_def pi_idle_def)

lemma pm_wake_outcome:
  "pi_call t m pm_asleep (Wake Pm_val 1) r v' \<longleftrightarrow> r = Some (1, 0) \<and> v' = pi_idle"
  "pi_call t m pi_idle (Wake Pm_val 1) r v' \<longleftrightarrow> r = Some (0, 0) \<and> v' = pi_idle"
proof -
  have "pi_call t m pm_asleep (Wake Pm_val 1) (Some (int (card {1 :: tid}), 0)) (woken {1} pm_asleep)"
    by (rule wake) (auto simp: chosen_def split: if_splits)
  then show "pi_call t m pm_asleep (Wake Pm_val 1) r v' \<longleftrightarrow> r = Some (1, 0) \<and> v' = pi_idle"
    by (auto elim!: pi_call.cases simp: chosen_def card_1_singleton_iff)
  have "pi_call t m pi_idle (Wake Pm_val 1) (Some (int (card ({} :: tid set)), 0)) (woken {} pi_idle)"
    by (rule wake) (auto simp: chosen_def)
  then show "pi_call t m pi_idle (Wake Pm_val 1) r v' \<longleftrightarrow> r = Some (0, 0) \<and> v' = pi_idle"
    by (auto elim!: pi_call.cases simp: chosen_def)
qed

lemma pm_wait_outcome:
  "m Pm_val = 1 \<Longrightarrow> pi_call 1 m pi_idle (Wait Pm_val 1 pm_timeout) r v' \<longleftrightarrow> r = None \<and> v' = pm_asleep"
  "m Pm_val = 2 \<Longrightarrow> pi_call 1 m pi_idle (Wait Pm_val 1 pm_timeout) r v' \<longleftrightarrow>
     r = Some (- 1, EWOULDBLOCK) \<and> v' = pi_idle"
  using wait_blocks [of pm_timeout m Pm_val 1 1 pi_idle] wait_changed [of pm_timeout m Pm_val 1 1 pi_idle]
  unfolding pm_asleepI by (auto elim!: pi_call.cases simp: pm_asleepI simp del: One_nat_def)

lemma pm_resume_outcome:
  "pi_resume 1 (Wait Pm_val 1 pm_timeout) pi_idle (r, e) v' \<longleftrightarrow> r = 0 \<and> e = 0 \<and> v' = pi_idle"
  "pi_resume 1 (Wait Pm_val 1 pm_timeout) pm_asleep (r, e) v' \<longleftrightarrow> r = - 1 \<and> e = ETIMEDOUT \<and> v' = pi_idle"
  using resume_timed_out [of pm_asleep 1 "Wait Pm_val 1 pm_timeout"] resume_woken [of pi_idle 1]
  by (auto elim!: pi_resume.cases)

lemmas pm_outcomes = pm_wake_outcome pm_wait_outcome pm_resume_outcome

section \<open>The invariant\<close>

text \<open>The waiter before its call, asleep, woken, and returned without having been woken.\<close>

definition pm_fresh :: "pm_pc tstatus \<Rightarrow> pm_loc event list \<Rightarrow> pm_loc pi_view \<Rightarrow> bool" where
  "pm_fresh child ans v \<longleftrightarrow> child \<in> {Unborn, Running Thr_wait} \<and> v = pi_idle"

definition pm_sleeping :: "pm_pc tstatus \<Rightarrow> pm_loc event list \<Rightarrow> pm_loc pi_view \<Rightarrow> bool" where
  "pm_sleeping child ans v \<longleftrightarrow> child = Blocked Thr_wait \<and> v = pm_asleep"

definition pm_woken :: "pm_pc tstatus \<Rightarrow> pm_loc event list \<Rightarrow> pm_loc pi_view \<Rightarrow> bool" where
  "pm_woken child ans v \<longleftrightarrow> v = pi_idle \<and> (child = Blocked Thr_wait \<or>
     (child \<in> {Running Thr_return, Exited} \<and> ans = [Called 1 pm_wait_call 0 0]))"

definition pm_unwoken :: "pm_pc tstatus \<Rightarrow> pm_loc event list \<Rightarrow> pm_loc pi_view \<Rightarrow> bool" where
  "pm_unwoken child ans v \<longleftrightarrow> v = pi_idle \<and> child \<in> {Running Thr_return, Exited} \<and>
     ans \<in> {[Called 1 pm_wait_call (- 1) EWOULDBLOCK], [Called 1 pm_wait_call (- 1) ETIMEDOUT]}"

lemmas pm_stage_defs = pm_fresh_def pm_sleeping_def pm_woken_def pm_unwoken_def

definition pm_early :: "pm_pc tstatus \<Rightarrow> pm_loc event list \<Rightarrow> pm_loc pi_view \<Rightarrow> bool" where
  "pm_early child ans v \<longleftrightarrow> pm_fresh child ans v \<or> pm_sleeping child ans v \<or> pm_unwoken child ans v"

definition pm_missed :: "pm_pc tstatus \<Rightarrow> pm_loc event list \<Rightarrow> pm_loc pi_view \<Rightarrow> bool" where
  "pm_missed child ans v \<longleftrightarrow> pm_fresh child ans v \<or> pm_unwoken child ans v"

text \<open>The stage by the control point of \<^verbatim>\<open>main\<close>, with the value of the word.\<close>

fun pm_stage :: "pm_pc tstatus \<Rightarrow> u32 \<Rightarrow> pm_pc tstatus \<Rightarrow> pm_loc event list \<Rightarrow> pm_loc pi_view \<Rightarrow> bool" where
  "pm_stage (Running Create_waiter) w child ans v \<longleftrightarrow> w = 1 \<and> pm_early child ans v"
| "pm_stage (Running (Pm_sleep ret)) w child ans v \<longleftrightarrow> w = 1 \<and> pm_early child ans v"
| "pm_stage (Running (Store_val ret)) w child ans v \<longleftrightarrow> w = 1 \<and> pm_early child ans v"
| "pm_stage (Running (Pm_wake ret)) w child ans v \<longleftrightarrow> w = 2 \<and> pm_early child ans v"
| "pm_stage (Running (Pm_join ret)) w child ans v \<longleftrightarrow>
     w = 2 \<and> (if ret = RET_FAIL then pm_missed child ans v else pm_woken child ans v)"
| "pm_stage (Running (Pm_done ret)) w child ans v \<longleftrightarrow> child = Unborn \<or>
     (w = 2 \<and> (if ret = RET_FAIL then pm_missed child ans v else pm_woken child ans v))"
| "pm_stage _ w child ans v \<longleftrightarrow> False"

lemma pm_stageD:
  assumes "pm_stage st w child ans v"
  shows "\<exists>l. st = Running l" "child \<noteq> Unborn \<Longrightarrow> w = 1 \<or> w = 2"
    "child \<noteq> Unborn \<Longrightarrow> pm_early child ans v \<or> pm_woken child ans v"
  using assms by (cases "(st, w, child, ans, v)" rule: pm_stage.cases;
    auto simp: pm_early_def pm_missed_def split: if_splits)+

definition pm_conf :: "(pm_loc, pm_pc) lstate \<Rightarrow> pm_loc pi_view \<Rightarrow> bool" where
  "pm_conf s v \<longleftrightarrow> (\<forall>t. lthr s t = Exited) \<or>
     (lthr s 0 \<noteq> Exited \<and> pm_stage (lthr s 0) (lmem s Pm_val) (lthr s 1) (answers 1 (llog s)) v)"

lemma pm_conf_main:
  assumes conf: "pm_conf s v" "pm_inv s" and go: "lthr s 0 \<noteq> Exited" and m: "lthr s 0 = Running l"
    and move: "p_move private_mapped 0 l s v s' v'"
  shows "pm_conf s' v'"
proof -
  from conf go m have st: "pm_stage (Running l) (lmem s Pm_val) (lthr s 1) (answers 1 (llog s)) v"
    and inv: "pm_main_ok (answers 0 (llog s)) (lthr s 1) (Running l)" by (auto simp: pm_conf_def pm_inv_def)
  show ?thesis
  proof (cases l)
    case (Pm_wake ret)
    with st consider "pm_sleeping (lthr s 1) (answers 1 (llog s)) v" | "pm_missed (lthr s 1) (answers 1 (llog s)) v"
      by (auto simp: pm_early_def pm_missed_def)
    then show ?thesis
    proof cases
      case 1
      with Pm_wake st inv m go move show ?thesis
        by (auto simp: p_move_def pm_conf_def pm_outcomes pm_stage_defs created_def ret_defs same_outside_def)
    next
      case 2
      then have "v = pi_idle" by (auto simp: pm_missed_def pm_stage_defs)
      with 2 Pm_wake st inv m go move show ?thesis
        by (auto simp: p_move_def pm_conf_def pm_outcomes same_outside_def)
    qed
  next
    case Create_waiter
    with st inv m go move show ?thesis
      by (auto simp: p_move_def pm_conf_def pm_early_def pm_stage_defs)
  next
    case (Pm_join ret)
    with st inv m go move show ?thesis by (auto simp: p_move_def pm_conf_def)
  qed (insert st inv m go move, auto simp: p_move_def pm_conf_def)
qed

lemma pm_stage_child:
  assumes "pm_stage st w child ans v" "child \<noteq> Unborn"
    "pm_early child ans v \<Longrightarrow> pm_early child' ans' v'" "w = 2 \<Longrightarrow> pm_missed child ans v \<Longrightarrow> pm_missed child' ans' v'"
    "pm_woken child ans v \<Longrightarrow> pm_woken child' ans' v'"
  shows "pm_stage st w child' ans' v'"
  using assms by (cases "(st, w, child, ans, v)" rule: pm_stage.cases) (auto split: if_splits)

lemma pm_child_step:
  assumes conf: "pm_conf s v" and go: "lthr s 0 \<noteq> Exited" "lthr s 1 \<noteq> Unborn"
    and m: "m Pm_val = lmem s Pm_val"
    and st: "pm_early (lthr s 1) (answers 1 (llog s)) v \<Longrightarrow> pm_early st (answers 1 log) v'"
      "lmem s Pm_val = 2 \<Longrightarrow> pm_missed (lthr s 1) (answers 1 (llog s)) v \<Longrightarrow> pm_missed st (answers 1 log) v'"
      "pm_woken (lthr s 1) (answers 1 (llog s)) v \<Longrightarrow> pm_woken st (answers 1 log) v'"
  shows "pm_conf (lgoto 1 st (s\<lparr>lmem := m, llog := log\<rparr>)) v'"
proof -
  from conf go have "pm_stage (lthr s 0) (lmem s Pm_val) (lthr s 1) (answers 1 (llog s)) v"
    by (auto simp: pm_conf_def)
  from pm_stage_child [OF this go(2) st] go m show ?thesis by (simp add: pm_conf_def)
qed

lemma pm_conf_child:
  assumes conf: "pm_conf s v" "pm_inv s" and go: "lthr s 0 \<noteq> Exited"
    and m: "lthr s 1 = Running l \<or> lthr s 1 = Blocked l" and move: "p_move private_mapped 1 l s v s' v'"
  shows "pm_conf s' v'"
proof -
  from conf go have st: "pm_stage (lthr s 0) (lmem s Pm_val) (lthr s 1) (answers 1 (llog s)) v"
    and inv: "pm_child_ok (answers 1 (llog s)) (lthr s 1)" by (auto simp: pm_conf_def pm_inv_def)
  from m have un: "lthr s 1 \<noteq> Unborn" by auto
  note step = pm_child_step [OF conf(1) go un]
  have "lthr s 1 \<in> {Running Thr_wait, Blocked Thr_wait, Running Thr_return, Exited}"
    using pm_stageD(3) [OF st un] unfolding pm_early_def pm_stage_defs using un by blast
  with m consider "l = Thr_wait" "lthr s 1 = Running l" | "l = Thr_wait" "lthr s 1 = Blocked l" | "l = Thr_return" "lthr s 1 = Running l"
    by fastforce
  then show ?thesis
  proof cases
    case 1
    with pm_stageD(2,3) [OF st un] have v: "v = pi_idle" "lmem s Pm_val = 1 \<or> lmem s Pm_val = 2"
      by (auto simp: pm_early_def pm_stage_defs)
    from 1 inv have ans: "answers 1 (llog s) = []" by simp
    from v(2) show ?thesis
    proof
      assume w: "lmem s Pm_val = 1"
      with 1 v move obtain m' where "same_outside {} (lmem s) m'" "v' = pm_asleep" "s' = lgoto 1 (Blocked l) (s\<lparr>lmem := m'\<rparr>)"
        by (auto simp: p_move_def pm_outcomes simp del: One_nat_def)
      with 1 v w step [of m' "Blocked l" "llog s" v'] show ?thesis
        by (simp add: same_outside_def pm_early_def pm_stage_defs)
    next
      assume w: "lmem s Pm_val = 2"
      with 1 v move obtain m' where "same_outside {} (lmem s) m'" "v' = pi_idle"
        "s' = lgoto 1 (Running Thr_return) (s\<lparr>lmem := m', llog := llog s @ [Called 1 pm_wait_call (- 1) EWOULDBLOCK]\<rparr>)"
        by (auto simp: p_move_def pm_outcomes thr_futex_wait_cont_def simp del: One_nat_def)
      with 1 v w ans step [of m' "Running Thr_return" "llog s @ [Called 1 pm_wait_call (- 1) EWOULDBLOCK]" v'] show ?thesis
        by (simp add: same_outside_def pm_early_def pm_missed_def pm_stage_defs)
    qed
  next
    case 2
    with inv have ans: "answers 1 (llog s) = []" by simp
    from 2 pm_stageD(3) [OF st un] have "v = pm_asleep \<or> v = pi_idle" by (auto simp: pm_early_def pm_stage_defs)
    then show ?thesis
    proof
      assume v: "v = pm_asleep"
      with 2 move obtain m' where "same_outside {} (lmem s) m'" "v' = pi_idle"
        "s' = lgoto 1 (Running Thr_return) (s\<lparr>lmem := m', llog := llog s @ [Called 1 pm_wait_call (- 1) ETIMEDOUT]\<rparr>)"
        by (auto simp: p_move_def pm_outcomes thr_futex_wait_cont_def simp del: One_nat_def)
      with 2 v ans step [of m' "Running Thr_return" "llog s @ [Called 1 pm_wait_call (- 1) ETIMEDOUT]" v'] show ?thesis
        by (simp add: same_outside_def pm_early_def pm_missed_def pm_stage_defs)
    next
      assume v: "v = pi_idle"
      with 2 move obtain m' where "same_outside {} (lmem s) m'" "v' = pi_idle"
        "s' = lgoto 1 (Running Thr_return) (s\<lparr>lmem := m', llog := llog s @ [Called 1 pm_wait_call 0 0]\<rparr>)"
        by (auto simp: p_move_def pm_outcomes thr_futex_wait_cont_def simp del: One_nat_def)
      with 2 v ans step [of m' "Running Thr_return" "llog s @ [Called 1 pm_wait_call 0 0]" v'] show ?thesis
        by (simp add: same_outside_def pm_early_def pm_missed_def pm_stage_defs)
    qed
  next
    case 3
    with move have s': "v' = v" "s' = lgoto 1 Exited (s\<lparr>lmem := lmem s, llog := llog s\<rparr>)"
      by (simp_all add: p_move_def)
    show ?thesis unfolding s' by (rule step) (use 3 in \<open>auto simp: pm_early_def pm_missed_def pm_stage_defs\<close>)
  qed
qed

lemma pm_conf_kept:
  assumes inv: "pm_inv s" "pm_conf s v" and step: "pstep private_mapped (s, v) (s', v')"
  shows "pm_conf s' v'"
proof -
  from pstep_move [OF step] obtain t l where t: "lthr s t = Running l \<or> lthr s t = Blocked l"
    and move: "p_move private_mapped t l s v s' v'" by blast
  have go: "lthr s 0 \<noteq> Exited" using inv(2) t by (auto simp: pm_conf_def)
  have "t = 0 \<or> t = 1" using inv(1) go two_threads [OF _ t] by (auto simp: pm_inv_def)
  then show ?thesis
  proof
    assume "t = 0"
    moreover from this t inv(2) go have "lthr s 0 = Running l" by (auto simp: pm_conf_def)
    ultimately show ?thesis using pm_conf_main [OF inv(2,1) go] move by simp
  next
    assume "t = 1"
    with pm_conf_child [OF inv(2,1) go] t move show ?thesis by simp
  qed
qed

interpretation pm_pi: pi_program private_mapped "{Pm_val}" Create_waiter pm_memory pm_inv pm_conf
  by unfold_locales
    (simp add: pm_conf_def linit_def start_threads_def pm_early_def pm_stage_defs, rule pm_conf_kept)

section \<open>Properties\<close>

text \<open>C29: on a kernel that keeps the contract the result of \<^verbatim>\<open>futex_wait_private_mapped_file\<close> says what the
  waiter saw: if \<^verbatim>\<open>main\<close> returns and the waiter was created, it returns \<^verbatim>\<open>RET_PASS\<close> exactly if the wait
  returned 0, and \<^verbatim>\<open>RET_FAIL\<close> exactly if the waiter came too late to sleep or gave up before it was
  woken.\<close>

theorem private_mapped_conforming:
  assumes "pi_reach K view {Pm_val} private_mapped Create_waiter pm_memory s" "thr s 0 = Running (Pm_done ret)"
    "thr s 1 \<noteq> Unborn"
  shows "(ret = RET_PASS \<longleftrightarrow> answers 1 (klog s) = [Called 1 pm_wait_call 0 0]) \<and>
    (ret = RET_FAIL \<longleftrightarrow> answers 1 (klog s) \<in>
       {[Called 1 pm_wait_call (- 1) EWOULDBLOCK], [Called 1 pm_wait_call (- 1) ETIMEDOUT]})"
proof -
  let ?ans = "answers 1 (klog s)"
  from pm.test_reach_tinv [OF pi_reach_test [OF assms(1)]] assms(2,3) have
    ret: "thr s 1 = Exited" "ret = RET_PASS \<or> ret = RET_FAIL" by (auto simp: pm_inv_def)
  from pm_pi.pi_reach_pinv [OF assms(1)] assms(2,3) have
    "if ret = RET_FAIL then pm_missed (thr s 1) ?ans (kview view s) else pm_woken (thr s 1) ?ans (kview view s)"
    by (auto simp: pm_conf_def)
  with ret(1) have "if ret = RET_FAIL then ?ans \<in> {[Called 1 pm_wait_call (- 1) EWOULDBLOCK], [Called 1 pm_wait_call (- 1) ETIMEDOUT]}
      else ?ans = [Called 1 pm_wait_call 0 0]"
    by (simp add: pm_missed_def pm_stage_defs split: if_splits)
  with ret(2) show ?thesis by (cases "ret = RET_FAIL") (auto simp: ret_defs)
qed

definition pm_good where
  "pm_good = the (scheduled pi_kernel pi_start private_mapped Create_waiter pm_memory [0, 1, 0, 0, 0, 1, 1, 0])"

lemma pm_good_reach: "pi_reach pi_kernel pi_view_of {Pm_val} private_mapped Create_waiter pm_memory pm_good"
  unfolding pm_good_def by (rule pi_scheduled_reach) code_simp

lemma pm_good_facts: "thr pm_good 0 = Running (Pm_done RET_PASS)" "thr pm_good 1 \<noteq> Unborn"
  by code_simp+

theorem private_mapped_conforming_witness: "answers 1 (klog pm_good) = [Called 1 pm_wait_call 0 0]"
  using private_mapped_conforming [OF pm_good_reach pm_good_facts] by blast






end
