(* ===== verification/Signal_Conf.thy ===== *)
theory Signal_Conf
  imports Pi_Runs Signal_Restart
begin

text \<open>
  \<^verbatim>\<open>functional/futex_requeue_pi_signal_restart.c\<close> on a kernel that keeps \<open>pi_contract\<close>.  Signals that
  come before the requeue leave the waiter asleep; the requeue that finds it moves it to the pi futex,
  which \<^verbatim>\<open>main\<close> holds; the signal after it ends the wait with \<^verbatim>\<open>EWOULDBLOCK\<close>.  So whatever the timing,
  \<^verbatim>\<open>main\<close> returns nothing but \<^verbatim>\<open>RET_PASS\<close> (\<open>signal_restart_conforming\<close>).
\<close>

section \<open>The answers of the kernel\<close>

datatype sr_phase = Awake | Asleep | Moved | Cut

definition sr_view :: "bool \<Rightarrow> sr_phase \<Rightarrow> sr_loc pi_view" where
  "sr_view held ph = \<lparr>waits = (if ph = Asleep then [1 \<mapsto> (F1, Some F2)] else Map.empty),
     pi_waits = (if ph = Moved then [1 \<mapsto> (F2, True)] else Map.empty),
     holder = (if held then [F2 \<mapsto> 0] else Map.empty),
     cut_short = (if ph = Cut then [1 \<mapsto> EWOULDBLOCK] else Map.empty)\<rparr>"

lemma sr_view_simps [simp]:
  "waits (sr_view h ph) u = (if u = 1 \<and> ph = Asleep then Some (F1, Some F2) else None)"
  "pi_waits (sr_view h ph) u = (if u = 1 \<and> ph = Moved then Some (F2, True) else None)"
  "holder (sr_view h ph) b = (if b = F2 \<and> h then Some 0 else None)"
  "cut_short (sr_view h ph) u = (if u = 1 \<and> ph = Cut then Some EWOULDBLOCK else None)"
  "sleepers (sr_view h ph) a = (if a = F1 \<and> ph = Asleep then {1} else {})"
  "queued (sr_view h ph) u \<longleftrightarrow> u = 1 \<and> (ph = Asleep \<or> ph = Moved)"
  "sr_view h ph = sr_view h' ph' \<longleftrightarrow> h = h' \<and> ph = ph'"
  by (auto simp: sr_view_def sleepers_def queued_def fun_eq_iff split: if_splits)
    (cases ph; cases ph'; auto simp: fun_eq_iff split: if_splits)+

lemma sr_decode [simp]:
  "decode (sr_requeue_call w) = Some (Cmp_requeue_pi F1 (Some F2) 1 (Count 0) w)"
  "decode sr_lock_call = Some (Lock_pi F2 No_timeout)" "decode sr_unlock_call = Some (Unlock_pi F2)"
  "decode (sr_wait_call w) = Some (Wait_requeue_pi F1 w No_timeout (Some F2))"
  by (simp_all add: sr_requeue_call_def sr_lock_call_def sr_unlock_call_def sr_wait_call_def timespec_arg_def)

lemma sr_view_changes:
  "(sr_view h ph)\<lparr>holder := (holder (sr_view h ph))(F2 \<mapsto> 0)\<rparr> = sr_view True ph"
  "(sr_view h ph)\<lparr>holder := (holder (sr_view h ph))(F2 := None)\<rparr> = sr_view False ph"
  "moved {1} F2 (sr_view h Asleep) = sr_view h Moved"
  "(sr_view h Awake)\<lparr>waits := (waits (sr_view h Awake))(1 \<mapsto> (F1, Some F2))\<rparr> = sr_view h Asleep"
  "(sr_view h Cut)\<lparr>cut_short := (cut_short (sr_view h Cut))(1 := None)\<rparr> = sr_view h Awake"
  "pi_signal 1 (sr_view h ph) = sr_view h (if ph = Moved then Cut else ph)"
  by (cases ph; auto simp: sr_view_def moved_def pi_signal_def leave_queues_def fun_eq_iff)+

lemma sr_lock_outcome:
  "pi_call 0 m (sr_view False ph) (Lock_pi F2 No_timeout) r v' \<longleftrightarrow> r = Some (0, 0) \<and> v' = sr_view True ph"
  using lock_free [of No_timeout "sr_view False ph" F2 0 m]
  by (auto simp: sr_view_changes elim: pi_call.cases)

lemma sr_unlock_outcome:
  "pi_call 0 m (sr_view True Awake) (Unlock_pi F2) r v' \<longleftrightarrow> r = Some (0, 0) \<and> v' = sr_view False Awake"
  using unlock_last [of "sr_view True Awake" F2 0 m]
  by (auto simp: sr_view_changes elim: pi_call.cases)

lemma sr_wait_outcome:
  "m F1 = 0 \<Longrightarrow> pi_call 1 m (sr_view h Awake) (Wait_requeue_pi F1 0 No_timeout (Some F2)) r v' \<longleftrightarrow>
    r = None \<and> v' = sr_view h Asleep"
  using wait_requeue_blocks [of No_timeout m F1 0 1 "sr_view h Awake" F2]
  by (auto simp: sr_view_changes simp del: One_nat_def elim!: pi_call.cases)

lemma sr_requeue_outcome:
  assumes "m F1 = 0" "ph = Awake \<or> ph = Asleep"
  shows "pi_call 0 m (sr_view True ph) (Cmp_requeue_pi F1 (Some F2) 1 (Count 0) 0) r v' \<longleftrightarrow>
    (if ph = Awake then r = Some (0, 0) \<and> v' = sr_view True Awake
     else r = Some (1, 0) \<and> v' = sr_view True Moved)"
  using assms(2)
proof
  assume "ph = Awake"
  with assms(1) requeue_none [of m F1 0 "sr_view True Awake" 0 F2 1 0] show ?thesis
    by (auto elim: pi_call.cases split: if_splits)
next
  assume ph: "ph = Asleep"
  have "pi_call 0 m (sr_view True Asleep) (Cmp_requeue_pi F1 (Some F2) 1 (Count 0) 0)
      (Some (int (card {1 :: tid}), 0)) (moved {1} F2 (sr_view True Asleep))"
    using assms(1) by (intro requeue_held) (auto simp: chosen_def split: if_splits)
  then have "pi_call 0 m (sr_view True Asleep) (Cmp_requeue_pi F1 (Some F2) 1 (Count 0) 0) (Some (1, 0))
      (sr_view True Moved)" by (simp add: sr_view_changes del: One_nat_def)
  moreover have "r = Some (1, 0) \<and> v' = sr_view True Moved"
    if "pi_call 0 m (sr_view True Asleep) (Cmp_requeue_pi F1 (Some F2) 1 (Count 0) 0) r v'"
    using that
  proof cases
    case (requeue_held W)
    then have "W = {1}" by (auto simp: chosen_def card_1_singleton_iff)
    with requeue_held show ?thesis by (simp add: sr_view_changes del: One_nat_def)
  qed (use assms(1) in \<open>auto split: if_splits\<close>)
  ultimately show ?thesis using ph by auto
qed

lemma sr_resume_outcome:
  "pi_resume 1 (Wait_requeue_pi F1 0 No_timeout (Some F2)) (sr_view h ph) (r, e) v' \<Longrightarrow> ph \<noteq> Awake \<Longrightarrow>
    ph = Cut \<and> r = - 1 \<and> e = EWOULDBLOCK \<and> v' = sr_view h Awake"
  by (cases ph) (auto simp: sr_view_changes simp del: One_nat_def elim!: pi_resume.cases split: if_splits)

lemmas sr_outcomes = sr_lock_outcome sr_unlock_outcome sr_wait_outcome sr_requeue_outcome sr_view_changes

section \<open>The invariant\<close>

text \<open>The waiter before the requeue, requeued, and signalled; \<open>held\<close>: \<^verbatim>\<open>main\<close> holds the pi futex, \<open>w\<close>:
  the flag \<^verbatim>\<open>requeued\<close>.\<close>

definition sr_early :: "bool \<Rightarrow> u32 \<Rightarrow> sr_pc tstatus \<Rightarrow> sr_loc pi_view \<Rightarrow> bool" where
  "sr_early held w child v \<longleftrightarrow>
     (child \<in> {Unborn, Running W_start, Running W_read, Running (W_wait 0)} \<and> v = sr_view held Awake) \<or>
     (child = Blocked (W_wait 0) \<and> v = sr_view held Asleep)"

definition sr_moved :: "u32 \<Rightarrow> sr_pc tstatus \<Rightarrow> sr_loc pi_view \<Rightarrow> bool" where
  "sr_moved w child v \<longleftrightarrow> child = Blocked (W_wait 0) \<and> v = sr_view True Moved"

definition sr_flagged :: "u32 \<Rightarrow> sr_pc tstatus \<Rightarrow> sr_loc pi_view \<Rightarrow> bool" where
  "sr_flagged w child v \<longleftrightarrow> sr_moved w child v \<and> w = 1"

definition sr_late :: "u32 \<Rightarrow> sr_pc tstatus \<Rightarrow> sr_loc pi_view \<Rightarrow> bool" where
  "sr_late w child v \<longleftrightarrow> w = 1 \<and>
     ((child = Blocked (W_wait 0) \<and> v = sr_view True Cut) \<or>
      (child \<in> {Running (W_check (- 1) EWOULDBLOCK), Running W_exit, Exited} \<and> v = sr_view True Awake))"

definition sr_over :: "bool \<Rightarrow> u32 \<Rightarrow> sr_pc tstatus \<Rightarrow> sr_loc pi_view \<Rightarrow> bool" where
  "sr_over held w child v \<longleftrightarrow> child = Exited \<and> v = sr_view held Awake"

definition sr_none :: "u32 \<Rightarrow> sr_pc tstatus \<Rightarrow> sr_loc pi_view \<Rightarrow> bool" where
  "sr_none w child v \<longleftrightarrow> child = Unborn \<and> v = sr_view False Awake"

fun sr_stage :: "sr_pc tstatus \<Rightarrow> u32 \<Rightarrow> sr_pc tstatus \<Rightarrow> sr_loc pi_view \<Rightarrow> bool" where
  "sr_stage (Running Sr_create) = sr_none"
| "sr_stage (Running Sr_lock) = sr_early False"
| "sr_stage (Running Sr_kill) = sr_early True"
| "sr_stage (Running Sr_usleep) = sr_early True"
| "sr_stage (Running Sr_read) = sr_early True"
| "sr_stage (Running (Sr_requeue x)) = (if x = 0 then sr_early True else (\<lambda>_ _ _. False))"
| "sr_stage (Running Sr_set) = sr_moved"
| "sr_stage (Running (Sr_kill_again ret)) = (if ret = RET_PASS then sr_flagged else (\<lambda>_ _ _. False))"
| "sr_stage (Running (Sr_join ret)) = (if ret = RET_PASS then sr_late else (\<lambda>_ _ _. False))"
| "sr_stage (Running (Sr_unlock ret)) = (if ret = RET_PASS then sr_over True else (\<lambda>_ _ _. False))"
| "sr_stage (Running (Sr_out ret)) =
     (if ret = RET_PASS then sr_over False else if ret = RET_ERROR then sr_none else (\<lambda>_ _ _. False))"
| "sr_stage (Running (Sr_done ret)) =
     (if ret = RET_PASS then sr_over False else if ret = RET_ERROR then sr_none else (\<lambda>_ _ _. False))"
| "sr_stage _ = (\<lambda>_ _ _. False)"

lemmas sr_stage_defs = sr_early_def sr_moved_def sr_flagged_def sr_late_def sr_over_def sr_none_def

definition sr_conf :: "(sr_loc, sr_pc) lstate \<Rightarrow> sr_loc pi_view \<Rightarrow> bool" where
  "sr_conf s v \<longleftrightarrow> (\<forall>t. lthr s t = Exited) \<or>
     (lthr s 0 \<noteq> Exited \<and> lmem s F1 = 0 \<and> lmem s Waiter_ret = 0 \<and>
      sr_stage (lthr s 0) (lmem s Requeued) (lthr s 1) v)"

text \<open>A step of the waiter leaves \<^verbatim>\<open>main\<close> and the flag alone.\<close>

lemma sr_stage_child:
  assumes "sr_stage st w child v" "\<And>h. sr_early h w child v \<Longrightarrow> sr_early h w child' v'"
    "sr_late w child v \<Longrightarrow> sr_late w child' v'" "child \<noteq> Exited" "child \<noteq> Unborn" "\<not> sr_moved w child v"
  shows "sr_stage st w child' v'"
  using assms(1,4-6)
  by (cases st rule: sr_stage.cases)
    (simp_all add: assms(2,3) sr_over_def sr_none_def sr_flagged_def split: if_splits)

lemma sr_child_conf:
  assumes conf: "sr_conf s v" and go: "lthr s 0 \<noteq> Exited" and l: "lthr s 1 = Running l \<or> lthr s 1 = Blocked l"
    and m: "m F1 = 0" "m Waiter_ret = 0" "m Requeued = lmem s Requeued" and nm: "\<not> sr_moved (lmem s Requeued) (lthr s 1) v"
    and st: "\<And>h. sr_early h (lmem s Requeued) (lthr s 1) v \<Longrightarrow> sr_early h (lmem s Requeued) st v'"
      "sr_late (lmem s Requeued) (lthr s 1) v \<Longrightarrow> sr_late (lmem s Requeued) st v'"
  shows "sr_conf (lgoto 1 st (s\<lparr>lmem := m, llog := log\<rparr>)) v'"
proof -
  from conf go have "sr_stage (lthr s 0) (lmem s Requeued) (lthr s 1) v" by (auto simp: sr_conf_def)
  then have "sr_stage (lthr s 0) (lmem s Requeued) st v'"
    by (rule sr_stage_child) (use st nm l in auto)
  with go m show ?thesis by (simp add: sr_conf_def)
qed

lemma sr_conf_main:
  assumes conf: "sr_conf s v" and go: "lthr s 0 \<noteq> Exited"
    and m: "lthr s 0 = Running l \<or> lthr s 0 = Blocked l"
    and move: "p_move (signal_restart a) 0 l s v s' v'"
  shows "sr_conf s' v'"
proof -
  let ?w = "lmem s Requeued"
  from conf go m have st: "sr_stage (Running l) ?w (lthr s 1) v" "lmem s F1 = 0" "lmem s Waiter_ret = 0"
      and l: "lthr s 0 = Running l"
    by (auto simp: sr_conf_def)
  show ?thesis
  proof (cases l)
    case (Sr_requeue x)
    with st have w: "x = 0" "sr_early True ?w (lthr s 1) v" by (auto split: if_splits)
    then consider "v = sr_view True Awake" | "v = sr_view True Asleep" by (auto simp: sr_early_def)
    then show ?thesis
      using move w st Sr_requeue l go
      by cases (auto simp: p_move_def sr_outcomes sr_conf_def sr_stage_defs sr_after_requeue_def same_outside_def)
  next
    case Sr_lock
    with st have "sr_early False ?w (lthr s 1) v" by simp
    then obtain ph where "v = sr_view False ph" by (auto simp: sr_early_def)
    with Sr_lock st l go move show ?thesis
      by (auto simp: p_move_def sr_outcomes sr_conf_def sr_stage_defs same_outside_def)
  next
    case (Sr_unlock ret)
    with st have "sr_over True ?w (lthr s 1) v" "ret = RET_PASS" by (auto split: if_splits)
    with Sr_unlock st l go move show ?thesis
      by (auto simp: p_move_def sr_outcomes sr_conf_def sr_stage_defs same_outside_def)
  next
    case Sr_kill
    with st l go move show ?thesis
      by (auto simp: p_move_def sr_outcomes sr_conf_def sr_stage_defs simp del: One_nat_def)
  next
    case (Sr_kill_again ret)
    with st l go move show ?thesis
      by (auto simp: p_move_def sr_outcomes sr_conf_def sr_stage_defs simp del: One_nat_def split: if_splits)
  next
    case (Sr_join ret)
    with st l go move show ?thesis
      by (auto simp: p_move_def sr_conf_def sr_stage_defs split: if_splits)
  next
    case (Sr_out ret)
    with st l go move show ?thesis
      by (auto simp: p_move_def sr_conf_def sr_stage_defs ret_defs split: if_splits)
  next
    case Sr_create
    with st l go move show ?thesis
      by (auto simp: p_move_def sr_conf_def sr_stage_defs ret_defs rt_create_def split: if_splits)
  qed (insert st l go move, auto simp: p_move_def sr_conf_def sr_stage_defs)
qed

lemma sr_stage_live:
  assumes "sr_stage st w child v" "child = Running l \<or> child = Blocked l"
  shows "(\<exists>h. sr_early h w child v) \<or> sr_moved w child v \<or> sr_late w child v"
  using assms
  by (cases st rule: sr_stage.cases) (auto simp: sr_over_def sr_none_def sr_flagged_def split: if_splits)

lemma sr_conf_child:
  assumes conf: "sr_conf s v" and go: "lthr s 0 \<noteq> Exited"
    and l: "lthr s 1 = Running l \<or> (lthr s 1 = Blocked l \<and> (\<exists>c. signal_restart_fetch a l = Syscall c))"
    and move: "p_move (signal_restart a) 1 l s v s' v'"
  shows "sr_conf s' v'"
proof -
  let ?w = "lmem s Requeued"
  from conf go have st: "sr_stage (lthr s 0) ?w (lthr s 1) v" "lmem s F1 = 0" "lmem s Waiter_ret = 0"
    by (auto simp: sr_conf_def)
  have live: "lthr s 1 = Running l \<or> lthr s 1 = Blocked l" using l by blast
  note step = sr_child_conf [OF conf go live] and w = sr_stage_live [OF st(1) live]
  show ?thesis
  proof (cases l)
    case W_start
    with l have r: "lthr s 1 = Running l" by auto
    with W_start w move st step [of "(lmem s)(Waiter_ret := 0)" "Running W_read" v "llog s"] show ?thesis
      by (auto simp: p_move_def sr_stage_defs RET_PASS_def)
  next
    case W_read
    with l have r: "lthr s 1 = Running l" by auto
    with W_read w move st step [of "lmem s" "Running (W_wait 0)" v "llog s"] show ?thesis
      by (auto simp: p_move_def sr_stage_defs)
  next
    case (W_wait x)
    from w W_wait live obtain h ph where x: "x = 0" "v = sr_view h ph"
      and run: "lthr s 1 = Running l \<Longrightarrow> ph = Awake" and blk: "lthr s 1 = Blocked l \<Longrightarrow> ph \<noteq> Awake"
      by (auto simp: sr_stage_defs)
    from live show ?thesis
    proof
      assume r: "lthr s 1 = Running l"
      with move x run st(2) W_wait obtain m where m: "same_outside {F2} (lmem s) m" "v' = sr_view h Asleep"
        "s' = lgoto 1 (Blocked l) (s\<lparr>lmem := m\<rparr>)"
        by (auto simp: p_move_def sr_outcomes simp del: One_nat_def)
      from m(1) st have "m F1 = 0" "m Waiter_ret = 0" "m Requeued = ?w" by (simp_all add: same_outside_def)
      with r x m(2,3) W_wait run step [of m "Blocked l" v' "llog s"] show ?thesis
        by (simp add: sr_stage_defs)
    next
      assume r: "lthr s 1 = Blocked l"
      from move r W_wait x obtain m n e where m: "same_outside {F2} (lmem s) m"
        "pi_resume 1 (Wait_requeue_pi F1 0 No_timeout (Some F2)) (sr_view h ph) (n, e) v'"
        "s' = lgoto 1 (Running (W_check n e)) (s\<lparr>lmem := m, llog := llog s @ [Called 1 (sr_wait_call x) n e]\<rparr>)"
        by (auto simp: p_move_def)
      from m(1) st have "m F1 = 0" "m Waiter_ret = 0" "m Requeued = ?w" by (simp_all add: same_outside_def)
      with r x m(3) W_wait sr_resume_outcome [OF m(2) blk [OF r]]
        step [of m "Running (W_check n e)" v' "llog s @ [Called 1 (sr_wait_call x) n e]"] show ?thesis
        by (simp add: sr_stage_defs)
    qed
  next
    case (W_check n e)
    with l have r: "lthr s 1 = Running l" by auto
    with W_check w move st step [of "lmem s" "Running W_exit" v "llog s"] show ?thesis
      by (auto simp: p_move_def sr_stage_defs waiter_check_def)
  next
    case W_exit
    with l have r: "lthr s 1 = Running l" by auto
    with W_exit w move st step [of "lmem s" Exited v "llog s"] show ?thesis
      by (auto simp: p_move_def sr_stage_defs)
  qed (use w live in \<open>auto simp: sr_stage_defs\<close>)
qed

lemma sr_conf_kept:
  assumes inv: "sr_inv s" "sr_conf s v" and step: "pstep (signal_restart a) (s, v) (s', v')"
  shows "sr_conf s' v'"
proof -
  from pstep_move [OF step] obtain t l where
    t: "lthr s t = Running l \<or> (lthr s t = Blocked l \<and> (\<exists>c. signal_restart_fetch a l = Syscall c))"
    and move: "p_move (signal_restart a) t l s v s' v'" by auto
  then have live: "lthr s t = Running l \<or> lthr s t = Blocked l" by blast
  have go: "lthr s 0 \<noteq> Exited" using inv(2) live by (auto simp: sr_conf_def)
  from sr_activeD(2) [OF inv(1) live] show ?thesis
  proof
    assume "t = 0"
    with sr_conf_main [OF inv(2) go] live move show ?thesis by simp
  next
    assume "t = 1"
    with sr_conf_child [OF inv(2) go] t move show ?thesis by simp
  qed
qed

interpretation sr_pi: pi_program "signal_restart a" "{F1, F2}" Sr_create sr_memory sr_inv sr_conf for a
  by unfold_locales
    (simp add: sr_conf_def linit_def start_threads_def sr_none_def sr_view_def pi_idle_def, rule sr_conf_kept)

section \<open>Properties\<close>






text \<open>The waiter the signal has reached returns: the contract lets only queued threads block.\<close>

lemma sr_cut_returns:
  assumes K: "pi_contract K view" and v: "kview view s = sr_view h Cut" and l: "thr s 1 = Blocked (W_wait x)"
  shows "\<exists>s'. tstep (logged K) (signal_restart a) 1 s = Some s'"
  by (rule unqueued_returns [OF K l _ sr_decode(4)]) (simp_all add: v)

text \<open>C22: and it cannot hang.  On such a kernel, as long as \<^verbatim>\<open>main\<close> has not returned some thread can make a
  step: no order of signals, requeues and the steps of the waiter leaves \<^verbatim>\<open>main\<close> waiting for good.\<close>

theorem signal_restart_not_stuck:
  assumes "pi_reach K view {F1, F2} (signal_restart a) Sr_create sr_memory s"
    "thr s 0 \<noteq> Exited" "\<forall>ret. thr s 0 \<noteq> Running (Sr_done ret)"
  shows "\<exists>t s'. tstep (logged K) (signal_restart a) t s = Some s'"
proof -
  let ?w = "mem s Requeued"
  from sr_pi.pi_reach_pinv [OF assms(1)] assms(2) have st: "sr_stage (thr s 0) ?w (thr s 1) (kview view s)"
    by (auto simp: sr_conf_def)
  then obtain l where l: "thr s 0 = Running l" by (cases "thr s 0") auto
  show ?thesis
  proof (cases "\<exists>ret. l = Sr_join ret")
    case False
    with l st assms(3) have "\<exists>s'. tstep (logged K) (signal_restart a) 0 s = Some s'"
      by (cases l) (auto simp: tstep_def sr_none_def rt_create_def split: prod.split option.split)
    then show ?thesis by blast
  next
    case True
    with l st consider "thr s 1 = Exited" | c where "thr s 1 = Running c"
      | x where "thr s 1 = Blocked (W_wait x)" "kview view s = sr_view True Cut"
      by (auto simp: sr_late_def split: if_splits)
    then show ?thesis
    proof cases
      case 1
      with l True have "\<exists>s'. tstep (logged K) (signal_restart a) 0 s = Some s'" by (auto simp: tstep_def)
      then show ?thesis by blast
    next
      case (2 c)
      with l st True have "c = W_check (- 1) EWOULDBLOCK \<or> c = W_exit" by (auto simp: sr_late_def split: if_splits)
      with 2 have "\<exists>s'. tstep (logged K) (signal_restart a) 1 s = Some s'" by (auto simp: tstep_def)
      then show ?thesis by blast
    next
      case (3 x)
      with sr_cut_returns [OF pi_reach_contract [OF assms(1)]] show ?thesis by blast
    qed
  qed
qed

definition sr_joining where
  "sr_joining = the (scheduled pi_kernel pi_start (signal_restart rt_granted) Sr_create sr_memory
     [0, 0, 1, 1, 1, 0, 0, 0, 0, 0, 0])"

lemma sr_joining_reach:
  "pi_reach pi_kernel pi_view_of {F1, F2} (signal_restart rt_granted) Sr_create sr_memory sr_joining"
  unfolding sr_joining_def by (rule pi_scheduled_reach) code_simp

lemma sr_joining_facts: "thr sr_joining 0 = Running (Sr_join 0)"
  by code_simp

theorem signal_restart_not_stuck_witness:
  "\<exists>t s'. tstep (logged pi_kernel) (signal_restart rt_granted) t sr_joining = Some s'"
  by (rule signal_restart_not_stuck [OF sr_joining_reach]) (simp_all add: sr_joining_facts)

end
