(* ===== verification/Requeue_Pi_Conf.thy ===== *)
theory Requeue_Pi_Conf
  imports Pi_Runs Requeue_Pi_Props
begin

text \<open>
  \<^verbatim>\<open>functional/futex_requeue_pi.c\<close> on a kernel that keeps \<open>pi_contract\<close>, in every mode,
  with a timeout the kernel accepts or none (\<open>timely\<close>).  The invariant
  \<open>rp_conf\<close> says for every thread where the kernel has it queued and whether it holds the pi futex,
  by its control point (\<open>holds\<close>, \<open>asleep_ok\<close>); other threads change this only for a thread that
  sleeps, by waking it, moving it to the pi futex, or giving it the pi futex (\<open>nudge\<close>).  It follows
  that every call returns what the test hopes for (\<open>good\<close>) and that nothing but the limits of the
  wakers and thread creation can make the test fail (\<open>requeue_pi_conforming\<close>).  It need not end:
  \<open>requeue_pi_owner_hangs\<close>.
\<close>

section \<open>Who holds the pi futex, who sleeps where\<close>

fun holds :: "ut_param \<Rightarrow> rp_pc \<Rightarrow> bool" where
  "holds p (Waiter i (Wt_store r e)) \<longleftrightarrow> r = 0"
| "holds p (Waiter i (Wt_woken r e)) \<longleftrightarrow> r = 0"
| "holds p (Waiter i Wt_unlock) \<longleftrightarrow> True"
| "holds p (Broadcast (Bw_read i tc)) \<longleftrightarrow> ut_lock p \<noteq> 0"
| "holds p (Broadcast (Bw_requeue i tc x)) \<longleftrightarrow> ut_lock p \<noteq> 0"
| "holds p (Broadcast (Bw_ret i tc ret)) \<longleftrightarrow> ut_lock p \<noteq> 0"
| "holds p (Broadcast (Bw_check i tc ret)) \<longleftrightarrow> ut_lock p \<noteq> 0"
| "holds p (Broadcast (Bw_error tc)) \<longleftrightarrow> ut_lock p \<noteq> 0"
| "holds p (Broadcast (Bw_wake tc ret)) \<longleftrightarrow> ut_lock p \<noteq> 0"
| "holds p (Broadcast (Bw_unlock tc ret)) \<longleftrightarrow> True"
| "holds p (Signal (Sw_read i tc)) \<longleftrightarrow> ut_lock p \<noteq> 0"
| "holds p (Signal (Sw_requeue i tc x)) \<longleftrightarrow> ut_lock p \<noteq> 0"
| "holds p (Signal (Sw_ret i tc res e)) \<longleftrightarrow> ut_lock p \<noteq> 0"
| "holds p (Signal (Sw_errno i tc ret)) \<longleftrightarrow> ut_lock p \<noteq> 0"
| "holds p (Signal (Sw_unlock i tc ret)) \<longleftrightarrow> True"
| "holds p (Blocker Tb_lock) \<longleftrightarrow> False"
| "holds p (Blocker Tb_error) \<longleftrightarrow> False"
| "holds p (Blocker Tb_exit) \<longleftrightarrow> False"
| "holds p (Blocker l) \<longleftrightarrow> True"
| "holds p l \<longleftrightarrow> False"

text \<open>The timeout of the waiters is none the kernel refuses.\<close>

abbreviation timely :: "ut_param \<Rightarrow> bool" where
  "timely p \<equiv> timeout_valid (timespec_arg (ut_timeout p))"

text \<open>The values a control point carries on such a kernel.\<close>

definition wait_result :: "ut_param \<Rightarrow> int \<Rightarrow> int \<Rightarrow> bool" where
  "wait_result p r e \<longleftrightarrow> r = 0 \<or> (r = - 1 \<and> e = ETIMEDOUT \<and> ut_timeout p \<noteq> None)"

fun fine :: "ut_param \<Rightarrow> rp_pc \<Rightarrow> bool" where
  "fine p (Waiter i (Wt_inc x)) \<longleftrightarrow> x = 0"
| "fine p (Waiter i (Wt_wait x)) \<longleftrightarrow> x = 0"
| "fine p (Waiter i (Wt_store r e)) \<longleftrightarrow> wait_result p r e"
| "fine p (Waiter i (Wt_woken r e)) \<longleftrightarrow> wait_result p r e"
| "fine p (Broadcast (Bw_requeue i tc x)) \<longleftrightarrow> x = 0"
| "fine p (Broadcast (Bw_unlock tc ret)) \<longleftrightarrow> ut_lock p \<noteq> 0"
| "fine p (Broadcast Bw_lock) \<longleftrightarrow> ut_lock p \<noteq> 0"
| "fine p (Signal (Sw_requeue i tc x)) \<longleftrightarrow> x = 0"
| "fine p (Signal (Sw_unlock i tc ret)) \<longleftrightarrow> ut_lock p \<noteq> 0"
| "fine p (Signal (Sw_lock i tc)) \<longleftrightarrow> ut_lock p \<noteq> 0"
| "fine p (Blocker (Tb_ret r)) \<longleftrightarrow> r = 0"
| "fine p (Blocker (Tb_wait x)) \<longleftrightarrow> x = 0"
| "fine p (Blocker (Tb_wait_ret r)) \<longleftrightarrow> r = 0"
| "fine p (Blocker (Tb_unlock r)) \<longleftrightarrow> r = 0"
| "fine p (Blocker Tb_error) \<longleftrightarrow> False"
| "fine p l \<longleftrightarrow> True"

text \<open>A thread that blocked: queued, or to return with the pi futex its own.\<close>

definition to_lock :: "(rp_loc \<times> rp_loc option) option \<Rightarrow> (rp_loc \<times> bool) option \<Rightarrow> bool \<Rightarrow> bool" where
  "to_lock wq pq h \<longleftrightarrow> wq = None \<and> ((pq = Some (F2, False) \<and> \<not> h) \<or> (pq = None \<and> h))"

fun asleep_ok ::
    "rp_pc \<Rightarrow> (rp_loc \<times> rp_loc option) option \<Rightarrow> (rp_loc \<times> bool) option \<Rightarrow> bool \<Rightarrow> bool" where
  "asleep_ok (Waiter i (Wt_wait x)) wq pq h \<longleftrightarrow>
     (wq = Some (F1, Some F2) \<and> pq = None \<and> \<not> h) \<or>
     (wq = None \<and> pq = Some (F2, True) \<and> \<not> h) \<or> (wq = None \<and> pq = None \<and> h)"
| "asleep_ok (Waiter i Wt_lock) wq pq h \<longleftrightarrow> to_lock wq pq h"
| "asleep_ok (Broadcast Bw_lock) wq pq h \<longleftrightarrow> to_lock wq pq h"
| "asleep_ok (Signal (Sw_lock i tc)) wq pq h \<longleftrightarrow> to_lock wq pq h"
| "asleep_ok (Blocker Tb_lock) wq pq h \<longleftrightarrow> to_lock wq pq h"
| "asleep_ok (Blocker (Tb_wait x)) wq pq h \<longleftrightarrow> h \<and> pq = None \<and> (wq = Some (Wake_complete, None) \<or> wq = None)"
| "asleep_ok _ wq pq h \<longleftrightarrow> False"

definition place_ok ::
    "ut_param \<Rightarrow> rp_pc tstatus \<Rightarrow> (rp_loc \<times> rp_loc option) option \<Rightarrow> (rp_loc \<times> bool) option \<Rightarrow> bool \<Rightarrow> bool"
  where
  "place_ok p st wq pq h \<longleftrightarrow>
     (case st of
        Running l \<Rightarrow> fine p l \<and> wq = None \<and> pq = None \<and> h = holds p l
      | Blocked l \<Rightarrow> fine p l \<and> asleep_ok l wq pq h
      | _ \<Rightarrow> wq = None \<and> pq = None \<and> \<not> h)"

abbreviation placed :: "ut_param \<Rightarrow> rp_pc tstatus \<Rightarrow> rp_loc pi_view \<Rightarrow> tid \<Rightarrow> bool" where
  "placed p st v t \<equiv> place_ok p st (waits v t) (pi_waits v t) (holder v F2 = Some t)"

text \<open>What a call should have returned.\<close>

fun good :: "rp_loc event \<Rightarrow> bool" where
  "good (Called t c r e) \<longleftrightarrow>
     (case decode c of
        Some (Wait_requeue_pi a w tmo b) \<Rightarrow> r = 0 \<or> (r = - 1 \<and> e = ETIMEDOUT \<and> tmo \<noteq> No_timeout)
      | Some (Cmp_requeue_pi a b n k w) \<Rightarrow> 0 \<le> r \<and> r \<le> int THREAD_MAX
      | Some (Wake a n) \<Rightarrow> 0 \<le> r
      | _ \<Rightarrow> r = 0) \<and>
     (t = blocker_tid \<longrightarrow> r = 0)"
| "good _ \<longleftrightarrow> True"

definition rp_conf :: "ut_param \<Rightarrow> (rp_loc, rp_pc) lstate \<Rightarrow> rp_loc pi_view \<Rightarrow> bool" where
  "rp_conf p s v \<longleftrightarrow> (\<forall>t. lthr s t = Exited) \<or>
     (lthr s 0 \<noteq> Exited \<and> lmem s F1 = 0 \<and> lmem s Wake_complete = 0 \<and> (\<forall>t. cut_short v t = None) \<and>
      (\<forall>t. placed p (lthr s t) v t) \<and> list_all good (llog s))"

section \<open>The calls\<close>

lemma rp_decode [simp]:
  "decode (rp_wait p x) = Some (Wait_requeue_pi F1 x (timespec_arg (ut_timeout p)) (Some F2))"
  "decode (rp_requeue n x) = Some (Cmp_requeue_pi F1 (Some F2) 1 (Count n) x)"
  "decode rp_lock = Some (Lock_pi F2 No_timeout)" "decode rp_unlock = Some (Unlock_pi F2)"
  "decode rp_wake = Some (Wake Wake_complete 1)" "decode (rp_block x) = Some (Wait Wake_complete x No_timeout)"
  by (simp_all add: rp_wait_def rp_requeue_def rp_lock_def rp_unlock_def rp_wake_def rp_block_def timespec_arg_def)

text \<open>What a step of another thread can do to the place of a thread.\<close>

inductive nudge ::
    "(rp_loc \<times> rp_loc option) option \<Rightarrow> (rp_loc \<times> bool) option \<Rightarrow> bool \<Rightarrow>
     (rp_loc \<times> rp_loc option) option \<Rightarrow> (rp_loc \<times> bool) option \<Rightarrow> bool \<Rightarrow> bool" where
  nudge_same: "nudge wq pq h wq pq h"
| nudge_wake: "nudge (Some (Wake_complete, c)) pq h None pq h"
| nudge_move: "nudge (Some (F1, c)) pq h None (Some (F2, True)) h"
| nudge_give: "nudge (Some (F1, c)) pq h None None True"
| nudge_lock: "nudge wq (Some (F2, f)) h None None True"

abbreviation nudged :: "rp_loc pi_view \<Rightarrow> rp_loc pi_view \<Rightarrow> tid \<Rightarrow> bool" where
  "nudged v v' u \<equiv> nudge (waits v u) (pi_waits v u) (holder v F2 = Some u)
     (waits v' u) (pi_waits v' u) (holder v' F2 = Some u)"

lemma nudge_place: "nudge wq pq h wq' pq' h' \<Longrightarrow> place_ok p st wq pq h \<Longrightarrow> place_ok p st wq' pq' h'"
proof (induction rule: nudge.induct)
  case (nudge_wake c pq h)
  then show ?case
    by (cases st) (auto simp: place_ok_def to_lock_def elim!: asleep_ok.elims)
next
  case (nudge_move c pq h)
  then show ?case
    by (cases st) (auto simp: place_ok_def to_lock_def elim!: asleep_ok.elims)
next
  case (nudge_give c pq h)
  then show ?case
    by (cases st) (auto simp: place_ok_def to_lock_def elim!: asleep_ok.elims)
next
  case (nudge_lock wq f h)
  then show ?case
    by (cases st) (auto simp: place_ok_def to_lock_def elim!: asleep_ok.elims)
qed

definition effect :: "tid \<Rightarrow> rp_loc pi_view \<Rightarrow> rp_loc pi_view \<Rightarrow> bool" where
  "effect t v v' \<longleftrightarrow> cut_short v' = cut_short v \<and> (\<forall>u. u \<noteq> t \<longrightarrow> nudged v v' u)"

text \<open>Where the calling thread is after the call.\<close>

abbreviation at :: "rp_loc pi_view \<Rightarrow> tid \<Rightarrow> (rp_loc \<times> rp_loc option) option \<Rightarrow> (rp_loc \<times> bool) option \<Rightarrow> bool \<Rightarrow> bool" where
  "at v t wq pq h \<equiv> waits v t = wq \<and> pi_waits v t = pq \<and> (holder v F2 = Some t) = h"

lemma lock_effect:
  assumes "pi_call t m v (Lock_pi F2 No_timeout) r v'" "at v t None None False"
  shows "effect t v v' \<and> ((r = Some (0, 0) \<and> at v' t None None True) \<or>
    (r = None \<and> at v' t None (Some (F2, False)) False))"
  using assms(1)
proof cases
  case lock_free
  with assms(2) show ?thesis by (auto simp: effect_def nudge_same)
next
  case (lock_blocks u)
  with assms(2) show ?thesis by (auto simp: effect_def nudge_same)
qed (use assms(2) in simp_all)

lemma lock_outcome: "\<exists>r v'. pi_call t m v (Lock_pi F2 No_timeout) r v'"
  by (cases "holder v F2"; cases "holder v F2 = Some t")
    (use no_timeout_valid in \<open>blast intro: lock_free lock_own lock_blocks\<close>)+

lemma unlock_effect:
  assumes "pi_call t m v (Unlock_pi F2) r v'" "at v t None None True"
  shows "effect t v v' \<and> r = Some (0, 0) \<and> at v' t None None False"
  using assms(1)
proof cases
  case unlock_last
  with assms(2) show ?thesis by (auto simp: effect_def nudge_same)
next
  case (unlock_hands_over u f)
  with assms(2) show ?thesis
    by (auto simp: effect_def granted_def leave_queues_def nudge_same nudge_lock)
qed (use assms(2) in simp_all)

lemma unlock_outcome: "\<exists>r v'. pi_call t m v (Unlock_pi F2) r v'"
proof (cases "holder v F2 = Some t \<and> (\<exists>u f. pi_waits v u = Some (F2, f))")
  case False
  then show ?thesis
    by (cases "holder v F2 = Some t") (blast intro: pi_call.intros)+
qed (blast intro: pi_call.intros)

lemma wait_effect:
  assumes "pi_call t m v (Wait_requeue_pi F1 0 tmo (Some F2)) r v'" "m F1 = 0" "at v t None None h"
    "timeout_valid tmo"
  shows "effect t v v' \<and> r = None \<and> at v' t (Some (F1, Some F2)) None h"
  using assms(1) by cases (use assms(2-4) in \<open>auto simp: effect_def nudge_same\<close>)

lemma block_effect:
  assumes "pi_call t m v (Wait Wake_complete 0 tmo) r v'" "m Wake_complete = 0"
    "at v t None None h" "timeout_valid tmo"
  shows "effect t v v' \<and> r = None \<and> at v' t (Some (Wake_complete, None)) None h"
  using assms(1) by cases (use assms(2-4) in \<open>auto simp: effect_def nudge_same\<close>)

lemma wait_outcomes:
  "timeout_valid tmo \<Longrightarrow> m F1 = 0 \<Longrightarrow> \<exists>r v'. pi_call t m v (Wait_requeue_pi F1 0 tmo (Some F2)) r v'"
  "timeout_valid tmo \<Longrightarrow> m Wake_complete = 0 \<Longrightarrow> \<exists>r v'. pi_call t m v (Wait Wake_complete 0 tmo) r v'"
  by (blast intro: pi_call.intros)+

lemma wake_effect:
  assumes "pi_call t m v (Wake Wake_complete 1) r v'" "at v t None None h"
  shows "effect t v v' \<and> (\<exists>n\<ge>0. r = Some (n, 0)) \<and> at v' t None None h"
  using assms(1)
proof cases
  case (wake W)
  then have "nudged v v' u" for u
    by (cases "u \<in> W") (auto simp: woken_def chosen_def sleepers_def nudge_same nudge_wake)
  with wake assms(2) show ?thesis by (auto simp: effect_def woken_def)
qed simp

lemma chosen_exists:
  assumes "finite S" "0 < n"
  shows "\<exists>W. chosen n S W \<and> (S \<noteq> {} \<longrightarrow> W \<noteq> {})"
proof (cases "int (card S) \<le> n")
  case True
  with assms show ?thesis by (auto simp: chosen_def)
next
  case False
  then have "nat n \<le> card S" by linarith
  then obtain W where "W \<subseteq> S" "card W = nat n" "finite W" by (rule obtain_subset_with_card_n)
  with assms show ?thesis by (intro exI [of _ W]) (auto simp: chosen_def)
qed

lemma requeue_effect:
  assumes "pi_call t m v (Cmp_requeue_pi F1 (Some F2) 1 (Count k) 0) r v'" "m F1 = 0" "at v t None None h"
    and right: "\<And>u c. waits v u = Some (F1, c) \<Longrightarrow> c = Some F2 \<and> 1 \<le> u \<and> u \<le> N"
  shows "effect t v v' \<and> (\<exists>n. 0 \<le> n \<and> n \<le> int N \<and> r = Some (n, 0)) \<and> at v' t None None h"
proof -
  have card: "card W \<le> N" if "chosen n (sleepers v F1) W" for n W
  proof -
    have "W \<subseteq> {1..N}" using that right by (auto simp: chosen_def sleepers_def)
    from card_mono [OF _ this] show ?thesis by simp
  qed
  show ?thesis
    using assms(1)
  proof cases
    case (requeue_held W)
    then have "nudged v v' u" for u
      by (cases "u \<in> W") (auto simp: moved_def chosen_def sleepers_def nudge_same nudge_move)
    with requeue_held assms(3) card [of _ W] show ?thesis
      by (auto simp: effect_def moved_def chosen_def sleepers_def)
  next
    case (requeue_free W g)
    then have sl: "\<exists>c. waits v u = Some (F1, c)" if "u \<in> W" for u
      using that by (auto simp: chosen_def sleepers_def)
    have "nudged v v' u" for u
      using requeue_free sl [of u] by (cases "u = g"; cases "u \<in> W")
        (auto simp: granted_def leave_queues_def moved_def intro: nudge.intros)
    moreover have "t \<notin> W" using sl [of t] assms(3) by auto
    ultimately show ?thesis using requeue_free assms(3) card [of _ W]
      by (auto simp: effect_def granted_def leave_queues_def moved_def)
  qed (use assms(2,3) right in \<open>auto simp: effect_def nudge_same\<close>)
qed

lemma requeue_outcome:
  assumes "m F1 = 0" "0 \<le> k" and right: "\<And>u c. waits v u = Some (F1, c) \<Longrightarrow> c = Some F2 \<and> 1 \<le> u \<and> u \<le> N"
  shows "\<exists>r v'. pi_call t m v (Cmp_requeue_pi F1 (Some F2) 1 (Count k) 0) r v'"
proof (cases "sleepers v F1 = {}")
  case True
  with assms(1) show ?thesis by (blast intro: requeue_none)
next
  case False
  have "sleepers v F1 \<subseteq> {1..N}" using right by (auto simp: sleepers_def)
  from finite_subset [OF this] have "finite (sleepers v F1)" by simp
  with assms(2) False obtain W where W: "chosen (1 + k) (sleepers v F1) W" "W \<noteq> {}"
    using chosen_exists [of "sleepers v F1" "1 + k"] by auto
  then obtain u where "u \<in> W" by blast
  show ?thesis
  proof (cases "holder v F2 = None")
    case True
    then have "pi_call t m v (Cmp_requeue_pi F1 (Some F2) 1 (Count k) 0) (Some (int (card W), 0))
        (granted u F2 (moved W F2 v))"
      by (rule requeue_free [rotated 3]) (use assms(1,2) right W \<open>u \<in> W\<close> in auto)
    then show ?thesis by blast
  next
    case held: False
    then have "pi_call t m v (Cmp_requeue_pi F1 (Some F2) 1 (Count k) 0) (Some (int (card W), 0)) (moved W F2 v)"
      by (rule requeue_held [rotated 4]) (use assms(1,2) right W False in auto)
    then show ?thesis by blast
  qed
qed

lemma wake_outcome:
  assumes "\<And>u c. waits v u = Some (Wake_complete, c) \<Longrightarrow> c = None \<and> u = x"
  shows "\<exists>r v'. pi_call t m v (Wake Wake_complete 1) r v'"
proof -
  have "sleepers v Wake_complete \<subseteq> {x}" using assms by (auto simp: sleepers_def)
  from finite_subset [OF this] obtain W where "chosen 1 (sleepers v Wake_complete) W"
    using chosen_exists [of "sleepers v Wake_complete" 1] by auto
  then have "pi_call t m v (Wake Wake_complete 1) (Some (int (card W), 0)) (woken W v)"
    by (rule wake [rotated 2]) (use assms in auto)
  then show ?thesis by blast
qed

text \<open>The steps that touch memory only.\<close>

definition still_fine :: "ut_param \<Rightarrow> rp_pc \<Rightarrow> rp_pc \<Rightarrow> rp_loc memory \<Rightarrow> bool" where
  "still_fine p l l' m \<longleftrightarrow> fine p l' \<and> holds p l' = holds p l \<and> m F1 = 0 \<and> m Wake_complete = 0"

lemma fine_mem:
  assumes "fine p l" "exec_mem (requeue_pi_fetch p l) m = Some (r, m')" "m F1 = 0" "m Wake_complete = 0"
  shows "still_fine p l (requeue_pi_cont p l r) m'"
proof (cases l)
  case (Main x)
  with assms show ?thesis by (cases x) (auto simp: still_fine_def split: if_splits)
next
  case (Waiter i x)
  with assms show ?thesis
    by (cases x) (auto simp: still_fine_def wait_result_def futex_atomic_defs sync_defs)
next
  case (Broadcast x)
  with assms show ?thesis by (cases x) (auto simp: still_fine_def)
next
  case (Signal x)
  with assms show ?thesis
    by (cases x) (auto simp: still_fine_def sw_release_def sw_judge_def split: if_splits)
next
  case (Blocker x)
  with assms show ?thesis by (cases x) (auto simp: still_fine_def)
qed

text \<open>The calls of a running thread: what each control point is left to when its call has returned.\<close>

definition goes_on :: "ut_param \<Rightarrow> rp_pc \<Rightarrow> int \<Rightarrow> bool \<Rightarrow> bool" where
  "goes_on p l r h \<longleftrightarrow>
     (\<forall>e. fine p (requeue_pi_cont p l (Ret r e)) \<and> holds p (requeue_pi_cont p l (Ret r e)) = h)"

lemma call_cases:
  assumes "requeue_pi_fetch p l = Syscall c" "fine p l"
  obtains
    (lock) "c = rp_lock" "\<not> holds p l" "\<And>wq pq h. asleep_ok l wq pq h = to_lock wq pq h" "goes_on p l 0 True"
  | (unlock) "c = rp_unlock" "holds p l" "goes_on p l 0 False" "\<And>wq pq h. \<not> asleep_ok l wq pq h"
  | (wait) i where "l = Waiter i (Wt_wait 0)" "c = rp_wait p 0"
  | (requeue) k where "c = rp_requeue k 0" "0 \<le> k" "\<And>r. goes_on p l r (holds p l)" "\<And>wq pq h. \<not> asleep_ok l wq pq h"
      "(\<exists>bl. l = Broadcast bl) \<or> (\<exists>sl. l = Signal sl)"
  | (wake) "c = rp_wake" "\<And>r. goes_on p l r (holds p l)" "\<And>wq pq h. \<not> asleep_ok l wq pq h"
      "(\<exists>bl. l = Broadcast bl) \<or> (\<exists>sl. l = Signal sl)"
  | (block) "l = Blocker (Tb_wait 0)" "c = rp_block 0"
proof (cases l)
  case (Main x)
  with assms(1) unit_test_no_call show ?thesis by simp
next
  case (Waiter i x)
  with assms lock unlock wait show ?thesis by (cases x) (auto simp: goes_on_def)
next
  case (Broadcast x)
  with assms lock unlock requeue wake show ?thesis
    by (cases x) (auto simp: goes_on_def bw_finish_def INT_MAX_def)
next
  case (Signal x)
  with assms lock unlock requeue wake show ?thesis
    by (cases x) (auto simp: goes_on_def sw_judge_def split: if_splits)
next
  case (Blocker x)
  with assms lock unlock block show ?thesis by (cases x) (auto simp: goes_on_def)
qed

lemma goes_on_placed: "goes_on p l r h \<Longrightarrow> at v t None None h \<Longrightarrow> placed p (Running (requeue_pi_cont p l (Ret r e))) v t"
  by (simp add: goes_on_def place_ok_def)

definition served :: "ut_param \<Rightarrow> tid \<Rightarrow> rp_pc \<Rightarrow> rp_loc futex_call \<Rightarrow> rp_loc memory \<Rightarrow> rp_loc pi_view \<Rightarrow> rp_loc futex_op \<Rightarrow> bool" where
  "served p t l c m v f \<longleftrightarrow>
     (\<exists>r v'. pi_call t m v f r v') \<and>
     (\<forall>v'. pi_call t m v f None v' \<longrightarrow> effect t v v' \<and> placed p (Blocked l) v' t) \<and>
     (\<forall>r e v'. pi_call t m v f (Some (r, e)) v' \<longrightarrow>
        effect t v v' \<and> placed p (Running (requeue_pi_cont p l (Ret r e))) v' t \<and> good (Called t c r e))"

lemma servedI:
  assumes "\<exists>r v'. pi_call t m v f r v'"
    and "\<And>r v'. pi_call t m v f r v' \<Longrightarrow> effect t v v' \<and>
      (case r of None \<Rightarrow> placed p (Blocked l) v' t
       | Some (n, e) \<Rightarrow> placed p (Running (requeue_pi_cont p l (Ret n e))) v' t \<and> good (Called t c n e))"
  shows "served p t l c m v f"
  unfolding served_def
proof (intro conjI [OF assms(1)] conjI allI impI, goal_cases)
  case (3 r e v')
  from assms(2) [OF this] show ?case by (simp del: requeue_pi_cont.simps good.simps)
next
  case (4 r e v')
  from assms(2) [OF this] show ?case by (simp del: requeue_pi_cont.simps good.simps)
next
  case (5 r e v')
  from assms(2) [OF this] show ?case by (simp del: requeue_pi_cont.simps good.simps)
qed (auto dest: assms(2))

lemma call_served:
  assumes l: "fine p l" "at v t None None (holds p l)" and m: "m F1 = 0" "m Wake_complete = 0"
    and f: "requeue_pi_fetch p l = Syscall c" "decode c = Some f"
    and right: "\<And>u c. waits v u = Some (F1, c) \<Longrightarrow> c = Some F2 \<and> 1 \<le> u \<and> u \<le> THREAD_MAX"
      "\<And>u c. waits v u = Some (Wake_complete, c) \<Longrightarrow> c = None \<and> u = blocker_tid"
    and t: "(\<exists>bl. l = Broadcast bl) \<or> (\<exists>sl. l = Signal sl) \<Longrightarrow> t \<noteq> blocker_tid" and timely: "timely p"
  shows "served p t l c m v f"
  using f(1) l(1)
proof (cases rule: call_cases)
  case lock
  with f(2) have f': "f = Lock_pi F2 No_timeout" by simp
  from lock l(2) have free: "at v t None None False" by simp
  show ?thesis unfolding f'
  proof (rule servedI [OF lock_outcome], goal_cases)
    case (1 r v')
    from lock_effect [OF 1 free] goes_on_placed [OF lock(4), of v' t] lock(1,3) l(1) show ?case
      by (auto simp: place_ok_def to_lock_def)
  qed
next
  case unlock
  with f(2) have f': "f = Unlock_pi F2" by simp
  from unlock l(2) have held: "at v t None None True" by simp
  show ?thesis unfolding f'
  proof (rule servedI [OF unlock_outcome], goal_cases)
    case (1 r v')
    from unlock_effect [OF 1 held] goes_on_placed [OF unlock(3), of v' t] unlock(1) show ?case by simp
  qed
next
  case (wait i)
  with f(2) have f': "f = Wait_requeue_pi F1 0 (timespec_arg (ut_timeout p)) (Some F2)" by simp
  show ?thesis unfolding f'
  proof (rule servedI [OF wait_outcomes(1) [of _ m, OF timely m(1)]], goal_cases)
    case (1 r v')
    from wait_effect [OF 1 m(1) l(2) timely] wait show ?case by (simp add: place_ok_def)
  qed
next
  case (requeue k)
  with f(2) have f': "f = Cmp_requeue_pi F1 (Some F2) 1 (Count k) 0" by simp
  show ?thesis unfolding f'
  proof (rule servedI [OF requeue_outcome [of m k v THREAD_MAX, OF m(1) requeue(2) right(1)]], goal_cases)
    case (2 r v')
    from requeue_effect [OF 2 m(1) l(2) right(1)] goes_on_placed [OF requeue(3), of v' t] requeue(1) t [OF requeue(5)]
    show ?case by auto
  qed simp
next
  case wake
  with f(2) have f': "f = Wake Wake_complete 1" by simp
  show ?thesis unfolding f'
  proof (rule servedI [OF wake_outcome [of v blocker_tid, OF right(2)]], goal_cases)
    case (2 r v')
    from wake_effect [OF 2 l(2)] goes_on_placed [OF wake(2), of v' t] wake(1) t [OF wake(4)]
    show ?case by auto
  qed simp
next
  case block
  with f(2) have f': "f = Wait Wake_complete 0 No_timeout" by simp
  show ?thesis unfolding f'
  proof (rule servedI [OF wait_outcomes(2) [of No_timeout m, OF no_timeout_valid m(2)]], goal_cases)
    case (1 r v')
    from block_effect [OF 1 m(2) l(2) no_timeout_valid] block show ?case by (simp add: place_ok_def)
  qed
qed

text \<open>The return of a call that blocked.\<close>

lemma resume_effect:
  assumes "pi_resume t f v (r, e) v'" "place_ok p (Blocked l) (waits v t) (pi_waits v t) (holder v F2 = Some t)"
    "cut_short v t = None" "requeue_pi_fetch p l = Syscall c" "decode c = Some f"
    and waiter: "\<And>i wl. l = Waiter i wl \<Longrightarrow> t \<noteq> blocker_tid"
  shows "effect t v v' \<and> placed p (Running (requeue_pi_cont p l (Ret r e))) v' t \<and> good (Called t c r e)"
proof -
  have "effect t v v'"
    using assms(1) by cases (use assms(3) in \<open>auto simp: effect_def leave_queues_def nudge_same\<close>)
  moreover have fin: "fine p l" and a: "asleep_ok l (waits v t) (pi_waits v t) (holder v F2 = Some t)"
    using assms(2) by (simp_all add: place_ok_def)
  have "placed p (Running (requeue_pi_cont p l (Ret r e))) v' t \<and> good (Called t c r e)"
    using assms(4) fin
  proof (cases rule: call_cases)
    case lock
    with a assms(1,3,5) goes_on_placed [OF lock(4), of v t e] show ?thesis
      by (auto simp: to_lock_def queued_def elim!: pi_resume.cases)
  next
    case (wait i)
    with a assms(1,3,5) waiter show ?thesis
      by (auto simp: place_ok_def queued_def wait_result_def leave_queues_def timespec_arg_def
          elim!: pi_resume.cases split: option.splits)
  next
    case block
    with a assms(1,3,5) show ?thesis
      by (auto simp: place_ok_def queued_def elim!: pi_resume.cases)
  qed (use a in simp_all)
  ultimately show ?thesis by simp
qed

section \<open>The invariant is kept\<close>

lemma rp_conf_put:
  assumes conf: "rp_conf p s v" and go: "lthr s 0 \<noteq> Exited" and eff: "effect t v v'" and st: "placed p st v' t"
    and m: "m F1 = 0" "m Wake_complete = 0" and log: "list_all good log" and t: "t = 0 \<Longrightarrow> st \<noteq> Exited"
  shows "rp_conf p (lgoto t st (s\<lparr>lmem := m, llog := log\<rparr>)) v'"
proof -
  have "placed p (((lthr s)(t := st)) u) v' u" for u
    using conf go eff st nudge_place [of "waits v u" "pi_waits v u" "holder v F2 = Some u"]
    by (cases "u = t") (auto simp: rp_conf_def effect_def)
  moreover have "\<forall>t. cut_short v' t = None" using conf go eff by (auto simp: rp_conf_def effect_def)
  ultimately show ?thesis using go t m log by (auto simp: rp_conf_def)
qed

lemma effect_same: "effect t v v"
  by (simp add: effect_def nudge_same)

lemma rp_sleepers:
  assumes conf: "rp_conf p s v" and act: "rp_active p s l0"
  shows "waits v u = Some (F1, c) \<Longrightarrow> c = Some F2 \<and> 1 \<le> u \<and> u \<le> THREAD_MAX"
    and "waits v u = Some (Wake_complete, c) \<Longrightarrow> c = None \<and> u = blocker_tid"
proof -
  from act have "lthr s 0 = Running (Main l0)" by (simp add: rp_active_def)
  moreover from this conf have pl: "placed p (lthr s u) v u" by (auto simp: rp_conf_def)
  ultimately have b: "\<exists>l. lthr s u = Blocked l \<and> asleep_ok l (waits v u) (pi_waits v u) (holder v F2 = Some u) \<and> u \<noteq> 0"
    if "waits v u \<noteq> None" using that by (cases "lthr s u"; cases "u = 0") (auto simp: place_ok_def)
  {
    assume w: "waits v u = Some (F1, c)"
    with b obtain l where l: "lthr s u = Blocked l" "asleep_ok l (Some (F1, c)) (pi_waits v u) (holder v F2 = Some u)"
      "u \<noteq> 0" by auto
    then obtain i x where "l = Waiter i (Wt_wait x)" "c = Some F2"
      by (auto simp: to_lock_def elim: asleep_ok.elims)
    with active_role [OF act disjI2 [OF l(1)] l(3)] show "c = Some F2 \<and> 1 \<le> u \<and> u \<le> THREAD_MAX" by simp
  next
    assume w: "waits v u = Some (Wake_complete, c)"
    with b obtain l where l: "lthr s u = Blocked l"
      "asleep_ok l (Some (Wake_complete, c)) (pi_waits v u) (holder v F2 = Some u)" "u \<noteq> 0" by auto
    then obtain x where "l = Blocker (Tb_wait x)" "c = None"
      by (auto simp: to_lock_def elim: asleep_ok.elims)
    with active_role [OF act disjI2 [OF l(1)] l(3)] show "c = None \<and> u = blocker_tid" by simp
  }
qed

lemma rp_conf_call:
  assumes timely: "timely p" and conf: "rp_conf p s v" and act: "rp_active p s l0" and t: "t \<noteq> 0"
    and l: "lthr s t = Running l \<or> lthr s t = Blocked l"
    and move: "p_move (requeue_pi p) t l s v s' v'" and c: "requeue_pi_fetch p l = Syscall c"
  shows "rp_conf p s' v'"
proof -
  have go: "lthr s 0 \<noteq> Exited" using act by (simp add: rp_active_def)
  with conf have inv: "lmem s F1 = 0" "lmem s Wake_complete = 0" "placed p (lthr s t) v t" "cut_short v t = None"
    "list_all good (llog s)" by (auto simp: rp_conf_def)
  note role = active_role [OF act l t]
  note put = rp_conf_put [OF conf go]
  from inv(3) l have fin: "fine p l" by (auto simp: place_ok_def)
  from c fin obtain f where f: "decode c = Some f" by (cases rule: call_cases) auto
  have words: "pi_words f \<subseteq> {F2}" using c fin by (cases rule: call_cases) (use f in auto)
  from l show ?thesis
  proof
    assume r: "lthr s t = Running l"
    with inv(3) have at: "at v t None None (holds p l)" by (auto simp: place_ok_def)
    have "(\<exists>bl. l = Broadcast bl) \<or> (\<exists>sl. l = Signal sl) \<Longrightarrow> t \<noteq> blocker_tid"
      using role by (auto simp del: tid_simps(5) simp: waker_tid_def blocker_tid_def)
    from call_served [OF fin at inv(1,2) c f rp_sleepers [OF conf act] this timely]
    have "served p t l c (lmem s) v f" by blast
    with move r c f obtain m where m: "same_outside (pi_words f) (lmem s) m" and out:
      "(s' = lgoto t (Blocked l) (s\<lparr>lmem := m\<rparr>) \<and> effect t v v' \<and> placed p (Blocked l) v' t) \<or>
       (\<exists>r e. s' = lgoto t (Running (requeue_pi_cont p l (Ret r e))) (s\<lparr>lmem := m, llog := llog s @ [Called t c r e]\<rparr>) \<and>
          effect t v v' \<and> placed p (Running (requeue_pi_cont p l (Ret r e))) v' t \<and> good (Called t c r e))"
      unfolding p_move_def served_def by (simp del: good.simps requeue_pi_cont.simps) blast
    from m words inv(1,2) have mem: "m F1 = 0" "m Wake_complete = 0" by (auto simp: same_outside_def)
    from out show ?thesis
    proof (elim disjE conjE exE)
      assume "s' = lgoto t (Blocked l) (s\<lparr>lmem := m\<rparr>)" "effect t v v'" "placed p (Blocked l) v' t"
      with put [of t v' "Blocked l" m "llog s"] mem inv(5) show ?thesis by simp
    next
      fix r e
      assume "s' = lgoto t (Running (requeue_pi_cont p l (Ret r e))) (s\<lparr>lmem := m, llog := llog s @ [Called t c r e]\<rparr>)"
        "effect t v v'" "placed p (Running (requeue_pi_cont p l (Ret r e))) v' t" "good (Called t c r e)"
      with put [of t v' "Running (requeue_pi_cont p l (Ret r e))" m "llog s @ [Called t c r e]"] mem inv(5)
      show ?thesis by (simp del: good.simps requeue_pi_cont.simps)
    qed
  next
    assume b: "lthr s t = Blocked l"
    with move c f obtain m r e where m: "same_outside (pi_words f) (lmem s) m" and res: "pi_resume t f v (r, e) v'"
      and s': "s' = lgoto t (Running (requeue_pi_cont p l (Ret r e))) (s\<lparr>lmem := m, llog := llog s @ [Called t c r e]\<rparr>)"
      unfolding p_move_def by (auto simp del: requeue_pi_cont.simps)
    from m words inv(1,2) have mem: "m F1 = 0" "m Wake_complete = 0" by (auto simp: same_outside_def)
    have "l = Waiter i wl \<Longrightarrow> t \<noteq> blocker_tid" for i wl
      using role by (auto simp: THREAD_MAX_def blocker_tid_def)
    from resume_effect [OF res inv(3) [unfolded b] inv(4) c f this] s' mem inv(5)
      put [of t v' "Running (requeue_pi_cont p l (Ret r e))" m "llog s @ [Called t c r e]"]
    show ?thesis by (simp del: good.simps requeue_pi_cont.simps)
  qed
qed

lemma created_fine:
  "unit_test_fetch p l0 = Create j l1 \<Longrightarrow> fine p l1 \<and> \<not> holds p l1 \<and> j \<noteq> 0"
  by (cases l0) (auto simp: wakerfn_def split: if_splits)

lemma rp_conf_mem:
  assumes conf: "rp_conf p s v" and go: "lthr s 0 \<noteq> Exited" and l: "lthr s t = Running l"
    and x: "exec_mem (requeue_pi_fetch p l) (lmem s) = Some (r, m)"
  shows "rp_conf p (lgoto t (Running (requeue_pi_cont p l r)) (s\<lparr>lmem := m\<rparr>)) v"
proof -
  from conf go have inv: "lmem s F1 = 0" "lmem s Wake_complete = 0" "placed p (lthr s t) v t"
    "list_all good (llog s)" by (auto simp: rp_conf_def)
  with l have pl: "fine p l" "at v t None None (holds p l)" by (auto simp: place_ok_def)
  from fine_mem [OF pl(1) x inv(1,2)] have "still_fine p l (requeue_pi_cont p l r) m" .
  with pl(2) have "placed p (Running (requeue_pi_cont p l r)) v t" "m F1 = 0" "m Wake_complete = 0"
    by (auto simp: still_fine_def place_ok_def)
  with rp_conf_put [OF conf go effect_same, where t = t and st = "Running (requeue_pi_cont p l r)" and m = m and log = "llog s"] inv(4)
  show ?thesis by (simp del: requeue_pi_cont.simps)
qed

lemma rp_conf_main:
  assumes conf: "rp_conf p s v" and act: "rp_active p s l0"
    and move: "p_move (requeue_pi p) 0 (Main l0) s v s' v'" and x: "exec_mem (unit_test_fetch p l0) (lmem s) = None"
  shows "rp_conf p s' v'"
proof -
  have l: "lthr s 0 = Running (Main l0)" using act by (simp add: rp_active_def)
  then have go: "lthr s 0 \<noteq> Exited" by simp
  with conf have inv: "lmem s F1 = 0" "lmem s Wake_complete = 0" "placed p (lthr s u) v u"
    "list_all good (llog s)" for u by (auto simp: rp_conf_def)
  from inv(3) [of 0] l have at: "at v 0 None None False" by (simp add: place_ok_def)
  then have pl: "placed p (Running (Main l)) v 0" for l by (simp add: place_ok_def)
  show ?thesis
  proof (cases "unit_test_fetch p l0")
    case (Create j l1)
    note fine = created_fine [OF Create]
    from move Create consider
      (started) "v' = v" "lthr s j = Unborn" "s' = lgoto 0 (Running (Main (unit_test_cont p l0 (Ret 0 0))))
        (lgoto j (Running l1) (s\<lparr>llog := llog s @ [Created j 0]\<rparr>))"
      | (failed) r where "v' = v" "s' = lgoto 0 (Running (Main (unit_test_cont p l0 (Ret r 0)))) (s\<lparr>llog := llog s @ [Created j r]\<rparr>)"
      by (auto simp: p_move_def)
    then show ?thesis
    proof cases
      case started
      let ?s = "lgoto j (Running l1) (s\<lparr>llog := llog s @ [Created j 0]\<rparr>)"
      from inv(3) [of j] started(2) fine have "placed p (Running l1) v j" by (simp add: place_ok_def)
      with rp_conf_put [OF conf go effect_same, where t = j and st = "Running l1" and m = "lmem s" and log = "llog s @ [Created j 0]"] inv fine
      have 1: "rp_conf p ?s v" by simp
      have 2: "lthr ?s 0 \<noteq> Exited" using go fine by simp
      have "?s\<lparr>lmem := lmem s, llog := llog s @ [Created j 0]\<rparr> = ?s" by (simp add: lgoto_def)
      with rp_conf_put [OF 1 2 effect_same pl, of "lmem s" "llog s @ [Created j 0]"] inv started show ?thesis
        by simp
    next
      case (failed r)
      with rp_conf_put [OF conf go effect_same pl, of "lmem s" "llog s @ [Created j r]"] inv show ?thesis by simp
    qed
  next
    case (Join j)
    with move have "v' = v" "s' = lgoto 0 (Running (Main (unit_test_cont p l0 (Ret 0 0)))) s" by (simp_all add: p_move_def)
    with rp_conf_put [OF conf go effect_same pl, of "lmem s" "llog s"] inv show ?thesis by simp
  next
    case Halt
    with move show ?thesis by (simp add: p_move_def rp_conf_def)
  qed (use x unit_test_no_call [of p l0] in \<open>auto split: if_splits\<close>)
qed

lemma rp_conf_kept:
  assumes timely: "timely p" and inv: "rp_inv p s" "rp_conf p s v" and step: "pstep (requeue_pi p) (s, v) (s', v')"
  shows "rp_conf p s' v'"
proof -
  from pstep_move [OF step] obtain t l where
    t: "lthr s t = Running l \<or> (lthr s t = Blocked l \<and> (\<exists>c. requeue_pi_fetch p l = Syscall c))"
    and move: "p_move (requeue_pi p) t l s v s' v'" by auto
  then have live: "lthr s t = Running l \<or> lthr s t = Blocked l" by blast
  have go: "lthr s 0 \<noteq> Exited" using inv(2) live by (auto simp: rp_conf_def)
  with inv(1) obtain l0 where act: "rp_active p s l0" by (auto simp: rp_inv_active)
  show ?thesis
  proof (cases "\<exists>c. requeue_pi_fetch p l = Syscall c")
    case True
    have "t \<noteq> 0"
    proof
      assume "t = 0"
      with active_main(1) [OF act, of l] live True unit_test_no_call show False by auto
    qed
    with True rp_conf_call [OF timely inv(2) act _ live move] show ?thesis by blast
  next
    case False
    with t have l: "lthr s t = Running l" by blast
    show ?thesis
    proof (cases "exec_mem (requeue_pi_fetch p l) (lmem s)")
      case (Some rm)
      obtain r m where "rm = (r, m)" by fastforce
      with Some move have "v' = v" "s' = lgoto t (Running (requeue_pi_cont p l r)) (s\<lparr>lmem := m\<rparr>)"
        by (cases "requeue_pi_fetch p l"; auto simp: p_move_def)+
      with rp_conf_mem [OF inv(2) go l, of r m] Some \<open>rm = (r, m)\<close> show ?thesis by simp
    next
      case None
      show ?thesis
      proof (cases "t = 0")
        case True
        with active_main(1) [OF act, of l] live have "l = Main l0" by simp
        with True None move rp_conf_main [OF inv(2) act] show ?thesis by simp
      next
        case t0: False
        note role = active_role [OF act live t0]
        have "requeue_pi_fetch p l = Exit"
          using None False role_fetch [OF role] by (cases "requeue_pi_fetch p l") auto
        with move have s': "v' = v" "s' = lgoto t Exited s" by (simp_all add: p_move_def)
        have "placed p (lthr s t) v t" using inv(2) go by (auto simp: rp_conf_def)
        moreover have "\<not> holds p l" using \<open>requeue_pi_fetch p l = Exit\<close> role
          by (cases "(p, l)" rule: holds.cases) auto
        ultimately have "placed p Exited v t" using l by (simp add: place_ok_def)
        with rp_conf_put [OF inv(2) go effect_same, where t = t and st = Exited and m = "lmem s" and log = "llog s"] t0 inv(2) go s' show ?thesis
          by (auto simp: rp_conf_def)
      qed
    qed
  qed
qed

interpretation rp_pi: pi_program "requeue_pi p" "{F1, F2, Wake_complete}" "ut_start p" "rp_memory stack"
  "rp_inv p" "\<lambda>s v. timely p \<longrightarrow> rp_conf p s v" for p stack
proof (unfold_locales, goal_cases)
  case (1 s)
  then show ?case
    by (auto simp: rp_conf_def linit_def start_threads_def ut_start_def rp_memory_def place_ok_def)
next
  case (2 s v s' v')
  then show ?case by (blast intro: rp_conf_kept)
qed

section \<open>Properties\<close>

lemma decode_requeue_op:
  "fc_op c = FUTEX_CMP_REQUEUE_PI_PRIVATE \<Longrightarrow> \<exists>a b n k w. decode c = Some (Cmp_requeue_pi a b n k w)"
  by (simp add: decode_defs FUTEX_CMP_REQUEUE_PI_PRIVATE_def)

definition in_range :: "int \<times> int \<Rightarrow> bool" where
  "in_range q \<longleftrightarrow> 0 \<le> fst q \<and> fst q \<le> int THREAD_MAX"

lemma requeue_answers_good: "list_all good log \<Longrightarrow> list_all in_range (requeue_answers (answers t log))"
proof (induction log)
  case (Cons x log)
  have "list_all in_range (requeue_answer x)"
    using Cons.prems by (cases x) (auto simp: in_range_def dest: decode_requeue_op)
  moreover have "list_all in_range (concat (map requeue_answer (answers t log)))"
    using Cons by (simp add: requeue_answers_def)
  ultimately show ?case by (simp add: requeue_answers_def answers_def)
qed (simp add: requeue_answers_def)

lemma waker_report_range:
  assumes "waker_report N f qs w" "list_all in_range qs" "\<And>q. 0 \<le> fst q \<Longrightarrow> f q = fst q" "N \<le> SIGNAL_CALLS"
  shows "(w = u32_of_int RET_ERROR \<and> length qs = N) \<or> 0 \<le> int_of_u32 w"
proof -
  have "\<not> list_ex (\<lambda>q. f q < 0) qs" "\<forall>q\<in>set qs. f q \<le> int THREAD_MAX"
    using assms(2,3) by (auto simp: list_ex_iff list_all_iff in_range_def)
  then show ?thesis using assms(1) counted_range [OF _ _ assms(4)] by (auto simp: waker_report_def gave_up_def)
qed

lemma good_answer: "list_all good log \<Longrightarrow> x \<in> set (answers t log) \<Longrightarrow> good x \<and> answer_to t x"
  by (auto simp: answers_def list_all_iff)

lemma waiter_good:
  assumes "list_all good log" "waiter_ok p (answers t log) w Wt_exit"
  shows "int_of_u32 w = 0"
proof -
  from assms(2) obtain r e rest where "waited p (answers t log) r e rest" and w: "w = u32_of_int (waiter_value p r e)"
    by auto
  then obtain u v where "answers t log = Called u (rp_wait p v) r e # rest" by (auto simp: waited_def)
  then have "Called u (rp_wait p v) r e \<in> set (answers t log)" by simp
  from good_answer [OF assms(1) this] have "r = 0 \<or> (r = - 1 \<and> e = ETIMEDOUT \<and> ut_timeout p \<noteq> None)"
    by (auto simp: timespec_arg_def split: option.splits)
  with w show ?thesis by (auto simp: waiter_value_def waiter_fix_def sint_u32_of_int)
qed

lemma blocker_good:
  assumes "list_all good log" "blocker_ok (answers blocker_tid log) w Tb_exit"
  shows "w = 0"
proof -
  have "call_ok x" if "x \<in> set (answers blocker_tid log)" for x
    using good_answer [OF assms(1) that] by (cases x) auto
  with assms(2) show ?thesis by (auto simp: list_all_iff)
qed

lemma waker_within:
  assumes log: "list_all good l" and wk: "thread_ok p waker_tid (answers waker_tid l) w Exited"
  shows "(w = u32_of_int RET_ERROR \<and>
      length (requeue_answers (answers waker_tid l)) = (if ut_broadcast p \<noteq> 0 then 1000 else 1011)) \<or>
    0 \<le> int_of_u32 w"
proof -
  let ?qs = "requeue_answers (answers waker_tid l)"
  have report: "if ut_broadcast p \<noteq> 0 then bw_report ?qs w else sw_report ?qs w"
    using wk by (rule waker_exited)
  show ?thesis
  proof (cases "ut_broadcast p = 0")
    case True
    have "signal_value q = fst q" if "0 \<le> fst q" for q using that by (cases q) simp
    with True waker_report_range [of SIGNAL_CALLS signal_value ?qs w] requeue_answers_good [OF log] report
    show ?thesis by (auto simp: SIGNAL_CALLS_def MAX_WAKE_ITERS_def THREAD_MAX_def simp del: tid_simps(5))
  next
    case False
    with waker_report_range [of MAX_WAKE_ITERS fst ?qs w] requeue_answers_good [OF log] report
    show ?thesis by (auto simp: SIGNAL_CALLS_def MAX_WAKE_ITERS_def THREAD_MAX_def simp del: tid_simps(5))
  qed
qed

text \<open>C14: on a kernel that keeps the contract no call of \<^verbatim>\<open>futex_requeue_pi\<close> goes wrong, in any mode.  If
  \<^verbatim>\<open>unit_test\<close> returns, the clock could be read and the timeout, if any, is a proper timespec, the result is \<^verbatim>\<open>RET_PASS\<close>, unless a thread could not be
  created or the waker reached its limit of calls, when it can be \<^verbatim>\<open>RET_ERROR\<close>.\<close>

theorem requeue_pi_conforming:
  assumes "pi_reach K view {F1, F2, Wake_complete} (requeue_pi p) (ut_start p) (rp_memory stack) s"
    "thr s 0 = Running (Main (Ut_done ret))" "ut_clock p = 0"
    "timeout_valid (timespec_arg (ut_timeout p))"
  shows "ret = RET_PASS \<or> (ret = RET_ERROR \<and>
    (incomplete p (thr s) \<or>
     length (requeue_answers (answers waker_tid (klog s))) = (if ut_broadcast p \<noteq> 0 then 1000 else 1011)))"
proof -
  have inv: "rp_inv p (log_abs s)" using pi_reach_test [OF assms(1)] by (rule rp.test_reach_tinv)
  from rp_pi.pi_reach_pinv [OF assms(1)] assms(2,4) have log: "list_all good (klog s)" by (auto simp: rp_conf_def)
  from inv assms(2) consider "ret = RET_ERROR" "incomplete p (thr s)"
    | (fin) "finished p (thr s)" "ret = unit_verdict p (args_rets (mem s))"
    by (auto simp: rp_inv_def)
  then show ?thesis
  proof cases
    case fin
    have ok: "\<And>t. 0 < t \<Longrightarrow> thread_ok p t (answers t (klog s)) (mem s (Args_ret t)) (thr s t)"
      using inv assms(2) by (auto simp: rp_inv_def)
    have ex: "thr s t = Exited" if "1 \<le> t" "t \<le> waker_tid" for t
      using fin(1) that by (simp add: finished_def joined_def)
    let ?qs = "requeue_answers (answers waker_tid (klog s))" and ?w = "mem s (Args_ret waker_tid)"
    have zero: "mem s (Args_ret (Suc i)) = 0" if i: "i < THREAD_MAX" for i
      using ok [of "Suc i"] ex [of "Suc i"] i waiter_good [OF log waiter_exited] by fastforce
    have wk: "(?w = u32_of_int RET_ERROR \<and> length ?qs = (if ut_broadcast p \<noteq> 0 then 1000 else 1011)) \<or>
        0 \<le> int_of_u32 ?w"
      using ok [of waker_tid] ex [of waker_tid] by (intro waker_within [OF log]) simp
    have tb: "mem s (Args_ret blocker_tid) = 0"
    proof (cases "thr s blocker_tid = Unborn")
      case True
      with ok [of blocker_tid] show ?thesis by (simp add: thread_ok_def)
    next
      case False
      with fin(1) have "thr s blocker_tid = Exited" by (auto simp: finished_def third_def)
      with ok [of blocker_tid] show ?thesis by (intro blocker_good [OF log blocker_exited]) simp
    qed
    have "ret = (if int_of_u32 ?w < 0 then int_of_u32 ?w else int_of_u32 (mem s (Args_ret blocker_tid)))"
      using fin(2) all_zero_verdict [of "mem s" p] zero assms(3) by simp
    with wk tb show ?thesis by (auto simp: ret_defs sint_u32_of_int s32_id INT_MIN_def INT_MAX_def simp del: tid_simps(5))
  qed simp
qed

text \<open>A schedule that suits every mode.\<close>

definition rp_mode :: "int \<Rightarrow> int \<Rightarrow> int \<Rightarrow> ut_param" where
  "rp_mode br lk ow = unit_test rt_granted (0, \<lparr>tv_sec = 0, tv_nsec = 0\<rparr>) br lk ow 0"

definition rp_turns :: "nat \<Rightarrow> tid list" where
  "rp_turns n = replicate (12 + n) 0 @ replicate 4 12 @ concat (map (replicate 4) [1..<11]) @
     concat (map (\<lambda>i. replicate 8 11 @ replicate 5 i) [1..<11]) @ replicate 6 11 @ replicate 5 12 @
     concat (map (replicate 5) [1..<11]) @ replicate (24 + n) 0"

definition rp_mode_run where
  "rp_mode_run p n = in_turns (requeue_pi p) (ut_start p) (rp_memory (\<lambda>_. 7)) (rp_turns n)"

definition rp_locked where "rp_locked = rp_mode_run (rp_mode 1 1 0) 0"

lemma rp_locked_done: "thr rp_locked 0 = Running (Main (Ut_done 0))"
  by code_simp

lemma rp_mode_reach: "pi_reach pi_kernel pi_view_of {F1, F2, Wake_complete} (requeue_pi p) (ut_start p)
    (rp_memory (\<lambda>_. 7)) (rp_mode_run p n)"
  unfolding rp_mode_run_def by (rule in_turns_reach)

theorem requeue_pi_conforming_witness: "thr rp_locked 0 = Running (Main (Ut_done RET_PASS))"
  using requeue_pi_conforming [OF rp_mode_reach rp_locked_done [unfolded rp_locked_def]] rp_locked_done
  by (simp add: rp_mode_def unit_test_def ret_defs timespec_arg_def)



lemma waiter_or_blocker:
  assumes "thread_ok p t ans w (thr s t)" "thr s t = Running l \<or> thr s t = Blocked l"
    "t \<noteq> 0" "t \<noteq> blocker_tid" "thr s waker_tid = Exited"
  obtains j where "j < THREAD_MAX" "t = Suc j"
proof -
  from assms(1, 2) have "role_ok p t ans w l" by (auto simp: thread_ok_def)
  from role_tid [OF this] assms(2-5) have "0 < t" "t < waker_tid" by (cases "t = waker_tid"; simp)+
  then show thesis by (cases t) (auto intro: that)
qed

text \<open>C17: the wake-up of the third party can be lost.  \<^verbatim>\<open>wake_complete\<close> never changes, so if the waker calls
  \<^verbatim>\<open>futex_wake\<close> before the third party calls \<^verbatim>\<open>futex_wait\<close>, the third party sleeps on, with the pi futex
  its own: once the waiters sleep too no thread can ever move, on any kernel that keeps the contract.\<close>

theorem requeue_pi_owner_hangs:
  assumes "pi_reach K view {F1, F2, Wake_complete} (requeue_pi p) (ut_start p) (rp_memory stack) s"
    "ut_timeout p = None" "thr s waker_tid = Exited"
    and blocker: "thr s blocker_tid = Blocked (Blocker (Tb_wait x))" "waits (kview view s) blocker_tid \<noteq> None"
    and waiters: "\<forall>i<THREAD_MAX. \<exists>x. thr s (Suc i) = Blocked (Waiter i (Wt_wait x))"
    and main: "thr s 0 = Running (Main (Ut_join i w keep))"
  shows "tstep (logged K) (requeue_pi p) t s = None"
proof -
  have K: "pi_contract K view" using assms(1) by (rule pi_reach_contract)
  have inv: "rp_inv p (log_abs s)" using pi_reach_test [OF assms(1)] by (rule rp.test_reach_tinv)
  have "timely p" using assms(2) by (simp add: timespec_arg_def)
  with rp_pi.pi_reach_pinv [OF assms(1)] main have pl: "placed p (thr s u) (kview view s) u" for u
    by (auto simp: rp_conf_def)
  from pl [of blocker_tid] blocker have h: "holder (kview view s) F2 = Some blocker_tid"
    by (simp add: place_ok_def)
  from inv main have i: "i < THREAD_MAX" and ok: "\<And>u. 0 < u \<Longrightarrow>
      thread_ok p u (answers u (klog s)) (mem s (Args_ret u)) (thr s u)"
    by (auto simp: rp_inv_def)
  have child: "\<exists>j<THREAD_MAX. t = Suc j" if "thr s t = Running l \<or> thr s t = Blocked l" "t \<noteq> 0" "t \<noteq> blocker_tid" for l
    using ok [of t] that assms(3) by (metis waiter_or_blocker neq0_conv)
  show ?thesis
  proof (cases "thr s t")
    case (Running l)
    show ?thesis
    proof (cases "t = 0")
      case True
      with main waiters i show ?thesis by (auto simp: tstep_def)
    next
      case False
      with child Running waiters blocker(1) show ?thesis by fastforce
    qed
  next
    case (Blocked l)
    show ?thesis
    proof (cases "t = blocker_tid")
      case True
      with blocker queued_stays [OF K, of s t "Blocker (Tb_wait x)" "requeue_pi p" "rp_block x"] show ?thesis
        by (simp add: queued_def)
    next
      case False
      with child Blocked main obtain j y where t: "t = Suc j" "thr s t = Blocked (Waiter j (Wt_wait y))"
        using waiters by (metis tstatus.distinct(7))
      with pl [of t] h False have "queued (kview view s) t" by (auto simp: place_ok_def queued_def)
      with t queued_stays [OF K, of s t "Waiter j (Wt_wait y)" "requeue_pi p" "rp_wait p y"] assms(2) show ?thesis
        by (simp add: timespec_arg_def)
    qed
  qed (simp_all add: tstep_def)
qed

definition rp_hung where
  "rp_hung = in_turns (requeue_pi (rp_mode 1 0 1)) (ut_start (rp_mode 1 0 1)) (rp_memory (\<lambda>_. 0))
     (replicate 14 0 @ replicate 2 12 @ concat (map (replicate 4) [1..<11]) @ replicate 10 11 @ replicate 2 12)"

lemma rp_hung_facts: "map (thr rp_hung) [0..<13] = Running (Main (Ut_join 0 0 False)) #
    map (\<lambda>i. Blocked (Waiter i (Wt_wait 0))) [0..<10] @ [Exited, Blocked (Blocker (Tb_wait 0))]"
    "waits (kview pi_view_of rp_hung) 12 = Some (Wake_complete, None)"
  by code_simp+

lemma rp_hung_reach: "pi_reach pi_kernel pi_view_of {F1, F2, Wake_complete} (requeue_pi (rp_mode 1 0 1))
    (ut_start (rp_mode 1 0 1)) (rp_memory (\<lambda>_. 0)) rp_hung"
  unfolding rp_hung_def by (rule in_turns_reach)

theorem requeue_pi_owner_hangs_witness:
  "thr rp_hung 0 = Running (Main (Ut_join 0 0 False)) \<and> tstep (logged pi_kernel) (requeue_pi (rp_mode 1 0 1)) 5 rp_hung = None"
proof -
  have st: "thr rp_hung i = (Running (Main (Ut_join 0 0 False)) #
      map (\<lambda>i. Blocked (Waiter i (Wt_wait 0))) [0..<10] @ [Exited, Blocked (Blocker (Tb_wait 0))]) ! i" if "i < 13" for i
    using that rp_hung_facts(1) by (metis add.left_neutral diff_zero length_upt nth_map nth_upt)
  have main: "thr rp_hung 0 = Running (Main (Ut_join 0 0 False))" using st [of 0] by simp
  have "\<forall>i<THREAD_MAX. \<exists>x. thr rp_hung (Suc i) = Blocked (Waiter i (Wt_wait x))"
    using st by (auto simp: THREAD_MAX_def nth_append)
  moreover have "thr rp_hung waker_tid = Exited" "thr rp_hung blocker_tid = Blocked (Blocker (Tb_wait 0))"
    using st [of 11] st [of 12] by (simp_all add: waker_tid_def blocker_tid_def nth_append del: tid_simps(5))
  moreover have "ut_timeout (rp_mode 1 0 1) = None" by (simp add: rp_mode_def unit_test_def)
  moreover have "waits (kview pi_view_of rp_hung) blocker_tid \<noteq> None"
    using rp_hung_facts(2) by (simp add: blocker_tid_def)
  ultimately have "tstep (logged pi_kernel) (requeue_pi (rp_mode 1 0 1)) 5 rp_hung = None"
    using requeue_pi_owner_hangs [OF rp_hung_reach _ _ _ _ _ main, of 0 5] by blast
  with main show ?thesis by simp
qed

end
