(* ===== verification/Spec2Isabelle.thy ===== *)
theory Spec2Isabelle
  imports Performance Harness_Report Wait_Conf Uninit_Told Mismatched_Told Private_Told Signal_Told Requeue_Pi_Told
    Mismatched_Conf Private_Conf Signal_Conf Requeue_Pi_Conf
begin

text \<open>
  A verification library for futextest, the functional and performance tests of the Linux futex
  system call.

  \<^bold>\<open>The program.\<close>  futextest is a set of small C programs over three headers.
  \<^verbatim>\<open>include/atomic.h\<close> and \<^verbatim>\<open>include/futextest.h\<close> wrap gcc's atomic builtins and the futex system
  call; \<^verbatim>\<open>include/logging.h\<close> prints messages and results.  The performance test
  \<^verbatim>\<open>performance/futex_wait.c\<close> measures a lock made of these operations with the harness
  \<^verbatim>\<open>performance/harness.h\<close>, which starts threads, lets them meet at two barriers and reads the
  clock between them.  Each program of \<^verbatim>\<open>functional/\<close> provokes one behaviour of the kernel, with
  one to thirteen threads, and turns what it saw into \<^verbatim>\<open>RET_PASS\<close>, \<^verbatim>\<open>RET_ERROR\<close> or \<^verbatim>\<open>RET_FAIL\<close>.

  \<^bold>\<open>The model.\<close>  A thread function is a \<open>program\<close> of the machine of theory \<open>Machine\<close>: control points,
  \<open>fetch\<close> for the shared-memory access or call made at one, \<open>cont\<close> for where its result leads.
  Threads interleave instruction by instruction over one memory of 32-bit words.  Kernel and
  libpthread are not part of the sources: they are the parameter \<open>K\<close>, and what a theorem needs of
  them is a hypothesis of it: the documented contract of \<^verbatim>\<open>FUTEX_WAIT\<close> and \<^verbatim>\<open>FUTEX_WAKE\<close>
  (\<open>futex_contract\<close>, for the performance test, which relies on the kernel); only that futex calls
  write to no other memory than the futexes (\<open>writes_only\<close>, for the functional tests, which judge
  it); or the documented outcomes of waiting, waking, requeueing, of pi futexes and of signals
  (\<open>pi_contract\<close>, for what the functional tests report of a kernel that behaves).

  \<^bold>\<open>Theories.\<close>
  \<^item> \<open>Prelude\<close>: C integers and division, reachable states, invariants, forward simulations.
  \<^item> \<open>C_Library\<close>: \<^verbatim>\<open>atoi\<close>, \<^verbatim>\<open>getopt\<close>, \<^verbatim>\<open>basename\<close>, \<^verbatim>\<open>errno\<close> values, the option loop of every \<^verbatim>\<open>main\<close>.
  \<^item> \<open>Logging\<close> (\<^verbatim>\<open>logging.h\<close>): result strings, colours, verbosity, messages; the interface
    \<open>option_switch\<close> of the option switches, and \<open>test_main\<close>, the frame of the \<^verbatim>\<open>main\<close> functions whose
    options are \<^verbatim>\<open>-c\<close>, \<^verbatim>\<open>-h\<close> and \<^verbatim>\<open>-v\<close>, around the program's own help text.
  \<^item> \<open>Atomic\<close> (\<^verbatim>\<open>atomic.h\<close>, \<^verbatim>\<open>futextest.h\<close>): both families of atomic operations and their common
    interface \<open>atomic_cell\<close>.
  \<^item> \<open>Futextest\<close> (\<^verbatim>\<open>futextest.h\<close>): op codes and the wrappers, as the calls they lay out, with \<open>decode\<close>
    for what futex(2) reads.
  \<^item> \<open>Machine\<close>: the machine, the kernel's contract, and the abstract machine \<open>astep\<close> whose kernel is the
    contract itself; \<open>machine_sim\<close> proves the simulation.
  \<^item> \<open>Harness\<close>, \<open>Harness_Steps\<close>, \<open>Barrier\<close>, \<open>Harness_Safety\<close>, \<open>Harness_View\<close> (\<^verbatim>\<open>harness.h\<close>): the
    barriers, the worker and \<open>locktest\<close> around an arbitrary measured function; the invariants of
    the barriers, what they imply, and the view a measured function has of a run.
  \<^item> \<open>Futex_Wait\<close> (\<^verbatim>\<open>futex_wait.c\<close>): lock, unlock and the measured loop, and the invariant of the lock.
  \<^item> \<open>Harness_Report\<close> (\<^verbatim>\<open>harness.h\<close>): what \<^verbatim>\<open>locktest\<close> prints, and what its figures mean.
  \<^item> \<open>Kernels\<close>: a kernel that logs what it answered, a kernel with a first-in-first-out queue that keeps
    the contract, and one that answers by a script; schedules.
  \<^item> \<open>Performance\<close> (\<^verbatim>\<open>futex_wait.c\<close>): its \<^verbatim>\<open>main\<close>, and the properties of lock and harness.
  \<^item> \<open>Logged_Runs\<close>: runs of a functional test on an unknown kernel (\<open>test_reach\<close>), and the interface
    \<open>test_program\<close> that turns an invariant over the kernel's answers into a fact of all runs.
  \<^item> \<open>Complaints\<close>: runs with the ERROR and FAIL lines printed so far, and the interface
    \<open>telling_program\<close>, which extends \<open>test_program\<close> by an invariant over these lines.
  \<^item> \<open>Wait_Tests\<close> (\<^verbatim>\<open>futex_wait_timeout.c\<close>, \<^verbatim>\<open>futex_wait_wouldblock.c\<close>), \<open>Mismatched_Ops\<close>
    (\<^verbatim>\<open>futex_requeue_pi_mismatched_ops.c\<close>), \<open>Private_Mapped\<close> (\<^verbatim>\<open>futex_wait_private_mapped_file.c\<close>),
    \<open>Uninit_Heap\<close> (\<^verbatim>\<open>futex_wait_uninitialized_heap.c\<close>), \<open>Signal_Restart\<close>
    (\<^verbatim>\<open>futex_requeue_pi_signal_restart.c\<close>): one program each, its threads, its \<^verbatim>\<open>main\<close>, and its verdict
    in terms of the kernel's answers.
  \<^item> \<open>Rt_Threads\<close>: \<^verbatim>\<open>create_rt_thread\<close>, which two programs share.
  \<^item> \<open>Requeue_Pi\<close>, \<open>Requeue_Pi_Runs\<close>, \<open>Requeue_Pi_Props\<close> (\<^verbatim>\<open>futex_requeue_pi.c\<close>): the five thread
    functions and \<^verbatim>\<open>main\<close>; the invariants of the threads; the properties.
  \<^item> \<open>Pi_Futex\<close>: the contract \<open>pi_contract\<close>, and \<open>pi_kernel\<close> and \<open>timer_kernel\<close>, which keep it;
    \<open>Pi_Runs\<close>: runs on such a kernel, the machine \<open>pstep\<close> over the contract, and the interface \<open>pi_program\<close>, which extends
    \<open>test_program\<close>.
  \<^item> \<open>Mismatched_Told\<close>, \<open>Private_Told\<close>, \<open>Uninit_Told\<close>, \<open>Signal_Told\<close>, \<open>Requeue_Pi_Told\<close>: what each test with
    several threads prints to \<^verbatim>\<open>stderr\<close>, and how it agrees with the result.
  \<^item> \<open>Wait_Conf\<close>, \<open>Mismatched_Conf\<close>, \<open>Private_Conf\<close>, \<open>Signal_Conf\<close>, \<open>Requeue_Pi_Conf\<close>: five of the tests
    on kernels that keep \<open>pi_contract\<close>, each with the invariant that ties the control points to the
    kernel's queues.

  \<^bold>\<open>What is shown.\<close>  Of the lock: mutual exclusion, no lost wake-up, the meaning of the futex word, and
  that it implements an abstract mutex.  Of the harness: the measured functions start together,
  both readings of the clock are taken while nobody is inside them, errors abort the run, no run
  can get stuck, and the rate printed is the rate of the iterations asked for.  Of every functional
  test: which answers of the kernel lead to which result, on any kernel; and for those whose
  behaviour the contract of \<^verbatim>\<open>FUTEX_WAIT\<close> and \<^verbatim>\<open>FUTEX_WAKE\<close> determines, that a conforming kernel passes.

  Of the tests on kernels that keep \<open>pi_contract\<close>: the three requeue tests raise no false alarm, in any
  mode, with any proper timeout and whenever signals arrive; \<^verbatim>\<open>futex_requeue_pi_signal_restart\<close> and
  \<^verbatim>\<open>futex_wait_private_mapped_file\<close> cannot hang, the other two can, and the theorems say how;
  \<^verbatim>\<open>futex_wait_timeout\<close> passes exactly for timeouts of less than a second.  Of the messages: a test
  with several threads returns a failure exactly if it explained one, with the exceptions the
  theorems name.  Of the thirteen threads of \<^verbatim>\<open>futex_requeue_pi\<close>: each stays in its function and inside
  its arrays.  Of the loops that depend on the kernel: the wakers of \<^verbatim>\<open>futex_requeue_pi\<close> end whatever it
  answers, the loop of the signal test ends with the first success and never on an error.  Of the
  headers: wrappers, atomic operations, result lines, verbosity.  Theorems that show a program
  doing something else than its comments or help say are among them.

  \<^bold>\<open>Bounds and fuel.\<close>  Nothing is bounded by fuel: runs are of any length, threads, iterations and
  integers are those of the program.  \<open>Requeue_Pi_Props\<close> gives the number of steps after which a waker
  has ended, from a measure on its control points.

  \<^bold>\<open>Not modelled.\<close>  The kernel and libpthread (parameters); the time that passes in \<^verbatim>\<open>sleep\<close> and
  \<^verbatim>\<open>usleep\<close>, which are steps without effect; the rounding of \<^verbatim>\<open>double\<close>s in the figures \<^verbatim>\<open>locktest\<close>
  prints, and the readings of \<^verbatim>\<open>times\<close> (parameters); the point at which the handler of a signal runs (a signal reaches the kernel, and the handler's
  message is \<open>handle_signal\<close>); weak memory (accesses are sequentially consistent); the
  \<^verbatim>\<open>info\<close> lines, printed from verbosity 2 on, of the functional tests; the layout of memory that makes a
  mapping private; \<^verbatim>\<open>Makefile\<close>s and \<^verbatim>\<open>run.sh\<close> scripts.
\<close>

section \<open>The command lines of the functional tests\<close>




end
